(* ===== verification/Prelude.thy ===== *)
theory Prelude
  imports Main "HOL-Library.Word"
begin

text \<open>
  Shared vocabulary of the development: the machine types of the C sources, the ways a C function
  can fail to return, the little-endian memory image of a 64-bit word, and generic lemmas on lists
  and words that the component theories use.
\<close>

section \<open>Machine types\<close>

type_synonym byte = "8 word"
type_synonym u32 = "32 word"
type_synonym u64 = "64 word"

named_theorems bits \<open>bit-level descriptions of the encoders\<close>
named_theorems inv_intro \<open>preservation of the component invariants\<close>

section \<open>Runs of C functions\<close>

text \<open>
  A C function either returns or stops. \<open>Bug_On\<close> is the \<^verbatim>\<open>BUG_ON\<close> macro of
  \<^verbatim>\<open>tloe_common.h\<close>, \<open>Exit_Failure\<close> a direct \<^verbatim>\<open>exit\<close>, \<open>Undefined\<close> an access the C standard
  leaves undefined (a null pointer, an index outside an array or a heap object), and \<open>Diverge\<close> a
  loop that never ends.
\<close>

datatype stop = Bug_On | Exit_Failure | Undefined | Diverge

type_synonym 'a run = "stop + 'a"

definition bind_run :: "'a run \<Rightarrow> ('a \<Rightarrow> 'b run) \<Rightarrow> 'b run" where
  "bind_run m f = (case m of Inl s \<Rightarrow> Inl s | Inr x \<Rightarrow> f x)"

definition bug_on :: "bool \<Rightarrow> 'a \<Rightarrow> 'a run" where
  "bug_on c x = (if c then Inl Bug_On else Inr x)"

text \<open>\<^verbatim>\<open>error_exit\<close> of \<^verbatim>\<open>util.c\<close>: the message goes to standard error, and the program ends.\<close>

definition error_exit :: "string \<Rightarrow> 'a run" where
  "error_exit message = Inl Exit_Failure"

lemma bind_run_simps [simp]:
  "bind_run (Inl s) f = Inl s"
  "bind_run (Inr x) f = f x"
  by (simp_all add: bind_run_def)

lemma bind_run_eq_Inr:
  "bind_run m f = Inr y \<longleftrightarrow> (\<exists>x. m = Inr x \<and> f x = Inr y)"
  by (cases m) auto

lemma bind_run_assoc: "bind_run (bind_run m f) g = bind_run m (\<lambda>x. bind_run (f x) g)"
  by (cases m) auto

lemma bind_run_cong [fundef_cong]:
  "m = m' \<Longrightarrow> (\<And>x. m' = Inr x \<Longrightarrow> f x = g x) \<Longrightarrow> bind_run m f = bind_run m' g"
  by (cases m') auto

lemma bug_on_simps [simp]:
  "bug_on True x = Inl Bug_On"
  "bug_on False x = Inr x"
  by (simp_all add: bug_on_def)

text \<open>A loop body run once for each element of a list, stopping as soon as the body stops.\<close>

fun fold_run :: "('i \<Rightarrow> 's \<Rightarrow> 's run) \<Rightarrow> 'i list \<Rightarrow> 's \<Rightarrow> 's run" where
  "fold_run body [] s = Inr s"
| "fold_run body (i # is) s = bind_run (body i s) (fold_run body is)"

lemma fold_run_append:
  "fold_run body (xs @ ys) s = bind_run (fold_run body xs s) (fold_run body ys)"
  by (induction xs arbitrary: s) (simp_all add: bind_run_assoc fun_eq_iff cong: bind_run_cong)

lemma fold_run_invariant:
  assumes "\<And>i s s'. i \<in> set is \<Longrightarrow> P s \<Longrightarrow> body i s = Inr s' \<Longrightarrow> P s'"
    and "P s" and "fold_run body is s = Inr s'"
  shows "P s'"
  using assms
proof (induction "is" arbitrary: s)
  case Nil
  then show ?case by simp
next
  case (Cons i "is")
  from Cons.prems(3) obtain t where t: "body i s = Inr t" and rest: "fold_run body is t = Inr s'"
    by (auto simp: bind_run_eq_Inr)
  from Cons.prems(1,2) t have "P t" by auto
  then show ?case using Cons.IH [OF _ _ rest] Cons.prems(1) by auto
qed

text \<open>
  A condition on whatever a run returns. The rules take a composed function apart into its calls, and \<open>run_weaken\<close> uses
  what is known of a call.
\<close>

definition run_gives :: "('a \<Rightarrow> bool) \<Rightarrow> 'a run \<Rightarrow> bool" where
  "run_gives Q m \<longleftrightarrow> (\<forall>x. m = Inr x \<longrightarrow> Q x)"

lemma run_gives_simps [simp]:
  "run_gives Q (Inl s)" "run_gives Q (Inr x) \<longleftrightarrow> Q x" "run_gives Q (bug_on c x) \<longleftrightarrow> c \<or> Q x"
  "run_gives Q (bind_run m f) \<longleftrightarrow> run_gives (\<lambda>x. run_gives Q (f x)) m"
  "run_gives (\<lambda>_. True) m"
  by (auto simp: run_gives_def bug_on_def bind_run_eq_Inr)

lemma run_weaken: "run_gives P m \<Longrightarrow> (\<And>x. P x \<Longrightarrow> Q x) \<Longrightarrow> run_gives Q m"
  by (auto simp: run_gives_def)

lemma run_any: "(\<And>x. Q x) \<Longrightarrow> run_gives Q m"
  by (simp add: run_gives_def)

lemma run_givesD: "run_gives Q m \<Longrightarrow> m = Inr x \<Longrightarrow> Q x"
  by (simp add: run_gives_def)

lemma fold_run_gives:
  assumes "\<And>i s. i \<in> set is \<Longrightarrow> P s \<Longrightarrow> run_gives P (body i s)" "P s"
  shows "run_gives P (fold_run body is s)"
  using assms
proof (induction "is" arbitrary: s)
  case (Cons i "is")
  have "run_gives P (body i s)" using Cons.prems by simp
  then show ?case using Cons.IH Cons.prems(1) by (auto elim: run_weaken)
qed simp

section \<open>Invariants of step relations\<close>

text \<open>
  An invariant along a run. The bound \<open>P\<close> is assumed at the end of the run only: it held before every step that it holds after.
\<close>

lemma reachable_bounded:
  assumes "step\<^sup>*\<^sup>* s t" "I s" "P t" "\<And>x y. step x y \<Longrightarrow> P y \<Longrightarrow> P x" "\<And>x y. step x y \<Longrightarrow> P y \<Longrightarrow> I x \<Longrightarrow> I y"
  shows "I t"
  using assms(1,3) by (induction rule: rtranclp_induct) (use assms(2,4,5) in blast)+

lemma reachable_invariant:
  assumes "step\<^sup>*\<^sup>* s t" "I s" "\<And>x y. step x y \<Longrightarrow> I x \<Longrightarrow> I y"
  shows "I t"
  using reachable_bounded [of step s t I "\<lambda>_. True"] assms by blast

section \<open>The memory image of a 64-bit word\<close>

text \<open>
  The host is little-endian: byte \<open>k\<close> of the object representation holds bits \<open>8k\<close> to \<open>8k + 7\<close>.
  \<^verbatim>\<open>htobe64\<close> followed by \<^verbatim>\<open>memcpy\<close> therefore stores the reversed image.
\<close>

definition le_bytes :: "u64 \<Rightarrow> byte list" where
  "le_bytes w = map (\<lambda>k. ucast (drop_bit (8 * k) w)) [0..<8]"

fun le_u64 :: "byte list \<Rightarrow> u64" where
  "le_u64 [] = 0"
| "le_u64 (b # bs) = or (ucast b) (push_bit 8 (le_u64 bs))"

lemma length_le_bytes [simp]: "length (le_bytes w) = 8"
  by (simp add: le_bytes_def)

lemma bit_le_bytes [bits]:
  "k < 8 \<Longrightarrow> bit (le_bytes w ! k) n \<longleftrightarrow> n < 8 \<and> bit w (8 * k + n)"
  by (auto simp: le_bytes_def bit_simps)

lemma bit_le_u64 [bits]:
  "bit (le_u64 bs) n \<longleftrightarrow> n < 64 \<and> n div 8 < length bs \<and> bit (bs ! (n div 8)) (n mod 8)"
proof (induction bs arbitrary: n)
  case Nil
  then show ?case by simp
next
  case (Cons b bs)
  show ?case
  proof (cases "n < 8")
    case True
    then show ?thesis by (auto simp: bit_simps)
  next
    case False
    then have "n div 8 = Suc ((n - 8) div 8)" "n mod 8 = (n - 8) mod 8"
      by (simp_all add: le_div_geq le_mod_geq)
    moreover from False have "\<not> bit b n"
      by (auto dest: bit_imp_le_length)
    ultimately show ?thesis using False by (auto simp: bit_simps Cons.IH)
  qed
qed

lemma le_u64_le_bytes [simp]: "le_u64 (le_bytes w) = w"
proof (rule bit_eqI)
  fix n assume "possible_bit TYPE(u64) n"
  then have n: "n < 64" by simp
  then have "n div 8 < 8" by auto
  with n show "bit (le_u64 (le_bytes w)) n = bit w n"
    by (simp add: bits)
qed

lemma le_bytes_le_u64:
  assumes "length bs = 8"
  shows "le_bytes (le_u64 bs) = bs"
proof (rule nth_equalityI)
  show "length (le_bytes (le_u64 bs)) = length bs" using assms by simp
next
  fix k assume "k < length (le_bytes (le_u64 bs))"
  then have k: "k < 8" by simp
  show "le_bytes (le_u64 bs) ! k = bs ! k"
  proof (rule bit_eqI)
    fix n assume "possible_bit TYPE(byte) n"
    then have "n < 8" by simp
    with k assms show "bit (le_bytes (le_u64 bs) ! k) n = bit (bs ! k) n"
      by (simp add: bits)
  qed
qed

text \<open>The object representation of an array of 64-bit words, and back.\<close>

definition flits_bytes :: "u64 list \<Rightarrow> byte list" where
  "flits_bytes ws = concat (map le_bytes ws)"

fun bytes_flits :: "byte list \<Rightarrow> u64 list" where
  "bytes_flits bs = (if bs = [] then [] else le_u64 (take 8 bs) # bytes_flits (drop 8 bs))"

declare bytes_flits.simps [simp del]

lemma bytes_flits_Nil [simp]: "bytes_flits [] = []"
  by (simp add: bytes_flits.simps)

lemma flits_bytes_simps [simp]:
  "flits_bytes [] = []"
  "flits_bytes (w # ws) = le_bytes w @ flits_bytes ws"
  "flits_bytes (ws @ vs) = flits_bytes ws @ flits_bytes vs"
  by (simp_all add: flits_bytes_def)

lemma length_flits_bytes [simp]: "length (flits_bytes ws) = 8 * length ws"
  by (induction ws) simp_all

lemma bytes_flits_append8:
  "length xs = 8 \<Longrightarrow> bytes_flits (xs @ ys) = le_u64 xs # bytes_flits ys"
  by (subst bytes_flits.simps) auto

lemma bytes_flits_flits_bytes [simp]: "bytes_flits (flits_bytes ws) = ws"
  by (induction ws) (simp_all add: bytes_flits_append8)

lemma flits_bytes_bytes_flits:
  "length bs = 8 * n \<Longrightarrow> flits_bytes (bytes_flits bs) = bs"
proof (induction n arbitrary: bs)
  case 0
  then show ?case by simp
next
  case (Suc n)
  then have "flits_bytes (bytes_flits (drop 8 bs)) = drop 8 bs" by simp
  with Suc.prems show ?case
    by (subst bytes_flits.simps) (auto simp: le_bytes_le_u64)
qed

lemma length_bytes_flits: "length bs = 8 * n \<Longrightarrow> length (bytes_flits bs) = n"
proof (induction n arbitrary: bs)
  case 0
  then show ?case by simp
next
  case (Suc n)
  then have "length (bytes_flits (drop 8 bs)) = n" by simp
  with Suc.prems show ?case by (subst bytes_flits.simps) auto
qed

lemma take_flits_bytes: "take (8 * n) (flits_bytes ws) = flits_bytes (take n ws)"
proof (induction ws arbitrary: n)
  case Nil
  then show ?case by simp
next
  case (Cons w ws)
  then show ?case by (cases n) auto
qed

lemma drop_flits_bytes: "drop (8 * n) (flits_bytes ws) = flits_bytes (drop n ws)"
proof (induction ws arbitrary: n)
  case Nil
  then show ?case by simp
next
  case (Cons w ws)
  then show ?case by (cases n) auto
qed

section \<open>Shifts\<close>

text \<open>
  \<^verbatim>\<open>1ULL << n\<close> as the shift instructions of x86-64 and AArch64 compute it: the count is taken modulo
  the width, so a negative count selects a high bit. The C standard leaves \<open>n < 0\<close> and \<open>n \<ge> 64\<close>
  undefined; \<^verbatim>\<open>tilelink_msg.c\<close> shifts by \<open>-1\<close> for messages without data.
\<close>

definition shl_1ULL :: "int \<Rightarrow> u64" where
  "shl_1ULL n = push_bit (nat (n mod 64)) 1"

text \<open>Conversion of an \<^verbatim>\<open>unsigned long long\<close> to \<^verbatim>\<open>int\<close>: the low 32 bits, read as two's complement.\<close>

definition int_of_u64 :: "u64 \<Rightarrow> int" where
  "int_of_u64 w = sint (ucast w :: u32)"

lemma int_shl_1ULL_m1 [simp]: "int_of_u64 (shl_1ULL (-1)) = 0"
  by (simp add: int_of_u64_def shl_1ULL_def)

lemma int_shl_1ULL_small:
  assumes "n < 31"
  shows "int_of_u64 (shl_1ULL (int n)) = 2 ^ n"
proof -
  have "n \<in> set [0..<31]" using assms by simp
  then show ?thesis
    by (auto simp: int_of_u64_def shl_1ULL_def upt_conv_Cons numeral_2_eq_2 [symmetric])
qed

end
