(* ===== verification/Circular_Queue.thy ===== *)
theory Circular_Queue
  imports Prelude
begin

text \<open>
  The ring buffer of \<^verbatim>\<open>util/circular_queue.c\<close>: the struct, its operations, the abstraction to a
  list, the interface \<open>bounded_fifo\<close> that the other components rely on, and its interpretation on
  the ring buffer. The mutex and condition variable of the struct are initialised and never used,
  so they are left out.
\<close>

section \<open>The struct and its operations\<close>

text \<open>
  \<open>data\<close> is the flexible array of pointers: \<open>None\<close> is a null pointer or a slot that
  \<^verbatim>\<open>malloc\<close> left uninitialised. Indices are non-negative C \<^verbatim>\<open>int\<close>s below \<open>qsize\<close> (at most 10000 in
  the program), so their sums never overflow.
\<close>

record 'a CircularQueue =
  front :: nat
  rear :: nat
  qsize :: nat
  data :: "'a option list"

record 'a CircularQueueIter =
  iter_q :: "'a CircularQueue"
  iter_next :: nat

definition init_queue :: "'a CircularQueue \<Rightarrow> nat \<Rightarrow> 'a CircularQueue" where
  "init_queue q n = q\<lparr>front := 0, rear := 0, qsize := n\<rparr>"

definition create_queue :: "nat \<Rightarrow> 'a CircularQueue" where
  "create_queue n = init_queue \<lparr>front = 0, rear = 0, qsize = 0, data = replicate n None\<rparr> n"

definition is_queue_empty :: "'a CircularQueue \<Rightarrow> bool" where
  "is_queue_empty q \<longleftrightarrow> front q = rear q"

definition is_queue_full :: "'a CircularQueue \<Rightarrow> bool" where
  "is_queue_full q \<longleftrightarrow> (rear q + 1) mod qsize q = front q"

definition enqueue :: "'a CircularQueue \<Rightarrow> 'a \<Rightarrow> bool \<times> 'a CircularQueue" where
  "enqueue q x =
     (if is_queue_full q then (False, q)
      else (True, q\<lparr>data := (data q)[rear q := Some x], rear := (rear q + 1) mod qsize q\<rparr>))"

definition dequeue :: "'a CircularQueue \<Rightarrow> 'a option \<times> 'a CircularQueue" where
  "dequeue q =
     (if is_queue_empty q then (None, q)
      else (data q ! front q, q\<lparr>front := (front q + 1) mod qsize q\<rparr>))"

definition getfront :: "'a CircularQueue \<Rightarrow> 'a option" where
  "getfront q = (if is_queue_empty q then None else data q ! front q)"

text \<open>
  The loop \<^verbatim>\<open>for (i = front; i != rear; i = (i+1) % size)\<close> that several functions use. The fuel is
  the number of times the loop test is evaluated. After one pass over the ring the index repeats, so
  a loop that has not met \<open>rear\<close> after \<open>size + 1\<close> tests never meets it.
\<close>

fun queue_for ::
  "nat \<Rightarrow> nat \<Rightarrow> nat \<Rightarrow> nat \<Rightarrow> (nat \<Rightarrow> 's \<Rightarrow> 's run) \<Rightarrow> 's \<Rightarrow> 's run" where
  "queue_for 0 n i r body s = Inl Diverge"
| "queue_for (Suc fuel) n i r body s =
     (if i = r then Inr s
      else bind_run (body i s) (queue_for fuel n ((i + 1) mod n) r body))"

definition queue_loop :: "'a CircularQueue \<Rightarrow> (nat \<Rightarrow> 's \<Rightarrow> 's run) \<Rightarrow> 's \<Rightarrow> 's run" where
  "queue_loop q body s = queue_for (qsize q + 1) (qsize q) (front q) (rear q) body s"

text \<open>
  \<open>delete_queue\<close> frees each queued element that is not null and then the queue: the model returns
  the elements freed, in order. A null queue is left alone.
\<close>

definition delete_queue :: "'a CircularQueue option \<Rightarrow> 'a list run" where
  "delete_queue qo =
     (case qo of None \<Rightarrow> Inr []
      | Some q \<Rightarrow>
          queue_loop q (\<lambda>i freed. case data q ! i of None \<Rightarrow> Inr freed
                                   | Some e \<Rightarrow> Inr (freed @ [e])) [])"

text \<open>\<open>printqueue\<close> prints the two indices and then every slot it walks over.\<close>

definition printqueue :: "'a CircularQueue \<Rightarrow> (nat \<times> nat \<times> 'a option list) run" where
  "printqueue q =
     bind_run (queue_loop q (\<lambda>i out. Inr (out @ [data q ! i])) [])
       (\<lambda>out. Inr (front q, rear q, out))"

definition queue_iter :: "'a CircularQueue \<Rightarrow> 'a CircularQueueIter" where
  "queue_iter q = \<lparr>iter_q = q, iter_next = front q\<rparr>"

section \<open>The interface of a bounded queue\<close>

text \<open>What the endpoint relies on: the operations act on a list of bounded length.\<close>

locale bounded_fifo =
  fixes enq :: "'q \<Rightarrow> 'a \<Rightarrow> bool \<times> 'q"
    and deq :: "'q \<Rightarrow> 'a option \<times> 'q"
    and peek :: "'q \<Rightarrow> 'a option"
    and empty :: "'q \<Rightarrow> bool"
    and full :: "'q \<Rightarrow> bool"
    and contents :: "'q \<Rightarrow> 'a list"
    and cap :: "'q \<Rightarrow> nat"
    and inv :: "'q \<Rightarrow> bool"
  assumes bound: "inv q \<Longrightarrow> length (contents q) \<le> cap q"
    and empty_iff: "inv q \<Longrightarrow> empty q \<longleftrightarrow> contents q = []"
    and full_iff: "inv q \<Longrightarrow> full q \<longleftrightarrow> length (contents q) = cap q"
    and enq_full: "full q \<Longrightarrow> enq q x = (False, q)"
    and enq_fst: "\<not> full q \<Longrightarrow> fst (enq q x)"
    and enq_contents: "inv q \<Longrightarrow> \<not> full q \<Longrightarrow> contents (snd (enq q x)) = contents q @ [x]"
    and enq_cap: "cap (snd (enq q x)) = cap q"
    and enq_inv: "inv q \<Longrightarrow> inv (snd (enq q x))"
    and peek_contents: "inv q \<Longrightarrow> peek q = (case contents q of [] \<Rightarrow> None | x # _ \<Rightarrow> Some x)"
    and deq_fst: "fst (deq q) = peek q"
    and deq_contents: "inv q \<Longrightarrow> contents (snd (deq q)) = tl (contents q)"
    and deq_cap: "cap (snd (deq q)) = cap q"
    and deq_inv: "inv q \<Longrightarrow> inv (snd (deq q))"

text \<open>Sequences of queue operations, on a queue and on the list it stands for.\<close>

datatype 'a queue_op = Enq 'a | Deq

datatype 'a queue_out = Accepted bool | Took "'a option"

fun queue_run ::
  "('q \<Rightarrow> 'a \<Rightarrow> bool \<times> 'q) \<Rightarrow> ('q \<Rightarrow> 'a option \<times> 'q) \<Rightarrow> 'a queue_op list \<Rightarrow> 'q \<Rightarrow>
   'a queue_out list \<times> 'q" where
  "queue_run enq deq [] q = ([], q)"
| "queue_run enq deq (Enq x # ops) q =
     (let (b, q') = enq q x; (outs, q'') = queue_run enq deq ops q' in (Accepted b # outs, q''))"
| "queue_run enq deq (Deq # ops) q =
     (let (r, q') = deq q; (outs, q'') = queue_run enq deq ops q' in (Took r # outs, q''))"

fun list_run :: "nat \<Rightarrow> 'a queue_op list \<Rightarrow> 'a list \<Rightarrow> 'a queue_out list \<times> 'a list" where
  "list_run n [] xs = ([], xs)"
| "list_run n (Enq x # ops) xs =
     (if length xs < n
      then let (outs, ys) = list_run n ops (xs @ [x]) in (Accepted True # outs, ys)
      else let (outs, ys) = list_run n ops xs in (Accepted False # outs, ys))"
| "list_run n (Deq # ops) xs =
     (case xs of
        [] \<Rightarrow> let (outs, ys) = list_run n ops [] in (Took None # outs, ys)
      | x # xs' \<Rightarrow> let (outs, ys) = list_run n ops xs' in (Took (Some x) # outs, ys))"

context bounded_fifo
begin

lemma enq_not_full:
  assumes "\<not> full q"
  obtains q' where "enq q x = (True, q')" and "q' = snd (enq q x)"
  using enq_fst [OF assms, of x] by (metis (full_types) eq_fst_iff snd_conv)

lemma not_full_iff: "inv q \<Longrightarrow> \<not> full q \<longleftrightarrow> length (contents q) < cap q"
  using bound full_iff by fastforce

lemma run_refines:
  "inv q \<Longrightarrow>
   (case queue_run enq deq ops q of (outs, q') \<Rightarrow>
      inv q' \<and> cap q' = cap q \<and> list_run (cap q) ops (contents q) = (outs, contents q'))"
proof (induction ops arbitrary: q)
  case Nil
  then show ?case by simp
next
  case (Cons op ops)
  show ?case
  proof (cases op)
    case Deq
    let ?q' = "snd (deq q)"
    from Cons.IH [OF deq_inv [OF Cons.prems]]
    have "case queue_run enq deq ops ?q' of (outs, q'') \<Rightarrow>
      inv q'' \<and> cap q'' = cap q \<and> list_run (cap q) ops (tl (contents q)) = (outs, contents q'')"
      by (simp add: deq_cap deq_contents Cons.prems)
    then show ?thesis
      using deq_fst [of q] peek_contents [OF Cons.prems] Deq
      by (auto split: prod.splits list.splits)
  next
    case (Enq x)
    let ?q' = "snd (enq q x)"
    have IH: "case queue_run enq deq ops ?q' of (outs, q'') \<Rightarrow>
      inv q'' \<and> cap q'' = cap q \<and> list_run (cap q) ops (contents ?q') = (outs, contents q'')"
      using Cons.IH [OF enq_inv [OF Cons.prems]] by (simp add: enq_cap)
    show ?thesis
    proof (cases "full q")
      case True
      then show ?thesis using IH Enq enq_full [OF True, of x] not_full_iff [OF Cons.prems]
        by (auto split: prod.splits)
    next
      case False
      then show ?thesis
        using IH Enq enq_fst [OF False, of x] not_full_iff [OF Cons.prems]
          enq_contents [OF Cons.prems False]
        by (auto split: prod.splits)
    qed
  qed
qed

end

section \<open>The ring buffer implements it\<close>

definition q_len :: "'a CircularQueue \<Rightarrow> nat" where
  "q_len q = (rear q + qsize q - front q) mod qsize q"

definition slot :: "'a CircularQueue \<Rightarrow> nat \<Rightarrow> nat" where
  "slot q k = (front q + k) mod qsize q"

definition queue_list :: "'a CircularQueue \<Rightarrow> 'a list" where
  "queue_list q = map (\<lambda>k. the (data q ! slot q k)) [0..<q_len q]"

definition q_cap :: "'a CircularQueue \<Rightarrow> nat" where
  "q_cap q = qsize q - 1"

definition q_inv :: "'a CircularQueue \<Rightarrow> bool" where
  "q_inv q \<longleftrightarrow> front q < qsize q \<and> rear q < qsize q \<and> length (data q) = qsize q \<and>
     (\<forall>k < q_len q. data q ! slot q k \<noteq> None)"

lemma length_queue_list [simp]: "length (queue_list q) = q_len q"
  by (simp add: queue_list_def)

lemma mod_once: "(m::nat) < 2 * n \<Longrightarrow> m mod n = (if m < n then m else m - n)"
  by (simp add: mod_if)

lemma slot_alt:
  "front q < qsize q \<Longrightarrow> k < qsize q \<Longrightarrow>
   slot q k = (if front q + k < qsize q then front q + k else front q + k - qsize q)"
  unfolding slot_def by (subst mod_once) auto

lemma q_len_alt:
  "front q < qsize q \<Longrightarrow> rear q < qsize q \<Longrightarrow>
   q_len q = (if front q \<le> rear q then rear q - front q else rear q + qsize q - front q)"
  unfolding q_len_def by (subst mod_once) auto

lemma q_inv_index:
  assumes "q_inv q"
  shows "front q < qsize q" "rear q < qsize q" "length (data q) = qsize q"
  using assms by (auto simp: q_inv_def)

lemma q_len_less: "q_inv q \<Longrightarrow> q_len q < qsize q"
  by (auto simp: q_len_def q_inv_def)

lemma slot_less: "q_inv q \<Longrightarrow> slot q k < qsize q"
  by (auto simp: slot_def q_inv_def)

lemma slot_inj:
  "q_inv q \<Longrightarrow> j < qsize q \<Longrightarrow> k < qsize q \<Longrightarrow> slot q j = slot q k \<longleftrightarrow> j = k"
  using q_inv_index [of q] by (auto simp: slot_alt split: if_splits)

lemma slot_q_len: "q_inv q \<Longrightarrow> slot q (q_len q) = rear q"
  using q_inv_index [of q] q_len_less [of q] by (auto simp: slot_alt q_len_alt split: if_splits)

lemma slot_0: "q_inv q \<Longrightarrow> slot q 0 = front q"
  using q_inv_index [of q] by (simp add: slot_def)

lemma slot_Suc: "(slot q k + 1) mod qsize q = slot q (Suc k)"
  by (simp add: slot_def mod_Suc_eq)

lemma q_len_Suc_less: "q_inv q \<Longrightarrow> \<not> is_queue_full q \<Longrightarrow> Suc (q_len q) < qsize q"
  using q_inv_index [of q] q_len_less [of q]
  by (auto simp: is_queue_full_def q_len_alt mod_if split: if_splits)

lemma is_queue_full_iff: "q_inv q \<Longrightarrow> is_queue_full q \<longleftrightarrow> q_len q = q_cap q"
  using q_inv_index [of q]
  by (auto simp: is_queue_full_def q_len_alt q_cap_def mod_if split: if_splits)

lemma is_queue_empty_iff: "q_inv q \<Longrightarrow> is_queue_empty q \<longleftrightarrow> q_len q = 0"
  using q_inv_index [of q] by (auto simp: is_queue_empty_def q_len_alt split: if_splits)

lemma queue_list_Nil_iff: "queue_list q = [] \<longleftrightarrow> q_len q = 0"
  by (simp add: queue_list_def)

lemma nth_queue_list: "k < q_len q \<Longrightarrow> queue_list q ! k = the (data q ! slot q k)"
  by (simp add: queue_list_def)

lemma data_slot: "q_inv q \<Longrightarrow> k < q_len q \<Longrightarrow> data q ! slot q k = Some (queue_list q ! k)"
  by (auto simp: q_inv_def nth_queue_list)

subsection \<open>Enqueue\<close>

lemma enqueue_fields:
  assumes "q_inv q" "\<not> is_queue_full q"
  shows "q_len (snd (enqueue q x)) = Suc (q_len q)"
    and "slot (snd (enqueue q x)) = slot q"
    and "data (snd (enqueue q x)) = (data q)[slot q (q_len q) := Some x]"
  using assms q_inv_index [of q] q_len_Suc_less [of q] slot_q_len [of q]
  by (auto simp: enqueue_def q_len_alt mod_if slot_def fun_eq_iff split: if_splits)

lemma enqueue_q_inv [inv_intro]:
  assumes "q_inv q"
  shows "q_inv (snd (enqueue q x))"
proof (cases "is_queue_full q")
  case True
  then show ?thesis using assms by (simp add: enqueue_def)
next
  case False
  let ?q' = "snd (enqueue q x)"
  note f = enqueue_fields [OF assms False, of x]
  have "data ?q' ! slot ?q' k \<noteq> None" if "k < q_len ?q'" for k
  proof (cases "k = q_len q")
    case True
    then show ?thesis using f slot_less [OF assms] q_inv_index [OF assms] by simp
  next
    case kn: False
    with that f have "k < q_len q" by simp
    moreover have "slot q k \<noteq> slot q (q_len q)"
      using kn that f slot_inj [OF assms] q_len_less [OF assms] by simp
    ultimately show ?thesis using f data_slot [OF assms] by simp
  qed
  moreover have "front ?q' < qsize ?q'" "rear ?q' < qsize ?q'" "length (data ?q') = qsize ?q'"
    using q_inv_index [OF assms] False by (auto simp: enqueue_def)
  ultimately show ?thesis by (simp add: q_inv_def)
qed

lemma enqueue_queue_list:
  assumes "q_inv q" "\<not> is_queue_full q"
  shows "queue_list (snd (enqueue q x)) = queue_list q @ [x]"
proof (rule nth_equalityI)
  note f = enqueue_fields [OF assms, of x]
  show "length (queue_list (snd (enqueue q x))) = length (queue_list q @ [x])"
    using f by simp
  fix k assume "k < length (queue_list (snd (enqueue q x)))"
  then have k: "k < Suc (q_len q)" using f by simp
  show "queue_list (snd (enqueue q x)) ! k = (queue_list q @ [x]) ! k"
  proof (cases "k = q_len q")
    case True
    then show ?thesis
      using f slot_less [OF assms(1)] q_inv_index [OF assms(1)]
      by (simp add: nth_queue_list nth_append)
  next
    case False
    then have "slot q k \<noteq> slot q (q_len q)"
      using k slot_inj [OF assms(1)] q_len_less [OF assms(1)] by simp
    with False k show ?thesis
      using f by (simp add: nth_queue_list nth_append)
  qed
qed

subsection \<open>Dequeue\<close>

lemma dequeue_fields:
  assumes "q_inv q" "\<not> is_queue_empty q"
  shows "q_len (snd (dequeue q)) = q_len q - 1"
    and "slot (snd (dequeue q)) k = slot q (Suc k)"
    and "data (snd (dequeue q)) = data q"
proof -
  have ne: "front q \<noteq> rear q" using assms by (simp add: is_queue_empty_def)
  then show "q_len (snd (dequeue q)) = q_len q - 1"
    using q_inv_index [OF assms(1)]
    by (auto simp: dequeue_def is_queue_empty_def q_len_alt mod_once [of "Suc (front q)"])
  show "slot (snd (dequeue q)) k = slot q (Suc k)"
    using assms(2) by (simp add: dequeue_def slot_def mod_add_left_eq)
  show "data (snd (dequeue q)) = data q"
    using assms(2) by (simp add: dequeue_def)
qed

lemma dequeue_q_inv [inv_intro]:
  assumes "q_inv q"
  shows "q_inv (snd (dequeue q))"
proof (cases "is_queue_empty q")
  case True
  then show ?thesis using assms by (simp add: dequeue_def)
next
  case False
  note f = dequeue_fields [OF assms False]
  have "front (snd (dequeue q)) < qsize (snd (dequeue q))" "rear (snd (dequeue q)) < qsize (snd (dequeue q))"
    "length (data (snd (dequeue q))) = qsize (snd (dequeue q))"
    using q_inv_index [OF assms] False by (auto simp: dequeue_def)
  then show ?thesis using f data_slot [OF assms] by (simp add: q_inv_def)
qed

lemma dequeue_queue_list:
  assumes "q_inv q"
  shows "queue_list (snd (dequeue q)) = tl (queue_list q)"
proof (cases "is_queue_empty q")
  case True
  then have "queue_list q = []" using is_queue_empty_iff [OF assms] queue_list_Nil_iff by blast
  then show ?thesis using True by (simp add: dequeue_def)
next
  case False
  note f = dequeue_fields [OF assms False]
  show ?thesis by (rule nth_equalityI) (use f in \<open>auto simp: nth_queue_list nth_tl\<close>)
qed

lemma getfront_queue_list:
  assumes "q_inv q"
  shows "getfront q = (case queue_list q of [] \<Rightarrow> None | x # _ \<Rightarrow> Some x)"
proof (cases "is_queue_empty q")
  case True
  then have "queue_list q = []" using is_queue_empty_iff [OF assms] queue_list_Nil_iff by blast
  then show ?thesis using True by (simp add: getfront_def)
next
  case False
  then have "0 < q_len q" using is_queue_empty_iff [OF assms] by blast
  then show ?thesis
    using data_slot [OF assms, of 0] False slot_0 [OF assms]
    by (auto simp: getfront_def split: list.splits simp flip: length_queue_list)
qed

interpretation cq: bounded_fifo enqueue dequeue getfront is_queue_empty is_queue_full queue_list q_cap q_inv
proof unfold_locales
  fix q :: "'a CircularQueue" and x :: 'a
  show "q_inv q \<Longrightarrow> length (queue_list q) \<le> q_cap q"
    using q_len_less [of q] by (auto simp: q_cap_def)
  show "q_inv q \<Longrightarrow> is_queue_empty q \<longleftrightarrow> queue_list q = []"
    by (simp add: is_queue_empty_iff queue_list_Nil_iff)
  show "q_inv q \<Longrightarrow> is_queue_full q \<longleftrightarrow> length (queue_list q) = q_cap q"
    by (simp add: is_queue_full_iff)
  show "is_queue_full q \<Longrightarrow> enqueue q x = (False, q)" by (simp add: enqueue_def)
  show "\<not> is_queue_full q \<Longrightarrow> fst (enqueue q x)" by (simp add: enqueue_def)
  show "q_cap (snd (enqueue q x)) = q_cap q" by (simp add: enqueue_def q_cap_def)
  show "fst (dequeue q) = getfront q" by (simp add: dequeue_def getfront_def)
  show "q_cap (snd (dequeue q)) = q_cap q" by (simp add: dequeue_def q_cap_def)
qed (simp_all add: enqueue_queue_list enqueue_q_inv getfront_queue_list dequeue_queue_list
    dequeue_q_inv)

lemma create_queue_inv [inv_intro]: "0 < n \<Longrightarrow> q_inv (create_queue n)"
  by (simp add: q_inv_def create_queue_def init_queue_def q_len_def)

lemma create_queue_len [simp]: "q_len (create_queue n) = 0"
  by (simp add: create_queue_def init_queue_def q_len_def)

lemma create_queue_list [simp]: "queue_list (create_queue n) = []"
  by (simp add: queue_list_def create_queue_def init_queue_def q_len_def)

lemma create_queue_cap [simp]: "q_cap (create_queue n) = n - 1"
  by (simp add: q_cap_def create_queue_def init_queue_def)

section \<open>Walking over the ring\<close>

definition live_slots :: "'a CircularQueue \<Rightarrow> nat list" where
  "live_slots q = map (slot q) [0..<q_len q]"

lemma queue_for_live:
  assumes "q_inv q" "k \<le> q_len q" "q_len q - k < fuel"
  shows "queue_for fuel (qsize q) (slot q k) (rear q) body s =
         fold_run body (map (slot q) [k..<q_len q]) s"
  using assms(2,3)
proof (induction fuel arbitrary: k s)
  case 0
  then show ?case by simp
next
  case (Suc fuel)
  show ?case
  proof (cases "k = q_len q")
    case True
    then show ?thesis using slot_q_len [OF assms(1)] by simp
  next
    case False
    with Suc.prems have k: "k < q_len q" by simp
    then have "slot q k \<noteq> rear q"
      using slot_inj [OF assms(1), of k "q_len q"] q_len_less [OF assms(1)]
        slot_q_len [OF assms(1)] by auto
    moreover have "queue_for fuel (qsize q) (slot q (Suc k)) (rear q) body =
        fold_run body (map (slot q) [Suc k..<q_len q])"
      using Suc.IH [of "Suc k"] Suc.prems k by (auto simp: fun_eq_iff)
    ultimately show ?thesis using k slot_Suc [of q k] by (simp add: upt_conv_Cons)
  qed
qed

lemma queue_loop_live:
  assumes "q_inv q"
  shows "queue_loop q body s = fold_run body (live_slots q) s"
  using queue_for_live [OF assms, of 0 "qsize q + 1" body s] q_len_less [OF assms] slot_0 [OF assms]
  by (simp add: queue_loop_def live_slots_def)

lemma map_data_live_slots:
  "q_inv q \<Longrightarrow> map (\<lambda>i. data q ! i) (live_slots q) = map Some (queue_list q)"
  by (rule nth_equalityI) (simp_all add: live_slots_def data_slot)

lemma fold_run_collect:
  "fold_run (\<lambda>i out. Inr (out @ [f i])) is out = Inr (out @ map f is)"
  by (induction "is" arbitrary: out) simp_all

lemma fold_run_collect_opt:
  "(\<forall>i \<in> set is. f i \<noteq> None) \<Longrightarrow>
   fold_run (\<lambda>i out. case f i of None \<Rightarrow> Inr out | Some e \<Rightarrow> Inr (out @ [e])) is out =
   Inr (out @ map (\<lambda>i. the (f i)) is)"
  by (induction "is" arbitrary: out) auto

lemma delete_queue_frees:
  assumes "q_inv q"
  shows "delete_queue (Some q) = Inr (queue_list q)"
proof -
  have "\<forall>i \<in> set (live_slots q). data q ! i \<noteq> None"
    using assms by (auto simp: live_slots_def data_slot)
  then have "delete_queue (Some q) = Inr (map (\<lambda>i. the (data q ! i)) (live_slots q))"
    by (simp add: delete_queue_def queue_loop_live [OF assms] fold_run_collect_opt)
  then show ?thesis by (simp add: queue_list_def live_slots_def)
qed

lemma printqueue_prints:
  "q_inv q \<Longrightarrow> printqueue q = Inr (front q, rear q, map Some (queue_list q))"
  by (simp add: printqueue_def queue_loop_live fold_run_collect map_data_live_slots)

section \<open>Properties\<close>

text \<open>
  C24: a queue made by \<open>create_queue\<close> behaves, under every sequence of \<open>enqueue\<close> and \<open>dequeue\<close> calls,
  exactly like a list of at most \<open>n - 1\<close> elements: every call returns what it returns on the list, in
  first-in first-out order, and the invariant of the ring buffer holds at the end.
\<close>

theorem create_queue_refines_list:
  assumes "0 < n"
  shows "case queue_run enqueue dequeue ops (create_queue n) of
    (outs, q) \<Rightarrow> q_inv q \<and> list_run (n - 1) ops [] = (outs, queue_list q)"
  using cq.run_refines [OF create_queue_inv [OF assms], of ops] by (auto split: prod.splits)

theorem create_queue_refines_list_witness:
  "case queue_run enqueue dequeue [Enq (7::nat), Enq 8, Enq 9, Deq, Enq 10, Deq, Deq] (create_queue 3) of
    (outs, q) \<Rightarrow> q_inv q \<and>
      list_run 2 [Enq (7::nat), Enq 8, Enq 9, Deq, Enq 10, Deq, Deq] [] = (outs, queue_list q)"
  using create_queue_refines_list [of 3 "[Enq (7::nat), Enq 8, Enq 9, Deq, Enq 10, Deq, Deq]"] by simp

text \<open>
  On a well-formed queue \<open>delete_queue\<close> ends and frees every queued element exactly once, in
  order; \<open>printqueue\<close> ends and shows exactly the queued elements.
\<close>

theorem queue_walks_every_element:
  assumes "q_inv q"
  shows "delete_queue (Some q) = Inr (queue_list q) \<and>
    printqueue q = Inr (front q, rear q, map Some (queue_list q))"
  using delete_queue_frees [OF assms] printqueue_prints [OF assms] by blast

theorem queue_walks_every_element_witness:
  "delete_queue (Some \<lparr>front = 2, rear = 1, qsize = 3, data = [Some (5::nat), None, Some 4]\<rparr>) = Inr [4, 5] \<and>
   printqueue \<lparr>front = 2, rear = 1, qsize = 3, data = [Some (5::nat), None, Some 4]\<rparr> =
     Inr (2, 1, [Some 4, Some 5])"
proof -
  let ?q = "\<lparr>front = 2, rear = 1, qsize = 3, data = [Some (5::nat), None, Some 4]\<rparr>"
  have k: "k < 2 \<Longrightarrow> k = 0 \<or> k = 1" for k :: nat by auto
  have "q_inv ?q" by (auto simp: q_inv_def q_len_def slot_def dest: k)
  moreover have "queue_list ?q = [4, 5]" by (simp add: queue_list_def q_len_def slot_def upt_conv_Cons)
  ultimately show ?thesis using queue_walks_every_element [of ?q] by simp
qed

end
