(* ===== verification/Tilelink_Msg.thy ===== *)
theory Tilelink_Msg
  imports Prelude
begin

text \<open>
  TileLink messages (\<^verbatim>\<open>tilelink_msg.h\<close>, \<^verbatim>\<open>tilelink_msg.c\<close>): the channel and opcode numbers, the
  64-bit header, a message as the heap object the program allocates for it, and the size functions.
\<close>

section \<open>Channels and opcodes\<close>

abbreviation (input) CHANNEL_NUM :: nat where "CHANNEL_NUM \<equiv> 6"
abbreviation (input) CHANNEL_0 :: int where "CHANNEL_0 \<equiv> 0"
abbreviation (input) CHANNEL_A :: int where "CHANNEL_A \<equiv> 1"
abbreviation (input) CHANNEL_B :: int where "CHANNEL_B \<equiv> 2"
abbreviation (input) CHANNEL_C :: int where "CHANNEL_C \<equiv> 3"
abbreviation (input) CHANNEL_D :: int where "CHANNEL_D \<equiv> 4"
abbreviation (input) CHANNEL_E :: int where "CHANNEL_E \<equiv> 5"

abbreviation (input) A_PUTFULLDATA_OPCODE :: int where "A_PUTFULLDATA_OPCODE \<equiv> 0"
abbreviation (input) A_PUTPARTIALDATA_OPCODE :: int where "A_PUTPARTIALDATA_OPCODE \<equiv> 1"
abbreviation (input) A_ARITHMETICDATA_OPCODE :: int where "A_ARITHMETICDATA_OPCODE \<equiv> 2"
abbreviation (input) A_LOGICALDATA_OPCODE :: int where "A_LOGICALDATA_OPCODE \<equiv> 3"
abbreviation (input) A_GET_OPCODE :: int where "A_GET_OPCODE \<equiv> 4"
abbreviation (input) B_PUTFULLDATA_OPCODE :: int where "B_PUTFULLDATA_OPCODE \<equiv> 0"
abbreviation (input) B_PUTPARTIALDATA_OPCODE :: int where "B_PUTPARTIALDATA_OPCODE \<equiv> 1"
abbreviation (input) B_ARITHMETICDATA_OPCODE :: int where "B_ARITHMETICDATA_OPCODE \<equiv> 2"
abbreviation (input) B_LOGICALDATA_OPCODE :: int where "B_LOGICALDATA_OPCODE \<equiv> 3"
abbreviation (input) C_ACCESSACK_OPCODE :: int where "C_ACCESSACK_OPCODE \<equiv> 0"
abbreviation (input) C_ACCESSACKDATA_OPCODE :: int where "C_ACCESSACKDATA_OPCODE \<equiv> 1"
abbreviation (input) C_PROBEACKDATA_OPCODE :: int where "C_PROBEACKDATA_OPCODE \<equiv> 5"
abbreviation (input) C_RELEASEDATA_OPCODE :: int where "C_RELEASEDATA_OPCODE \<equiv> 7"
abbreviation (input) D_ACCESSACK_OPCODE :: int where "D_ACCESSACK_OPCODE \<equiv> 0"
abbreviation (input) D_ACCESSACKDATA_OPCODE :: int where "D_ACCESSACKDATA_OPCODE \<equiv> 1"
abbreviation (input) D_HINTACK_OPCODE :: int where "D_HINTACK_OPCODE \<equiv> 2"
abbreviation (input) D_GRANT_OPCODE :: int where "D_GRANT_OPCODE \<equiv> 4"
abbreviation (input) D_GRANTDATA_OPCODE :: int where "D_GRANTDATA_OPCODE \<equiv> 5"
abbreviation (input) D_RELEASEACK_OPCODE :: int where "D_RELEASEACK_OPCODE \<equiv> 6"

section \<open>The header\<close>

text \<open>The bit-fields of \<^verbatim>\<open>tl_header_t\<close>, the first one in the least significant bits.\<close>

record tl_header_t =
  tl_source :: "26 word"
  tl_reserved :: "12 word"
  tl_err :: "2 word"
  tl_domain :: "8 word"
  tl_size :: "4 word"
  tl_param :: "4 word"
  tl_reserved2 :: "1 word"
  tl_opcode :: "3 word"
  tl_chan :: "3 word"
  tl_reserved1 :: "1 word"

definition zero_tl_header :: tl_header_t where
  "zero_tl_header = \<lparr>tl_source = 0, tl_reserved = 0, tl_err = 0, tl_domain = 0, tl_size = 0,
     tl_param = 0, tl_reserved2 = 0, tl_opcode = 0, tl_chan = 0, tl_reserved1 = 0\<rparr>"

definition tl_header_to_u64 :: "tl_header_t \<Rightarrow> u64" where
  "tl_header_to_u64 h =
     or (ucast (tl_source h)) (or (push_bit 26 (ucast (tl_reserved h)))
    (or (push_bit 38 (ucast (tl_err h))) (or (push_bit 40 (ucast (tl_domain h)))
    (or (push_bit 48 (ucast (tl_size h))) (or (push_bit 52 (ucast (tl_param h)))
    (or (push_bit 56 (ucast (tl_reserved2 h))) (or (push_bit 57 (ucast (tl_opcode h)))
    (or (push_bit 60 (ucast (tl_chan h))) (push_bit 63 (ucast (tl_reserved1 h)))))))))))"

definition u64_to_tl_header :: "u64 \<Rightarrow> tl_header_t" where
  "u64_to_tl_header w = \<lparr>tl_source = ucast w, tl_reserved = ucast (drop_bit 26 w),
     tl_err = ucast (drop_bit 38 w), tl_domain = ucast (drop_bit 40 w),
     tl_size = ucast (drop_bit 48 w), tl_param = ucast (drop_bit 52 w),
     tl_reserved2 = ucast (drop_bit 56 w), tl_opcode = ucast (drop_bit 57 w),
     tl_chan = ucast (drop_bit 60 w), tl_reserved1 = ucast (drop_bit 63 w)\<rparr>"

lemma u64_to_tl_header_inverse [simp]: "u64_to_tl_header (tl_header_to_u64 h) = h"
  by (rule tl_header_t.equality; (rule bit_eqI)?)
     (auto simp: u64_to_tl_header_def tl_header_to_u64_def bit_simps dest: bit_imp_le_length)

section \<open>Messages\<close>

text \<open>
  A \<^verbatim>\<open>tl_msg_t *\<close> points to a heap object: eight header bytes and the flexible array \<^verbatim>\<open>data\<close>. The
  model keeps the object's bytes, so its length is the allocated size and every read can be checked
  against it.
\<close>

type_synonym tl_msg_t = "byte list"

definition tl_header :: "tl_msg_t \<Rightarrow> tl_header_t" where
  "tl_header m = u64_to_tl_header (le_u64 (take 8 m))"

definition mk_msg :: "tl_header_t \<Rightarrow> byte list \<Rightarrow> tl_msg_t" where
  "mk_msg h body = le_bytes (tl_header_to_u64 h) @ body"

lemma tl_header_mk_msg [simp]: "tl_header (mk_msg h body) = h"
  by (simp add: tl_header_def mk_msg_def)

lemma length_mk_msg [simp]: "length (mk_msg h body) = 8 + length body"
  by (simp add: mk_msg_def)

lemma tl_header_take: "8 \<le> n \<Longrightarrow> tl_header (take n m) = tl_header m"
  by (simp add: tl_header_def min_absorb1)

definition tlmsg_get_chan :: "tl_msg_t \<Rightarrow> int" where
  "tlmsg_get_chan m = uint (tl_chan (tl_header m))"

definition tlmsg_get_opcode :: "tl_msg_t \<Rightarrow> int" where
  "tlmsg_get_opcode m = uint (tl_opcode (tl_header m))"

definition tlmsg_get_size :: "tl_msg_t \<Rightarrow> int" where
  "tlmsg_get_size m = uint (tl_size (tl_header m))"

definition convert_size_to_flits :: "int \<Rightarrow> int" where
  "convert_size_to_flits n = (n + 7) div 8"

text \<open>
  \<open>header_log\<close> and \<open>data_log\<close> are the variables \<^verbatim>\<open>header_size\<close> and \<^verbatim>\<open>data_size\<close> before the final shift:
  base-two logarithms, \<open>-1\<close> where the switch assigns nothing.
\<close>

definition header_log :: "int \<Rightarrow> int \<Rightarrow> int" where
  "header_log chan opcode =
     (if chan = CHANNEL_A \<or> chan = CHANNEL_B \<or> chan = CHANNEL_C then 4
      else if chan = CHANNEL_D then
        (if opcode = D_ACCESSACK_OPCODE \<or> opcode = D_HINTACK_OPCODE \<or>
            opcode = D_RELEASEACK_OPCODE \<or> opcode = D_ACCESSACKDATA_OPCODE then 3
         else if opcode = D_GRANT_OPCODE \<or> opcode = D_GRANTDATA_OPCODE then 4
         else -1)
      else if chan = CHANNEL_E then 3
      else -1)"

definition tlmsg_get_header_size :: "tl_msg_t \<Rightarrow> int" where
  "tlmsg_get_header_size m =
     int_of_u64 (shl_1ULL (header_log (tlmsg_get_chan m) (tlmsg_get_opcode m)))"

definition data_log :: "int \<Rightarrow> int \<Rightarrow> int \<Rightarrow> int" where
  "data_log chan opcode sz =
     (if chan = CHANNEL_A \<or> chan = CHANNEL_B \<or> chan = CHANNEL_C then
        (if opcode = A_PUTFULLDATA_OPCODE \<or> opcode = B_PUTFULLDATA_OPCODE \<or>
            opcode = A_ARITHMETICDATA_OPCODE \<or> opcode = B_ARITHMETICDATA_OPCODE \<or>
            opcode = A_LOGICALDATA_OPCODE \<or> opcode = B_LOGICALDATA_OPCODE \<or>
            opcode = C_ACCESSACKDATA_OPCODE \<or> opcode = C_PROBEACKDATA_OPCODE \<or>
            opcode = C_RELEASEDATA_OPCODE \<or> opcode = A_PUTPARTIALDATA_OPCODE \<or>
            opcode = B_PUTPARTIALDATA_OPCODE then sz else -1)
      else if chan = CHANNEL_D then
        (if opcode = D_ACCESSACKDATA_OPCODE \<or> opcode = D_GRANTDATA_OPCODE then sz else -1)
      else -1)"

definition tlmsg_get_data_size :: "tl_msg_t \<Rightarrow> int" where
  "tlmsg_get_data_size m =
     int_of_u64 (shl_1ULL (data_log (tlmsg_get_chan m) (tlmsg_get_opcode m) (tlmsg_get_size m)))"

definition tlmsg_get_flits_cnt :: "tl_msg_t \<Rightarrow> int" where
  "tlmsg_get_flits_cnt m =
     (let header_size = tlmsg_get_header_size m;
          data_size = tlmsg_get_data_size m;
          total_flits = (if header_size \<ge> 0 then convert_size_to_flits header_size else 0)
      in total_flits + (if data_size \<ge> 0 then convert_size_to_flits data_size else 0))"

definition tlmsg_get_total_size :: "tl_msg_t \<Rightarrow> int" where
  "tlmsg_get_total_size m = tlmsg_get_header_size m + tlmsg_get_data_size m"

section \<open>What the size functions compute\<close>

lemma tlmsg_get_size_bounds: "0 \<le> tlmsg_get_size m" "tlmsg_get_size m < 16"
  using uint_lt2p [of "tl_size (tl_header m)"] by (simp_all add: tlmsg_get_size_def)

lemma int_of_shl_log:
  "0 \<le> k \<Longrightarrow> k < 31 \<Longrightarrow> int_of_u64 (shl_1ULL k) = 2 ^ nat k"
  using int_shl_1ULL_small [of "nat k"] by simp

lemma tlmsg_get_header_size_cases: "tlmsg_get_header_size m \<in> {0, 8, 16}"
proof -
  have "header_log c p \<in> {-1, 3, 4}" for c p by (simp add: header_log_def)
  then have "header_log (tlmsg_get_chan m) (tlmsg_get_opcode m) \<in> {-1, 3, 4}" .
  then show ?thesis
    by (auto simp: tlmsg_get_header_size_def int_of_shl_log)
qed

lemma tlmsg_get_data_size_cases:
  "tlmsg_get_data_size m = 0 \<or> tlmsg_get_data_size m = 2 ^ nat (tlmsg_get_size m)"
proof -
  have "data_log c p s \<in> {-1, s}" for c p s by (simp add: data_log_def)
  then have "data_log (tlmsg_get_chan m) (tlmsg_get_opcode m) (tlmsg_get_size m)
    \<in> {-1, tlmsg_get_size m}" .
  then show ?thesis
    using tlmsg_get_size_bounds [of m] by (auto simp: tlmsg_get_data_size_def int_of_shl_log)
qed

lemma tlmsg_get_data_size_bounds: "0 \<le> tlmsg_get_data_size m" "tlmsg_get_data_size m \<le> 32768"
proof -
  have "(2::int) ^ nat (tlmsg_get_size m) \<le> 2 ^ 15"
    by (rule power_increasing) (use tlmsg_get_size_bounds [of m] in auto)
  then show "0 \<le> tlmsg_get_data_size m" "tlmsg_get_data_size m \<le> 32768"
    using tlmsg_get_data_size_cases [of m] by auto
qed

lemma tlmsg_get_total_size_bounds: "0 \<le> tlmsg_get_total_size m" "tlmsg_get_total_size m \<le> 32784"
  using tlmsg_get_header_size_cases [of m] tlmsg_get_data_size_bounds [of m]
  by (auto simp: tlmsg_get_total_size_def)

lemma tlmsg_get_flits_cnt_alt:
  "tlmsg_get_flits_cnt m = (tlmsg_get_total_size m + 7) div 8"
  using tlmsg_get_header_size_cases [of m] tlmsg_get_data_size_bounds [of m]
  by (auto simp: tlmsg_get_flits_cnt_def Let_def convert_size_to_flits_def
      tlmsg_get_total_size_def)

lemma tlmsg_sizes_header:
  assumes "tl_chan (tl_header m) = tl_chan (tl_header m')"
    and "tl_opcode (tl_header m) = tl_opcode (tl_header m')"
    and "tl_size (tl_header m) = tl_size (tl_header m')"
  shows "tlmsg_get_total_size m = tlmsg_get_total_size m'"
  using assms
  by (simp add: tlmsg_get_total_size_def tlmsg_get_header_size_def tlmsg_get_data_size_def
      tlmsg_get_chan_def tlmsg_get_opcode_def tlmsg_get_size_def)

section \<open>Properties\<close>

text \<open>
  For every message the header size is 0, 8 or 16 bytes, the data size is 0 or \<open>2 ^ size\<close>, the total
  is at most 32784 bytes and never negative, and the flit count is the total size in 8-byte flits,
  rounded up.
\<close>

theorem tlmsg_sizes:
  "tlmsg_get_header_size m \<in> {0, 8, 16} \<and>
   tlmsg_get_data_size m \<in> {0, 2 ^ nat (tlmsg_get_size m)} \<and>
   tlmsg_get_total_size m \<in> {0..32784} \<and>
   tlmsg_get_flits_cnt m = (tlmsg_get_total_size m + 7) div 8"
  using tlmsg_get_header_size_cases [of m] tlmsg_get_data_size_cases [of m]
    tlmsg_get_total_size_bounds [of m] tlmsg_get_flits_cnt_alt [of m] by auto

end
