(* ===== verification/Tloe_Frame.thy ===== *)
theory Tloe_Frame
  imports Tilelink_Msg
begin

text \<open>
  TLoE frames (\<^verbatim>\<open>tloe_frame.h\<close>, \<^verbatim>\<open>tloe_frame.c\<close>): the 64-bit frame header, the flit array, the mask
  word that says where TileLink messages start, and the conversion to and from network packets.
\<close>

section \<open>Constants and data\<close>

abbreviation (input) TLOE_NAK :: int where "TLOE_NAK \<equiv> 0"
abbreviation (input) TLOE_ACK :: int where "TLOE_ACK \<equiv> 1"
abbreviation (input) TYPE_NORMAL :: int where "TYPE_NORMAL \<equiv> 0"
abbreviation (input) TYPE_ACKONLY :: int where "TYPE_ACKONLY \<equiv> 1"
abbreviation (input) TYPE_OPEN_CONNECTION :: int where "TYPE_OPEN_CONNECTION \<equiv> 2"
abbreviation (input) TYPE_CLOSE_CONNECTION :: int where "TYPE_CLOSE_CONNECTION \<equiv> 3"
abbreviation (input) MAX_SIZE_FLIT :: nat where "MAX_SIZE_FLIT \<equiv> 65"
abbreviation (input) DEFAULT_FRAME_SIZE :: int where "DEFAULT_FRAME_SIZE \<equiv> 56"
abbreviation (input) MAX_BUFFER_SIZE :: nat where "MAX_BUFFER_SIZE \<equiv> 1500"

record tloe_header_t =
  h_credit :: "5 word"
  h_chan :: "3 word"
  h_reserve3 :: "1 word"
  h_ack :: "1 word"
  h_seq_num_ack :: "22 word"
  h_seq_num :: "22 word"
  h_reserve2 :: "2 word"
  h_reserve1 :: "1 word"
  h_type :: "4 word"
  h_vc :: "3 word"

record tloe_frame_t =
  f_header :: tloe_header_t
  flits :: "u64 list"

definition zero_header :: tloe_header_t where
  "zero_header = \<lparr>h_credit = 0, h_chan = 0, h_reserve3 = 0, h_ack = 0, h_seq_num_ack = 0,
     h_seq_num = 0, h_reserve2 = 0, h_reserve1 = 0, h_type = 0, h_vc = 0\<rparr>"

text \<open>A zeroed frame object with room for \<open>n\<close> flits.\<close>

definition zero_frame :: "nat \<Rightarrow> tloe_frame_t" where
  "zero_frame n = \<lparr>f_header = zero_header, flits = replicate n 0\<rparr>"

definition tloe_header_to_u64 :: "tloe_header_t \<Rightarrow> u64" where
  "tloe_header_to_u64 h =
     or (ucast (h_credit h)) (or (push_bit 5 (ucast (h_chan h)))
    (or (push_bit 8 (ucast (h_reserve3 h))) (or (push_bit 9 (ucast (h_ack h)))
    (or (push_bit 10 (ucast (h_seq_num_ack h))) (or (push_bit 32 (ucast (h_seq_num h)))
    (or (push_bit 54 (ucast (h_reserve2 h))) (or (push_bit 56 (ucast (h_reserve1 h)))
    (or (push_bit 57 (ucast (h_type h))) (push_bit 61 (ucast (h_vc h)))))))))))"

definition u64_to_tloe_header :: "u64 \<Rightarrow> tloe_header_t" where
  "u64_to_tloe_header w = \<lparr>h_credit = ucast w, h_chan = ucast (drop_bit 5 w),
     h_reserve3 = ucast (drop_bit 8 w), h_ack = ucast (drop_bit 9 w),
     h_seq_num_ack = ucast (drop_bit 10 w), h_seq_num = ucast (drop_bit 32 w),
     h_reserve2 = ucast (drop_bit 54 w), h_reserve1 = ucast (drop_bit 56 w),
     h_type = ucast (drop_bit 57 w), h_vc = ucast (drop_bit 61 w)\<rparr>"

section \<open>Operations\<close>

definition tloe_set_ack :: "tloe_frame_t \<Rightarrow> int \<Rightarrow> int \<times> tloe_frame_t" where
  "tloe_set_ack frame ack = (ack, frame\<lparr>f_header := (f_header frame)\<lparr>h_ack := word_of_int ack\<rparr>\<rparr>)"

definition tloe_get_ack :: "tloe_frame_t \<Rightarrow> int" where
  "tloe_get_ack frame = uint (h_ack (f_header frame))"

text \<open>
  The index \<^verbatim>\<open>((packet_size >> 3) - 1) - (sizeof(uint64_t) / 8)\<close>: the left operand is an \<^verbatim>\<open>int\<close>, the
  right one a \<^verbatim>\<open>size_t\<close>, so the difference wraps modulo \<open>2 ^ 64\<close>.
\<close>

definition mask_index :: "int \<Rightarrow> nat" where
  "mask_index packet_size = nat (((packet_size div 8 - 1) - 1) mod 2 ^ 64)"

definition tloe_set_mask :: "tloe_frame_t \<Rightarrow> int \<Rightarrow> int \<Rightarrow> (u64 \<times> tloe_frame_t) run" where
  "tloe_set_mask frame msk packet_size =
     (let k = mask_index packet_size in
      if k < length (flits frame)
      then Inr (word_of_int msk, frame\<lparr>flits := (flits frame)[k := word_of_int msk]\<rparr>)
      else Inl Undefined)"

definition tloe_get_mask :: "tloe_frame_t \<Rightarrow> int \<Rightarrow> u64 run" where
  "tloe_get_mask frame packet_size =
     (let k = mask_index packet_size in
      if k < length (flits frame) then Inr (flits frame ! k) else Inl Undefined)"

definition tloe_get_fsize :: "tl_msg_t option \<Rightarrow> int" where
  "tloe_get_fsize mo =
     (case mo of None \<Rightarrow> DEFAULT_FRAME_SIZE
      | Some tlmsg \<Rightarrow>
          let fsize = 8 + tlmsg_get_total_size tlmsg in
          if fsize < DEFAULT_FRAME_SIZE then DEFAULT_FRAME_SIZE else fsize)"

text \<open>
  \<open>tloe_get_tlmsg\<close> copies channel, opcode and size of the header found at \<open>tl_loc\<close> into a local
  header, computes the message size from it and copies that many bytes into a new heap object.
\<close>

definition tloe_get_tlmsg :: "tloe_frame_t \<Rightarrow> nat \<Rightarrow> tl_msg_t run" where
  "tloe_get_tlmsg frame tl_loc =
     (if tl_loc < length (flits frame) then
        let tlheader = u64_to_tl_header (flits frame ! tl_loc);
            tl_msg_header = mk_msg (zero_tl_header\<lparr>tl_chan := tl_chan tlheader,
              tl_opcode := tl_opcode tlheader, tl_size := tl_size tlheader\<rparr>) [];
            total_size = nat (tlmsg_get_total_size tl_msg_header)
        in if 8 * tl_loc + total_size \<le> 8 * length (flits frame)
           then Inr (take total_size (drop (8 * tl_loc) (flits_bytes (flits frame))))
           else Inl Undefined
      else Inl Undefined)"

definition tloe_set_tlmsg :: "tloe_frame_t \<Rightarrow> tl_msg_t \<Rightarrow> tloe_frame_t run" where
  "tloe_set_tlmsg frame tlmsg =
     (let tl_size = nat (tlmsg_get_total_size tlmsg) in
      if tl_size \<le> length tlmsg \<and> tl_size \<le> 8 * length (flits frame)
      then Inr (frame\<lparr>flits :=
             bytes_flits (take tl_size tlmsg @ drop tl_size (flits_bytes (flits frame)))\<rparr>)
      else Inl Undefined)"

definition is_zero_tl_frame :: "tloe_frame_t \<Rightarrow> int \<Rightarrow> bool run" where
  "is_zero_tl_frame frame sz =
     bind_run (tloe_get_mask frame sz) (\<lambda>frame_mask. Inr (frame_mask = 0))"

definition is_ackonly_frame :: "tloe_frame_t \<Rightarrow> bool" where
  "is_ackonly_frame frame \<longleftrightarrow> uint (h_type (f_header frame)) = TYPE_ACKONLY"

definition is_conn_msg :: "tloe_frame_t \<Rightarrow> int" where
  "is_conn_msg frame =
     (let t = uint (h_type (f_header frame)) in if t = 2 \<or> t = 3 then t else -1)"

text \<open>
  \<open>tloe_frame_to_packet\<close> fills a buffer of \<^verbatim>\<open>MAX_BUFFER_SIZE\<close> bytes of which the callers send the
  first \<open>send_buffer_size\<close>: those bytes are the result. \<open>packet_to_tloe_frame\<close> reads a buffer of that size.
\<close>

definition be_bytes :: "u64 \<Rightarrow> byte list" where
  "be_bytes w = rev (le_bytes w)"

definition be_u64 :: "byte list \<Rightarrow> u64" where
  "be_u64 bs = le_u64 (rev bs)"

definition tloe_frame_to_packet :: "tloe_frame_t \<Rightarrow> int \<Rightarrow> byte list run" where
  "tloe_frame_to_packet frame send_buffer_size =
     (let flit_cnt = nat ((send_buffer_size - 8) div 8) in
      if 0 \<le> send_buffer_size \<and> send_buffer_size \<le> int MAX_BUFFER_SIZE \<and>
         flit_cnt \<le> length (flits frame)
      then Inr (take (nat send_buffer_size)
             (be_bytes (tloe_header_to_u64 (f_header frame)) @
              concat (map be_bytes (take flit_cnt (flits frame))) @
              replicate (nat send_buffer_size) 0))
      else Inl Undefined)"

definition packet_to_tloe_frame :: "byte list \<Rightarrow> int \<Rightarrow> tloe_frame_t \<Rightarrow> tloe_frame_t run" where
  "packet_to_tloe_frame recv_buffer recv_buffer_size frame =
     (let num_flits = nat (recv_buffer_size div 8 - 1) in
      if 8 + 8 * num_flits \<le> length recv_buffer \<and> num_flits \<le> length (flits frame)
      then Inr \<lparr>f_header = u64_to_tloe_header (be_u64 (take 8 recv_buffer)),
                flits = map (\<lambda>i. be_u64 (take 8 (drop (8 + 8 * i) recv_buffer))) [0..<num_flits]
                        @ drop num_flits (flits frame)\<rparr>
      else Inl Undefined)"

section \<open>The header encoding\<close>

lemma u64_to_tloe_header_inverse [simp]: "u64_to_tloe_header (tloe_header_to_u64 h) = h"
  by (rule tloe_header_t.equality; (rule bit_eqI)?)
     (auto simp: u64_to_tloe_header_def tloe_header_to_u64_def bit_simps dest: bit_imp_le_length)

lemma length_be_bytes [simp]: "length (be_bytes w) = 8"
  by (simp add: be_bytes_def)

lemma be_u64_be_bytes [simp]: "be_u64 (be_bytes w) = w"
  by (simp add: be_u64_def be_bytes_def)

lemma length_concat_be_bytes [simp]: "length (concat (map be_bytes ws)) = 8 * length ws"
  by (induction ws) simp_all

lemma chunk_concat_be_bytes:
  "i < length ws \<Longrightarrow> take 8 (drop (8 * i) (concat (map be_bytes ws) @ rest)) = be_bytes (ws ! i)"
proof (induction ws arbitrary: i)
  case Nil
  then show ?case by simp
next
  case (Cons w ws)
  then show ?case by (cases i) auto
qed

section \<open>Packets\<close>

text \<open>The packet a frame becomes when the size is a positive number of flits that the frame holds.\<close>

lemma tloe_frame_to_packet_eq:
  assumes "n \<le> length (flits frame)" "8 + 8 * n \<le> MAX_BUFFER_SIZE"
  shows "tloe_frame_to_packet frame (8 + 8 * int n) =
    Inr (be_bytes (tloe_header_to_u64 (f_header frame)) @ concat (map be_bytes (take n (flits frame))))"
  using assms by (simp add: tloe_frame_to_packet_def Let_def nat_add_distrib nat_mult_distrib min_absorb2)

lemma packet_chunk:
  "i < length ws \<Longrightarrow>
   be_u64 (take 8 (drop (8 + 8 * i) (be_bytes w @ concat (map be_bytes ws) @ rest))) = ws ! i"
  using chunk_concat_be_bytes [of i ws rest] by (simp del: take_append drop_append)
     (simp add: drop_append del: take_append)

lemma packet_to_tloe_frame_eq:
  assumes "length ws = n" "n \<le> length (flits frame)"
  shows "packet_to_tloe_frame (be_bytes w @ concat (map be_bytes ws) @ rest) (8 + 8 * int n) frame =
    Inr \<lparr>f_header = u64_to_tloe_header w, flits = ws @ drop n (flits frame)\<rparr>"
proof -
  let ?buf = "be_bytes w @ concat (map be_bytes ws) @ rest"
  have m: "map (\<lambda>i. be_u64 (take 8 (drop (8 + 8 * i) ?buf))) [0..<n] = map ((!) ws) [0..<n]"
    using packet_chunk [of _ ws w rest] assms(1) by (intro map_cong refl) auto
  have n: "nat ((8 + 8 * int n) div 8 - 1) = n" by simp
  show ?thesis
    unfolding packet_to_tloe_frame_def Let_def n m using assms map_nth [of ws] by simp
qed

section \<open>Mask and message\<close>

lemma mask_index_eq: "16 \<le> sz \<Longrightarrow> sz < 2 ^ 31 \<Longrightarrow> mask_index sz = nat (sz div 8 - 2)"
  by (simp add: mask_index_def)

lemma mask_index_56 [simp]: "mask_index 56 = 5"
  by (simp add: mask_index_def)

lemma tloe_get_set_mask:
  "tloe_set_mask frame m sz = Inr (r, frame') \<Longrightarrow> tloe_get_mask frame' sz = Inr (word_of_int m)"
  by (auto simp: tloe_set_mask_def tloe_get_mask_def Let_def split: if_splits)

lemma tloe_set_mask_header:
  "tloe_set_mask frame m sz = Inr (r, frame') \<Longrightarrow>
   f_header frame' = f_header frame \<and> length (flits frame') = length (flits frame)"
  by (auto simp: tloe_set_mask_def Let_def split: if_splits)

lemma tloe_get_fsize_bounds: "56 \<le> tloe_get_fsize mo" "tloe_get_fsize mo \<le> 32792"
  using tlmsg_get_total_size_bounds
  by (auto simp: tloe_get_fsize_def Let_def split: option.splits)

lemma tloe_get_fsize_small:
  "tlmsg_get_total_size m \<le> 48 \<Longrightarrow> tloe_get_fsize (Some m) = 56"
  by (simp add: tloe_get_fsize_def)

section \<open>Storing a message in a frame and reading it back\<close>

text \<open>
  A message object is well formed when its size is the one its header announces and the header is of
  a known kind (an unknown channel or channel-D opcode announces fewer than eight bytes).
\<close>

definition msg_ok :: "tl_msg_t \<Rightarrow> bool" where
  "msg_ok m \<longleftrightarrow> 8 \<le> tlmsg_get_total_size m \<and> int (length m) = tlmsg_get_total_size m"

lemma nth_flits_bytes:
  assumes "k < length ws"
  shows "ws ! k = le_u64 (take 8 (drop (8 * k) (flits_bytes ws)))"
proof -
  have "drop k ws = ws ! k # drop (Suc k) ws" using assms by (simp add: Cons_nth_drop_Suc)
  then show ?thesis by (simp add: drop_flits_bytes)
qed

lemma flits_bytes_update_prefix:
  assumes "n \<le> 8 * k"
  shows "take n (flits_bytes (ws[k := v])) = take n (flits_bytes ws)"
proof -
  have "take n (take (8 * k) (flits_bytes (ws[k := v]))) = take n (take (8 * k) (flits_bytes ws))"
    by (simp only: take_flits_bytes) simp
  then show ?thesis using assms by (simp add: min_absorb1)
qed

lemma header_of_flit:
  "tl_header (take 8 (drop (8 * k) (flits_bytes ws))) = u64_to_tl_header (ws ! k)" if "k < length ws"
  using nth_flits_bytes [OF that] by (simp add: tl_header_def)

lemma tloe_get_tlmsg_0:
  assumes "msg_ok m" "take (length m) (flits_bytes (flits frame)) = m"
  shows "tloe_get_tlmsg frame 0 = Inr m"
proof -
  let ?fs = "flits frame"
  have len: "8 \<le> length m" using assms(1) by (simp add: msg_ok_def)
  have fit: "length m \<le> 8 * length ?fs"
    using arg_cong [OF assms(2), of length] by simp
  then have ne: "0 < length ?fs" using len by auto
  have "take 8 (flits_bytes ?fs) = take 8 m"
    using assms(2) len by (metis min.absorb1 take_take)
  then have hd: "u64_to_tl_header (?fs ! 0) = tl_header m"
    using nth_flits_bytes [OF ne] by (simp add: tl_header_def)
  have "tlmsg_get_total_size (mk_msg (zero_tl_header\<lparr>tl_chan := tl_chan (tl_header m),
      tl_opcode := tl_opcode (tl_header m), tl_size := tl_size (tl_header m)\<rparr>) [])
    = int (length m)"
    using assms(1) by (subst tlmsg_sizes_header [of _ m]) (simp_all add: msg_ok_def)
  then show ?thesis
    using ne fit assms(2) by (simp add: tloe_get_tlmsg_def hd Let_def)
qed

lemma tloe_set_tlmsg_ok:
  assumes "msg_ok m" "length m \<le> 8 * length (flits frame)"
  shows "\<exists>frame'. tloe_set_tlmsg frame m = Inr frame' \<and> f_header frame' = f_header frame \<and>
    length (flits frame') = length (flits frame) \<and>
    flits_bytes (flits frame') = m @ drop (length m) (flits_bytes (flits frame))"
proof -
  let ?bs = "m @ drop (length m) (flits_bytes (flits frame))"
  have n: "nat (tlmsg_get_total_size m) = length m" using assms(1) by (auto simp: msg_ok_def)
  have "length ?bs = 8 * length (flits frame)" using assms(2) by simp
  then have "flits_bytes (bytes_flits ?bs) = ?bs" "length (bytes_flits ?bs) = length (flits frame)"
    by (rule flits_bytes_bytes_flits, rule length_bytes_flits)
  then show ?thesis
    using assms(2) by (simp add: tloe_set_tlmsg_def Let_def n)
qed

lemma set_tlmsg_mask_get:
  assumes m: "msg_ok m" and fit: "length m \<le> 8 * mask_index sz"
    and idx: "mask_index sz < length (flits frame)"
  shows "\<exists>frame1 frame2. tloe_set_tlmsg frame m = Inr frame1 \<and>
    tloe_set_mask frame1 k sz = Inr (word_of_int k, frame2) \<and>
    f_header frame2 = f_header frame \<and> length (flits frame2) = length (flits frame) \<and>
    tloe_get_mask frame2 sz = Inr (word_of_int k) \<and> tloe_get_tlmsg frame2 0 = Inr m"
proof -
  have "length m \<le> 8 * length (flits frame)" using fit idx by simp
  then obtain f1 where f1: "tloe_set_tlmsg frame m = Inr f1" "f_header f1 = f_header frame"
    "length (flits f1) = length (flits frame)"
    "flits_bytes (flits f1) = m @ drop (length m) (flits_bytes (flits frame))"
    using tloe_set_tlmsg_ok [OF m] by blast
  let ?f2 = "f1\<lparr>flits := (flits f1)[mask_index sz := word_of_int k]\<rparr>"
  have "take (length m) (flits_bytes (flits ?f2)) = m"
    using fit f1(4) by (simp add: flits_bytes_update_prefix)
  then have "tloe_get_tlmsg ?f2 0 = Inr m" by (rule tloe_get_tlmsg_0 [OF m])
  then show ?thesis
    using f1 idx by (intro exI [of _ f1] exI [of _ ?f2])
      (simp add: tloe_set_mask_def tloe_get_mask_def Let_def)
qed

text \<open>
  \<open>tloe_get_fsize\<close> leaves no flit for the mask once the message needs 48 bytes or more, so the
  mask overwrites the last flit of the message.
\<close>

lemma fsize_mask_overlap:
  assumes "msg_ok m" "48 \<le> tlmsg_get_total_size m"
  shows "8 * int (mask_index (tloe_get_fsize (Some m))) < tlmsg_get_total_size m"
proof -
  let ?n = "tlmsg_get_total_size m"
  have "mask_index (8 + ?n) = nat ((8 + ?n) div 8 - 2)"
    using assms tlmsg_get_total_size_bounds [of m] by (intro mask_index_eq) auto
  moreover have "tloe_get_fsize (Some m) = 8 + ?n"
    using assms by (simp add: tloe_get_fsize_def Let_def)
  moreover have "8 * ((8 + ?n) div 8) \<le> 8 + ?n" "2 \<le> (8 + ?n) div 8"
    using assms(2) by auto
  ultimately show ?thesis by (simp del: div_add_self1)
qed

lemma total_size_dvd:
  assumes "48 \<le> tlmsg_get_total_size m"
  shows "8 dvd tlmsg_get_total_size m"
proof -
  have h: "tlmsg_get_header_size m \<in> {0, 8, 16}" by (rule tlmsg_get_header_size_cases)
  with assms have "32 \<le> tlmsg_get_data_size m" by (auto simp: tlmsg_get_total_size_def)
  then obtain k where k: "tlmsg_get_data_size m = 2 ^ k" "(2::int) ^ 5 \<le> 2 ^ k"
    using tlmsg_get_data_size_cases [of m] by auto
  then have "3 \<le> k" by (cases "k = 0"; cases "k = 1"; cases "k = 2") auto
  then have "(2::int) ^ 3 dvd 2 ^ k" by (rule le_imp_power_dvd)
  then show ?thesis using h k(1) by (auto simp: tlmsg_get_total_size_def)
qed

lemma set_tlmsg_mask_clobbers:
  fixes m :: tl_msg_t
  defines "sz \<equiv> tloe_get_fsize (Some m)"
  assumes m: "msg_ok m" and big: "48 \<le> tlmsg_get_total_size m"
    and n: "length (flits frame) = nat ((sz - 8) div 8)"
  shows "\<exists>frame1 frame2. tloe_set_tlmsg frame m = Inr frame1 \<and>
    tloe_set_mask frame1 k sz = Inr (word_of_int k, frame2) \<and>
    flits_bytes (flits frame2) = take (length m - 8) m @ le_bytes (word_of_int k)"
proof -
  obtain j where j: "length m = 8 * j"
    using total_size_dvd [OF big] m by (auto simp: msg_ok_def int_dvd_int_iff [symmetric] elim!: dvdE)
      (metis dvd_def of_nat_dvd_iff of_nat_numeral dvd_triv_left)
  have szj: "sz = 8 + 8 * int j" and j6: "6 \<le> j"
    using m big j by (auto simp: sz_def tloe_get_fsize_def Let_def msg_ok_def)
  have len: "length (flits frame) = j" using n szj by simp
  have "mask_index sz = nat (sz div 8 - 2)"
    using szj j6 tloe_get_fsize_bounds [of "Some m"] by (intro mask_index_eq) (auto simp: sz_def)
  then have idx: "mask_index sz = j - 1" using szj by simp
  obtain f1 where f1: "tloe_set_tlmsg frame m = Inr f1" "length (flits f1) = j"
    "flits_bytes (flits f1) = m"
    using tloe_set_tlmsg_ok [OF m, of frame] j len by auto
  let ?ws = "(flits f1)[j - 1 := word_of_int k]"
  have "?ws = take (j - 1) (flits f1) @ [word_of_int k]"
    using f1(2) j6 by (simp add: upd_conv_take_nth_drop)
  then have "flits_bytes ?ws = flits_bytes (take (j - 1) (flits f1)) @ le_bytes (word_of_int k)"
    by simp
  also have "flits_bytes (take (j - 1) (flits f1)) = take (8 * (j - 1)) m"
    using f1(3) by (simp add: take_flits_bytes [symmetric])
  finally show ?thesis
    using f1 idx j j6 by (intro exI [of _ f1] exI [of _ "f1\<lparr>flits := ?ws\<rparr>"])
      (simp add: tloe_set_mask_def Let_def right_diff_distrib')
qed

text \<open>Encoding and decoding, with anything after the packet in the receive buffer.\<close>

lemma packet_decode:
  assumes "length (flits f) = n" "n \<le> MAX_SIZE_FLIT"
  obtains p where "tloe_frame_to_packet f (8 + 8 * int n) = Inr p" "length p = 8 + 8 * n"
    "\<And>rest. packet_to_tloe_frame (p @ rest) (8 + 8 * int n) (zero_frame MAX_SIZE_FLIT) =
      Inr (f\<lparr>flits := flits f @ replicate (MAX_SIZE_FLIT - n) 0\<rparr>)"
proof -
  let ?p = "be_bytes (tloe_header_to_u64 (f_header f)) @ concat (map be_bytes (flits f))"
  have "tloe_frame_to_packet f (8 + 8 * int n) = Inr ?p"
    using tloe_frame_to_packet_eq [of n f] assms by simp
  moreover have "packet_to_tloe_frame (?p @ rest) (8 + 8 * int n) (zero_frame MAX_SIZE_FLIT) =
      Inr (f\<lparr>flits := flits f @ replicate (MAX_SIZE_FLIT - n) 0\<rparr>)" for rest
    using packet_to_tloe_frame_eq [of "flits f" n "zero_frame MAX_SIZE_FLIT" _ rest] assms
    by (simp add: zero_frame_def)
  moreover have "length ?p = 8 + 8 * n" using assms(1) by simp
  ultimately show thesis by (intro that) blast+
qed

section \<open>Properties\<close>

text \<open>
  C30: a frame converted to a packet by \<open>tloe_frame_to_packet\<close> and back by \<open>packet_to_tloe_frame\<close> is
  unchanged: every header field and every flit survives, whatever else the receive buffer holds.
\<close>

theorem packet_round_trip:
  assumes "length (flits f) = n" "n \<le> MAX_SIZE_FLIT"
  shows "\<exists>p. tloe_frame_to_packet f (8 + 8 * int n) = Inr p \<and> length p = 8 + 8 * n \<and>
    (\<forall>rest. packet_to_tloe_frame (p @ rest) (8 + 8 * int n) (zero_frame MAX_SIZE_FLIT) =
      Inr (f\<lparr>flits := flits f @ replicate (MAX_SIZE_FLIT - n) 0\<rparr>))"
  using packet_decode [OF assms] by metis

theorem packet_round_trip_witness:
  "\<exists>p. tloe_frame_to_packet (zero_frame 6\<lparr>f_header := zero_header\<lparr>h_seq_num := 5, h_ack := 1\<rparr>\<rparr>) 56 = Inr p \<and>
    length p = 56 \<and>
    (\<forall>rest. packet_to_tloe_frame (p @ rest) 56 (zero_frame MAX_SIZE_FLIT) =
      Inr (zero_frame 65\<lparr>f_header := zero_header\<lparr>h_seq_num := 5, h_ack := 1\<rparr>\<rparr>))"
  using packet_round_trip [of "zero_frame 6\<lparr>f_header := zero_header\<lparr>h_seq_num := 5, h_ack := 1\<rparr>\<rparr>" 6]
  by (simp add: zero_frame_def replicate_add [symmetric])

text \<open>
  A message stored in a frame with \<open>tloe_set_tlmsg\<close> followed by the mask is read back unchanged by
  \<open>tloe_get_mask\<close> and \<open>tloe_get_tlmsg\<close>, provided the message ends before the mask flit.
\<close>

theorem tlmsg_round_trip:
  assumes "msg_ok m" "length m \<le> 8 * mask_index sz" "mask_index sz < length (flits frame)"
  shows "\<exists>frame1 frame2. tloe_set_tlmsg frame m = Inr frame1 \<and>
    tloe_set_mask frame1 k sz = Inr (word_of_int k, frame2) \<and> f_header frame2 = f_header frame \<and>
    tloe_get_mask frame2 sz = Inr (word_of_int k) \<and> tloe_get_tlmsg frame2 0 = Inr m"
  using set_tlmsg_mask_get [OF assms] by blast

text \<open>A read request of eight bytes at address \<open>a\<close>: 16 bytes on the wire.\<close>

definition sample_get :: "u64 \<Rightarrow> tl_msg_t" where
  "sample_get a = mk_msg (zero_tl_header\<lparr>tl_chan := 1, tl_opcode := 4, tl_size := 3\<rparr>) (le_bytes a)"

lemma sample_get_size [simp]:
  "tlmsg_get_total_size (sample_get a) = 16" "tlmsg_get_flits_cnt (sample_get a) = 2"
  "tlmsg_get_chan (sample_get a) = 1" "length (sample_get a) = 16"
  by (simp_all add: sample_get_def tlmsg_get_flits_cnt_alt tlmsg_get_total_size_def tlmsg_get_header_size_def
      tlmsg_get_data_size_def tlmsg_get_chan_def tlmsg_get_opcode_def header_log_def data_log_def int_of_shl_log)

lemma sample_get_ok [simp]: "msg_ok (sample_get a)"
  by (simp add: msg_ok_def)

theorem tlmsg_round_trip_witness:
  "\<exists>frame1 frame2. tloe_set_tlmsg (zero_frame 6) (sample_get 4096) = Inr frame1 \<and>
    tloe_set_mask frame1 1 56 = Inr (word_of_int 1, frame2) \<and> f_header frame2 = f_header (zero_frame 6) \<and>
    tloe_get_mask frame2 56 = Inr (word_of_int 1) \<and> tloe_get_tlmsg frame2 0 = Inr (sample_get 4096)"
  using tlmsg_round_trip [of "sample_get 4096" 56 "zero_frame 6" 1] by (simp add: zero_frame_def)

text \<open>
  C36: \<open>tloe_get_fsize\<close> reserves no flit for the mask once a message takes 48 bytes or more: writing the
  mask into a frame of that size replaces the last eight bytes of the message.
\<close>

theorem large_message_clobbered:
  assumes "msg_ok m" "48 \<le> tlmsg_get_total_size m"
    and "length (flits frame) = nat ((tloe_get_fsize (Some m) - 8) div 8)"
  shows "\<exists>frame1 frame2. tloe_set_tlmsg frame m = Inr frame1 \<and>
    tloe_set_mask frame1 1 (tloe_get_fsize (Some m)) = Inr (1, frame2) \<and>
    flits_bytes (flits frame2) = take (length m - 8) m @ le_bytes 1"
  using set_tlmsg_mask_clobbers [OF assms, of 1] by simp

text \<open>A write of 32 bytes.\<close>

definition sample_put32 :: tl_msg_t where
  "sample_put32 = mk_msg (zero_tl_header\<lparr>tl_chan := 1, tl_opcode := 0, tl_size := 5\<rparr>)
     (le_bytes 4096 @ replicate 32 255)"

lemma sample_put32_size: "tlmsg_get_total_size sample_put32 = 48" "length sample_put32 = 48"
  by (simp_all add: sample_put32_def tlmsg_get_total_size_def tlmsg_get_header_size_def tlmsg_get_data_size_def
      tlmsg_get_chan_def tlmsg_get_opcode_def tlmsg_get_size_def header_log_def data_log_def int_of_shl_log)

theorem large_message_clobbered_witness:
  "\<exists>frame1 frame2. tloe_set_tlmsg (zero_frame 6) sample_put32 = Inr frame1 \<and>
    tloe_set_mask frame1 1 56 = Inr (1, frame2) \<and>
    flits_bytes (flits frame2) = take 40 sample_put32 @ le_bytes 1"
  using large_message_clobbered [of sample_put32 "zero_frame 6"]
  by (simp add: sample_put32_size msg_ok_def tloe_get_fsize_def zero_frame_def)

end
