(* ===== verification/Flow_Control.thy ===== *)
theory Flow_Control
  imports Tloe_Frame
begin

text \<open>
  Credit-based flow control (\<^verbatim>\<open>flowcontrol.h\<close>, \<^verbatim>\<open>flowcontrol.c\<close>). \<open>credits\<close> is what this endpoint may
  still send on each channel, \<open>tx_flow_credits\<close> what it owes its peer. All six arrays are indexed by
  channel; the 32-bit counters wrap.
\<close>

section \<open>State\<close>

abbreviation (input) CREDIT_INIT :: nat where "CREDIT_INIT \<equiv> 7"
abbreviation (input) CREDIT_DEFAULT :: nat where "CREDIT_DEFAULT \<equiv> 10"

record flowcontrol_t =
  credits :: "u32 list"
  tx_flow_credits :: "u32 list"
  inc_cnt :: "u32 list"
  inc_value :: "u32 list"
  dec_cnt :: "u32 list"
  dec_value :: "u32 list"

definition zero_flowcontrol :: flowcontrol_t where
  "zero_flowcontrol = (let z = replicate CHANNEL_NUM 0 in
     \<lparr>credits = z, tx_flow_credits = z, inc_cnt = z, inc_value = z, dec_cnt = z, dec_value = z\<rparr>)"

definition fc_wf :: "flowcontrol_t \<Rightarrow> bool" where
  "fc_wf fc \<longleftrightarrow> length (credits fc) = CHANNEL_NUM \<and> length (tx_flow_credits fc) = CHANNEL_NUM \<and>
     length (inc_cnt fc) = CHANNEL_NUM \<and> length (inc_value fc) = CHANNEL_NUM \<and>
     length (dec_cnt fc) = CHANNEL_NUM \<and> length (dec_value fc) = CHANNEL_NUM"

section \<open>Operations\<close>

text \<open>A channel number comes from a three-bit field; 6 and 7 index past the arrays.\<close>

definition set_credit :: "flowcontrol_t \<Rightarrow> nat \<Rightarrow> nat \<Rightarrow> flowcontrol_t run" where
  "set_credit fc channel credit =
     (if channel < CHANNEL_NUM
      then Inr (fc\<lparr>credits := (credits fc)[channel := push_bit credit 1],
                   tx_flow_credits := (tx_flow_credits fc)[channel := 0]\<rparr>)
      else Inl Undefined)"

definition init_flowcontrol :: "flowcontrol_t \<Rightarrow> flowcontrol_t run" where
  "init_flowcontrol fc =
     fold_run (\<lambda>i fc. bind_run (set_credit fc i CREDIT_INIT)
       (\<lambda>fc. Inr (fc\<lparr>inc_cnt := (inc_cnt fc)[i := 0], inc_value := (inc_value fc)[i := 0],
                     dec_cnt := (dec_cnt fc)[i := 0], dec_value := (dec_value fc)[i := 0]\<rparr>)))
       [0..<CHANNEL_NUM] fc"

text \<open>The two functions below depend on the compile-time switch \<^verbatim>\<open>WDE\<close>, the argument \<open>wde\<close>.\<close>

definition is_filled_credit :: "bool \<Rightarrow> flowcontrol_t \<Rightarrow> nat \<Rightarrow> bool" where
  "is_filled_credit wde fc channel =
     (if wde then
        (if int channel = CHANNEL_A \<or> int channel = CHANNEL_C \<or> int channel = CHANNEL_E
         then credits fc ! channel > push_bit CREDIT_INIT 1 else False)
      else credits fc ! channel > push_bit CREDIT_INIT 1)"

definition check_all_channels :: "bool \<Rightarrow> flowcontrol_t \<Rightarrow> bool" where
  "check_all_channels wde fc =
     (let credit_init = push_bit CREDIT_INIT 1 in
      if wde then credits fc ! nat CHANNEL_A > credit_init \<and> credits fc ! nat CHANNEL_C > credit_init \<and>
                  credits fc ! nat CHANNEL_E > credit_init
      else credits fc ! nat CHANNEL_A > credit_init \<and> credits fc ! nat CHANNEL_B > credit_init \<and>
           credits fc ! nat CHANNEL_C > credit_init \<and> credits fc ! nat CHANNEL_D > credit_init \<and>
           credits fc ! nat CHANNEL_E > credit_init)"

text \<open>The comparison converts the \<^verbatim>\<open>int\<close> \<open>credit\<close> to unsigned.\<close>

definition try_dec_credits :: "flowcontrol_t \<Rightarrow> nat \<Rightarrow> int \<Rightarrow> int" where
  "try_dec_credits fc ch credit =
     (if credits fc ! ch < word_of_int credit then -1 else sint (credits fc ! ch))"

definition fc_credit_inc :: "flowcontrol_t \<Rightarrow> tloe_frame_t \<Rightarrow> (int \<times> flowcontrol_t) run" where
  "fc_credit_inc fc frame =
     (let ch = unat (h_chan (f_header frame));
          inc_credit = (if ch \<noteq> 0 then sint (push_bit (unat (h_credit (f_header frame))) 1 :: u32)
                        else -1)
      in if ch < CHANNEL_NUM then
           Inr (inc_credit,
             (if inc_credit \<noteq> -1
              then fc\<lparr>credits := (credits fc)[ch := credits fc ! ch + word_of_int inc_credit],
                      inc_cnt := (inc_cnt fc)[ch := inc_cnt fc ! ch + 1],
                      inc_value := (inc_value fc)[ch := inc_value fc ! ch + word_of_int inc_credit]\<rparr>
              else fc))
         else Inl Undefined)"

definition fc_credit_dec :: "flowcontrol_t \<Rightarrow> tl_msg_t \<Rightarrow> (int \<times> flowcontrol_t) run" where
  "fc_credit_dec fc tlmsg =
     (let ch = nat (tlmsg_get_chan tlmsg);
          dec_credit = (if ch \<noteq> 0 then tlmsg_get_flits_cnt tlmsg else -1)
      in if ch < CHANNEL_NUM then
           let available_credit = try_dec_credits fc ch dec_credit;
               dec_credit = (if available_credit = -1 then -1 else dec_credit)
           in Inr (dec_credit,
                (if dec_credit \<noteq> -1
                 then fc\<lparr>credits := (credits fc)[ch := credits fc ! ch - word_of_int dec_credit],
                         dec_cnt := (dec_cnt fc)[ch := dec_cnt fc ! ch + 1],
                         dec_value := (dec_value fc)[ch := dec_value fc ! ch + word_of_int dec_credit]\<rparr>
                 else fc))
         else Inl Undefined)"

definition get_credit :: "flowcontrol_t \<Rightarrow> nat \<Rightarrow> int" where
  "get_credit fc channel = sint (credits fc ! channel)"

definition add_channel_flow_credits :: "flowcontrol_t \<Rightarrow> nat \<Rightarrow> int \<Rightarrow> flowcontrol_t run" where
  "add_channel_flow_credits fc channel total_flits =
     (if channel < CHANNEL_NUM
      then Inr (fc\<lparr>tx_flow_credits := (tx_flow_credits fc)
                     [channel := tx_flow_credits fc ! channel + word_of_int total_flits]\<rparr>)
      else Inl Undefined)"

text \<open>\<^verbatim>\<open>__builtin_clz\<close> counts leading zero bits and is undefined at 0.\<close>

definition clz32 :: "u32 \<Rightarrow> nat" where
  "clz32 w = length (takeWhile (\<lambda>i. \<not> bit w i) (rev [0..<32]))"

definition get_largest_pow :: "u32 \<Rightarrow> nat run" where
  "get_largest_pow v = (if v = 0 then Inl Undefined else Inr (31 - clz32 v))"

definition get_outgoing_credits :: "flowcontrol_t \<Rightarrow> nat \<Rightarrow> (nat \<times> flowcontrol_t) run" where
  "get_outgoing_credits fc chan =
     bind_run (get_largest_pow (tx_flow_credits fc ! chan))
       (\<lambda>credit. Inr (credit, fc\<lparr>tx_flow_credits := (tx_flow_credits fc)
          [chan := tx_flow_credits fc ! chan - push_bit credit 1]\<rparr>))"

definition select_max_credit_channel :: "flowcontrol_t \<Rightarrow> nat" where
  "select_max_credit_channel fc =
     snd (fold (\<lambda>i (max_credit, chan).
            if tx_flow_credits fc ! i \<le> max_credit then (max_credit, chan)
            else (tx_flow_credits fc ! i, i))
          [1..<CHANNEL_NUM] (tx_flow_credits fc ! 0, 0))"

section \<open>Initial credits\<close>

definition initial_fc :: flowcontrol_t where
  "initial_fc = zero_flowcontrol\<lparr>credits := replicate CHANNEL_NUM 128\<rparr>"

lemma set_all_6:
  "length xs = 6 \<Longrightarrow> xs[0 := v, Suc 0 := v, 2 := v, 3 := v, 4 := v, 5 := v] = replicate 6 v"
  by (rule nth_equalityI) (auto simp: nth_list_update)

lemma init_flowcontrol_eq:
  assumes "fc_wf fc"
  shows "init_flowcontrol fc = Inr (fc\<lparr>credits := credits initial_fc, tx_flow_credits := tx_flow_credits initial_fc,
    inc_cnt := inc_cnt initial_fc, inc_value := inc_value initial_fc, dec_cnt := dec_cnt initial_fc,
    dec_value := dec_value initial_fc\<rparr>)"
proof -
  have "[0..<6] = [0, Suc 0, 2, 3, 4, 5]" by (simp add: upt_conv_Cons)
  then show ?thesis
    using assms unfolding init_flowcontrol_def fc_wf_def
    by (simp add: set_credit_def initial_fc_def zero_flowcontrol_def Let_def set_all_6)
qed

lemma fc_wf_initial [simp]: "fc_wf initial_fc" "fc_wf zero_flowcontrol"
  by (simp_all add: fc_wf_def initial_fc_def zero_flowcontrol_def Let_def)

section \<open>Outgoing credits\<close>

lemma clz32_spec:
  assumes "w \<noteq> 0"
  shows "clz32 w < 32" and "bit w (31 - clz32 w)" and "31 - clz32 w < i \<Longrightarrow> \<not> bit w i"
proof -
  let ?xs = "rev [0..<32] :: nat list" and ?P = "\<lambda>i. \<not> bit w i"
  have nth: "k < 32 \<Longrightarrow> ?xs ! k = 31 - k" for k by (simp add: rev_nth)
  obtain n where n: "bit w n" "n < 32"
    using assms by (auto simp: bit_eq_iff)
  then have "takeWhile ?P ?xs \<noteq> ?xs"
    by (metis (mono_tags, lifting) atLeastLessThan_iff le0 set_rev set_upt takeWhile_eq_all_conv)
  then have lt: "length (takeWhile ?P ?xs) < length ?xs"
    by (metis length_takeWhile_le linorder_not_less takeWhile_eq_take take_all)
  then show c: "clz32 w < 32" by (simp add: clz32_def)
  from nth_length_takeWhile [OF lt] show "bit w (31 - clz32 w)"
    using nth [OF c] by (simp add: clz32_def)
  show "\<not> bit w i" if "31 - clz32 w < i"
  proof (cases "i < 32")
    case True
    then have k: "31 - i < clz32 w" using that by simp
    then have "takeWhile ?P ?xs ! (31 - i) \<in> set (takeWhile ?P ?xs)"
      by (auto simp: clz32_def)
    moreover have "takeWhile ?P ?xs ! (31 - i) = ?xs ! (31 - i)"
      using k by (simp add: clz32_def takeWhile_nth)
    ultimately show ?thesis using nth [of "31 - i"] True by (auto dest: set_takeWhileD)
  next
    case False
    then show ?thesis by (auto dest: bit_imp_le_length)
  qed
qed

lemma unat_less_if_bits:
  fixes w :: u32
  assumes "\<And>i. n \<le> i \<Longrightarrow> \<not> bit w i"
  shows "unat w < 2 ^ n"
proof -
  have "take_bit n w = w"
    by (rule bit_eqI) (use assms not_le in \<open>auto simp: bit_simps\<close>)
  then have "take_bit n (unat w) = unat w"
    by (metis unsigned_take_bit_eq)
  then show ?thesis by (metis take_bit_nat_less_exp)
qed

lemma unat_2_power: "c < 32 \<Longrightarrow> unat (2 ^ c :: u32) = 2 ^ c"
  using unsigned_push_bit_eq [of c "1 :: u32", where 'a = nat]
  by (simp add: push_bit_eq_mult take_bit_nat_eq_self)

lemma get_largest_pow_spec:
  assumes "get_largest_pow v = Inr c"
  shows "c < 32" "2 ^ c \<le> unat v" "unat v < 2 * 2 ^ c"
proof -
  have v: "v \<noteq> 0" and c: "c = 31 - clz32 v"
    using assms by (auto simp: get_largest_pow_def split: if_splits)
  note z = clz32_spec [OF v]
  show c32: "c < 32" using c by simp
  have "and v (push_bit c 1) = push_bit c 1"
    using z(2) c by (intro bit_eqI) (auto simp: bit_simps)
  then have "push_bit c 1 \<le> v" by (metis word_and_le2)
  then show "2 ^ c \<le> unat v"
    using unat_2_power [OF c32] by (simp add: word_le_nat_alt)
  have "unat v < 2 ^ Suc c"
    by (rule unat_less_if_bits) (use z(3) c in auto)
  then show "unat v < 2 * 2 ^ c" by simp
qed

lemma get_outgoing_credits_spec:
  assumes wf: "fc_wf fc" and c: "chan < CHANNEL_NUM" and nz: "tx_flow_credits fc ! chan \<noteq> 0"
  shows "\<exists>credit fc'. get_outgoing_credits fc chan = Inr (credit, fc') \<and> credit < 32 \<and>
    unat (tx_flow_credits fc ! chan) = unat (tx_flow_credits fc' ! chan) + 2 ^ credit \<and>
    unat (tx_flow_credits fc' ! chan) < 2 ^ credit \<and>
    (\<forall>j. j \<noteq> chan \<longrightarrow> tx_flow_credits fc' ! j = tx_flow_credits fc ! j) \<and> fc_wf fc' \<and>
    fc' = fc\<lparr>tx_flow_credits := tx_flow_credits fc'\<rparr>"
proof -
  let ?v = "tx_flow_credits fc ! chan"
  obtain k where k: "get_largest_pow ?v = Inr k" using nz by (simp add: get_largest_pow_def)
  note s = get_largest_pow_spec [OF k]
  have "push_bit k 1 \<le> ?v" using s by (simp add: word_le_nat_alt unat_2_power)
  then have "unat (?v - push_bit k 1) = unat ?v - 2 ^ k"
    using s by (simp add: unat_sub unat_2_power)
  then show ?thesis
    using s wf c by (auto simp: get_outgoing_credits_def k fc_wf_def)
qed

lemma select_max_inv:
  fixes f :: "nat \<Rightarrow> u32"
  assumes "0 < n"
  shows "case fold (\<lambda>i (mx, ch). if f i \<le> mx then (mx, ch) else (f i, i)) [1..<n] (f 0, 0) of
    (mx, ch) \<Rightarrow> ch < n \<and> mx = f ch \<and> (\<forall>j < n. f j \<le> mx) \<and> (\<forall>j < ch. f j < mx)"
  using assms
proof (induction n rule: nat_induct_non_zero)
  case 1
  then show ?case by simp
next
  case (Suc n)
  then show ?case by (auto simp: less_Suc_eq split: prod.splits)
qed

lemma select_max_credit_channel_spec:
  fixes fc
  defines "ch \<equiv> select_max_credit_channel fc"
  shows "ch < CHANNEL_NUM" "j < CHANNEL_NUM \<Longrightarrow> tx_flow_credits fc ! j \<le> tx_flow_credits fc ! ch"
    "j < ch \<Longrightarrow> tx_flow_credits fc ! j < tx_flow_credits fc ! ch"
  using select_max_inv [of CHANNEL_NUM "\<lambda>i. tx_flow_credits fc ! i"]
  by (auto simp: ch_def select_max_credit_channel_def split: prod.splits)

text \<open>
  What a frame announces in terms of the debt: the exponent in its credit field, and the debt that remains. With no debt
  the channel is 0 and nothing is announced.
\<close>

definition announcement :: "flowcontrol_t \<Rightarrow> nat" where
  "announcement fc = (let ch = select_max_credit_channel fc in if ch = 0 then 0 else 31 - clz32 (tx_flow_credits fc ! ch))"

definition owed_after :: "flowcontrol_t \<Rightarrow> u32 list" where
  "owed_after fc = (let ch = select_max_credit_channel fc in if ch = 0 then tx_flow_credits fc
     else (tx_flow_credits fc)[ch := tx_flow_credits fc ! ch - push_bit (announcement fc) 1])"

lemma outgoing_announcement:
  assumes "get_outgoing_credits F (select_max_credit_channel fc) = Inr (credit, fc')" "tx_flow_credits F = tx_flow_credits fc"
    and "select_max_credit_channel fc \<noteq> 0"
  shows "credit = announcement fc" "tx_flow_credits fc' = owed_after fc"
  using assms by (auto simp: get_outgoing_credits_def get_largest_pow_def announcement_def owed_after_def Let_def split: if_splits)

lemma owed_after_ledger:
  assumes "fc_wf fc" "k < CHANNEL_NUM"
  shows "unat (owed_after fc ! k) + (if k = select_max_credit_channel fc \<and> k \<noteq> 0 then 2 ^ announcement fc else 0) =
    unat (tx_flow_credits fc ! k)"
proof (cases "select_max_credit_channel fc = 0")
  case True
  then show ?thesis by (auto simp: owed_after_def)
next
  case False
  let ?c = "select_max_credit_channel fc"
  have c: "?c < CHANNEL_NUM" by (rule select_max_credit_channel_spec)
  have "tx_flow_credits fc ! 0 < tx_flow_credits fc ! ?c" using False by (intro select_max_credit_channel_spec(3)) simp
  then have "tx_flow_credits fc ! ?c \<noteq> 0" by auto
  from get_outgoing_credits_spec [OF assms(1) c this] obtain credit fc' where
    g: "get_outgoing_credits fc ?c = Inr (credit, fc')" "unat (tx_flow_credits fc ! ?c) = unat (tx_flow_credits fc' ! ?c) + 2 ^ credit"
    "\<forall>j. j \<noteq> ?c \<longrightarrow> tx_flow_credits fc' ! j = tx_flow_credits fc ! j" by blast
  from outgoing_announcement [OF g(1) refl False] g False show ?thesis by auto
qed

section \<open>Sending credits\<close>

lemma sint_eq_m1: "sint w = -1 \<longleftrightarrow> w = -1" for w :: u32
proof
  assume "sint w = -1"
  then have "(word_of_int (sint w) :: u32) = word_of_int (-1)" by (simp only:)
  then show "w = -1" by (simp only: of_int_sint) simp
qed simp

lemma flits_cnt_bounds: "0 \<le> tlmsg_get_flits_cnt m" "tlmsg_get_flits_cnt m \<le> 4098"
  using tlmsg_get_total_size_bounds [of m] by (auto simp: tlmsg_get_flits_cnt_alt)

lemma unat_word_of_flits: "unat (word_of_int (tlmsg_get_flits_cnt m) :: u32) = nat (tlmsg_get_flits_cnt m)"
proof -
  have "uint (word_of_int (tlmsg_get_flits_cnt m) :: u32) = tlmsg_get_flits_cnt m"
    using flits_cnt_bounds [of m] by (simp only: uint_word_of_int_eq) (rule take_bit_int_eq_self, auto)
  then show ?thesis by (simp only: unat_eq_nat_uint)
qed

text \<open>When a message is refused, and what a granted one does to the state.\<close>

definition dec_refused :: "flowcontrol_t \<Rightarrow> tl_msg_t \<Rightarrow> bool" where
  "dec_refused fc m \<longleftrightarrow> (let ch = nat (tlmsg_get_chan m) in
     ch = 0 \<or> unat (credits fc ! ch) < nat (tlmsg_get_flits_cnt m) \<or> credits fc ! ch = -1)"

definition fc_spend :: "flowcontrol_t \<Rightarrow> nat \<Rightarrow> u32 \<Rightarrow> flowcontrol_t" where
  "fc_spend fc ch n = fc\<lparr>credits := (credits fc)[ch := credits fc ! ch - n],
     dec_cnt := (dec_cnt fc)[ch := dec_cnt fc ! ch + 1],
     dec_value := (dec_value fc)[ch := dec_value fc ! ch + n]\<rparr>"

lemma try_dec_refused:
  "try_dec_credits fc (nat (tlmsg_get_chan m))
     (if nat (tlmsg_get_chan m) \<noteq> 0 then tlmsg_get_flits_cnt m else -1) = -1 \<longleftrightarrow> dec_refused fc m"
proof (cases "nat (tlmsg_get_chan m) = 0")
  case True
  have "credits fc ! 0 < -1 \<or> credits fc ! 0 = -1"
    using word_order.not_eq_extremum [of "credits fc ! 0"] by auto
  then show ?thesis using True by (auto simp: try_dec_credits_def dec_refused_def)
next
  case False
  then show ?thesis
    by (simp add: try_dec_credits_def dec_refused_def Let_def word_less_nat_alt unat_word_of_flits
        sint_eq_m1)
qed

lemma fc_credit_dec_eq:
  assumes "nat (tlmsg_get_chan m) < CHANNEL_NUM"
  shows "fc_credit_dec fc m =
    (if dec_refused fc m then Inr (-1, fc)
     else Inr (tlmsg_get_flits_cnt m,
            fc_spend fc (nat (tlmsg_get_chan m)) (word_of_int (tlmsg_get_flits_cnt m))))"
proof (cases "dec_refused fc m")
  case True
  then show ?thesis
    unfolding fc_credit_dec_def Let_def using assms try_dec_refused [of fc m] by simp
next
  case False
  moreover have "nat (tlmsg_get_chan m) \<noteq> 0" using False by (auto simp: dec_refused_def)
  moreover have "tlmsg_get_flits_cnt m \<noteq> -1" using flits_cnt_bounds [of m] by simp
  ultimately show ?thesis
    unfolding fc_credit_dec_def Let_def fc_spend_def using assms try_dec_refused [of fc m] by simp
qed

lemma fc_spend_credits:
  assumes "fc_wf fc" "nat (tlmsg_get_chan m) < CHANNEL_NUM" "\<not> dec_refused fc m"
  shows "unat (credits (fc_spend fc (nat (tlmsg_get_chan m)) (word_of_int (tlmsg_get_flits_cnt m)))
             ! nat (tlmsg_get_chan m))
    = unat (credits fc ! nat (tlmsg_get_chan m)) - nat (tlmsg_get_flits_cnt m)"
proof -
  let ?c = "credits fc ! nat (tlmsg_get_chan m)" and ?n = "word_of_int (tlmsg_get_flits_cnt m) :: u32"
  have "?n \<le> ?c" using assms(3) by (auto simp: dec_refused_def Let_def word_le_nat_alt unat_word_of_flits)
  then have "unat (?c - ?n) = unat ?c - nat (tlmsg_get_flits_cnt m)"
    by (simp add: unat_sub unat_word_of_flits)
  then show ?thesis using assms(1,2) by (simp add: fc_spend_def fc_wf_def)
qed

text \<open>What a frame in order adds.\<close>

lemma fc_credit_inc_gain:
  assumes "fc_wf fc" "fc_credit_inc fc f = Inr (r, fc')" "k < CHANNEL_NUM"
  shows "tx_flow_credits fc' = tx_flow_credits fc"
    "credits fc' ! k = credits fc ! k +
      of_nat (if k = unat (h_chan (f_header f)) \<and> k \<noteq> 0 then 2 ^ unat (h_credit (f_header f)) else 0)"
proof -
  let ?c = "unat (h_credit (f_header f))"
  have "\<not> (bit (push_bit ?c 1 :: u32) 0 \<and> bit (push_bit ?c 1 :: u32) 1)" by (auto simp: bit_simps)
  then have "(push_bit ?c 1 :: u32) \<noteq> -1" by (auto simp del: push_bit_of_1)
  then have "sint (push_bit ?c 1 :: u32) \<noteq> -1" by (simp add: sint_eq_m1)
  then show "tx_flow_credits fc' = tx_flow_credits fc"
    "credits fc' ! k = credits fc ! k + of_nat (if k = unat (h_chan (f_header f)) \<and> k \<noteq> 0 then 2 ^ ?c else 0)"
    using assms by (auto simp: fc_credit_inc_def Let_def fc_wf_def nth_list_update split: if_splits)
qed

section \<open>The credit ledger\<close>

text \<open>
  The counters \<open>inc_value\<close> and \<open>dec_value\<close> record every credit gained and spent, so that the
  available credit is always the initial one plus the gains minus the expenses (modulo \<open>2 ^ 32\<close>).
\<close>

definition fc_ledger :: "u32 list \<Rightarrow> flowcontrol_t \<Rightarrow> bool" where
  "fc_ledger base fc \<longleftrightarrow> fc_wf fc \<and>
     (\<forall>c < CHANNEL_NUM. credits fc ! c + dec_value fc ! c = base ! c + inc_value fc ! c)"

lemma fc_credit_inc_ledger [inv_intro]:
  assumes "fc_ledger base fc" "fc_credit_inc fc frame = Inr (r, fc')"
  shows "fc_ledger base fc'"
  using assms
  by (auto simp: fc_ledger_def fc_credit_inc_def fc_wf_def Let_def nth_list_update algebra_simps
      split: if_splits)

lemma fc_spend_ledger:
  "fc_ledger base fc \<Longrightarrow> ch < CHANNEL_NUM \<Longrightarrow> fc_ledger base (fc_spend fc ch n)"
  by (auto simp: fc_ledger_def fc_spend_def fc_wf_def nth_list_update algebra_simps)

lemma fc_credit_dec_ledger [inv_intro]:
  assumes "fc_ledger base fc" "fc_credit_dec fc m = Inr (r, fc')"
  shows "fc_ledger base fc'"
proof (cases "dec_refused fc m")
  case True
  then show ?thesis using assms fc_credit_dec_eq [of m fc]
    by (auto simp: fc_credit_dec_def Let_def split: if_splits)
next
  case False
  have ch: "nat (tlmsg_get_chan m) < CHANNEL_NUM"
    using assms(2) by (auto simp: fc_credit_dec_def Let_def split: if_splits)
  then have "fc' = fc_spend fc (nat (tlmsg_get_chan m)) (word_of_int (tlmsg_get_flits_cnt m))"
    using assms(2) False by (auto simp: fc_credit_dec_eq)
  then show ?thesis using fc_spend_ledger [OF assms(1) ch] by simp
qed

text \<open>Any sequence of frames received and messages sent.\<close>

datatype fc_op = Received tloe_frame_t | Sent tl_msg_t

definition fc_step :: "fc_op \<Rightarrow> flowcontrol_t \<Rightarrow> flowcontrol_t run" where
  "fc_step op fc =
     (case op of Received f \<Rightarrow> bind_run (fc_credit_inc fc f) (\<lambda>(_, fc'). Inr fc')
      | Sent m \<Rightarrow> bind_run (fc_credit_dec fc m) (\<lambda>(_, fc'). Inr fc'))"

lemma fc_run_ledger:
  "fc_ledger base fc \<Longrightarrow> fold_run fc_step ops fc = Inr fc' \<Longrightarrow> fc_ledger base fc'"
  by (rule fold_run_invariant [of ops "fc_ledger base" fc_step fc])
     (auto simp: fc_step_def bind_run_eq_Inr split: fc_op.splits intro: inv_intro)

section \<open>Properties\<close>

text \<open>
  In every sequence of received frames and sent messages the credit of each channel is the initial
  credit plus everything \<open>fc_credit_inc\<close> gained minus everything \<open>fc_credit_dec\<close> spent (modulo \<open>2 ^ 32\<close>), as
  the counters \<open>inc_value\<close> and \<open>dec_value\<close> record it.
\<close>

theorem credit_ledger:
  assumes "fold_run fc_step ops initial_fc = Inr fc'"
  shows "\<forall>c < CHANNEL_NUM. credits fc' ! c + dec_value fc' ! c = 128 + inc_value fc' ! c"
proof -
  have "fc_ledger (replicate 6 128) initial_fc"
    by (simp add: fc_ledger_def initial_fc_def zero_flowcontrol_def fc_wf_def Let_def)
  from fc_run_ledger [OF this assms] show ?thesis by (auto simp: fc_ledger_def)
qed

theorem credit_ledger_witness:
  "\<exists>fc'. fold_run fc_step [Received (zero_frame 6\<lparr>f_header := zero_header\<lparr>h_chan := 1, h_credit := 3\<rparr>\<rparr>),
      Sent (sample_get 4096)] initial_fc = Inr fc' \<and>
    (\<forall>c < CHANNEL_NUM. credits fc' ! c + dec_value fc' ! c = 128 + inc_value fc' ! c)"
proof -
  let ?ops = "[Received (zero_frame 6\<lparr>f_header := zero_header\<lparr>h_chan := 1, h_credit := 3\<rparr>\<rparr>),
    Sent (sample_get 4096)]"
  obtain fc' where "fold_run fc_step ?ops initial_fc = Inr fc'"
    by (simp add: fc_step_def fc_credit_inc_def fc_credit_dec_def Let_def zero_frame_def zero_header_def)
  with credit_ledger [OF this] show ?thesis by blast
qed

text \<open>
  C23: \<open>fc_credit_dec\<close> spends exactly the flits of the message, on its channel only, and only when the
  channel has that much credit; a message on channel 0 or without credit is refused with \<open>-1\<close> and the
  state is unchanged. The credit never wraps below zero.
\<close>

theorem credit_spent_exactly:
  assumes "fc_wf fc" "nat (tlmsg_get_chan m) < CHANNEL_NUM"
  shows "fc_credit_dec fc m =
    (if dec_refused fc m then Inr (-1, fc)
     else Inr (tlmsg_get_flits_cnt m,
            fc_spend fc (nat (tlmsg_get_chan m)) (word_of_int (tlmsg_get_flits_cnt m)))) \<and>
    (\<not> dec_refused fc m \<longrightarrow>
      nat (tlmsg_get_flits_cnt m) \<le> unat (credits fc ! nat (tlmsg_get_chan m)) \<and>
      unat (credits (fc_spend fc (nat (tlmsg_get_chan m)) (word_of_int (tlmsg_get_flits_cnt m)))
             ! nat (tlmsg_get_chan m))
      = unat (credits fc ! nat (tlmsg_get_chan m)) - nat (tlmsg_get_flits_cnt m))"
  using fc_credit_dec_eq [OF assms(2)] fc_spend_credits [OF assms]
  by (auto simp: dec_refused_def Let_def)

theorem credit_spent_exactly_witness:
  "fc_credit_dec initial_fc (sample_get 0) = Inr (2, fc_spend initial_fc 1 2) \<and>
   unat (credits (fc_spend initial_fc 1 2) ! 1) = 126"
proof -
  have c: "credits initial_fc ! Suc 0 = 128" by (simp add: initial_fc_def)
  then have "\<not> dec_refused initial_fc (sample_get 0)" by (simp add: dec_refused_def)
  then show ?thesis using credit_spent_exactly [of initial_fc "sample_get 0"] c by simp
qed

text \<open>
  When some channel other than 0 owes more credit than channel 0, \<open>select_max_credit_channel\<close> picks the first
  channel that owes most, and \<open>get_outgoing_credits\<close> returns the exponent of the largest power of two
  that does not exceed the debt and takes exactly that power off it.
\<close>

theorem outgoing_credits_largest:
  fixes fc
  defines "ch \<equiv> select_max_credit_channel fc"
  assumes "fc_wf fc" "ch \<noteq> 0"
  shows "ch < CHANNEL_NUM \<and> (\<forall>j < CHANNEL_NUM. tx_flow_credits fc ! j \<le> tx_flow_credits fc ! ch) \<and>
    (\<forall>j < ch. tx_flow_credits fc ! j < tx_flow_credits fc ! ch) \<and>
    (\<exists>credit fc'. get_outgoing_credits fc ch = Inr (credit, fc') \<and> credit < 32 \<and>
      unat (tx_flow_credits fc ! ch) = unat (tx_flow_credits fc' ! ch) + 2 ^ credit \<and>
      unat (tx_flow_credits fc' ! ch) < 2 ^ credit \<and>
      (\<forall>j. j \<noteq> ch \<longrightarrow> tx_flow_credits fc' ! j = tx_flow_credits fc ! j))"
proof -
  note s = select_max_credit_channel_spec [where fc = fc, folded ch_def]
  have "tx_flow_credits fc ! 0 < tx_flow_credits fc ! ch" using s(3) [of 0] assms(3) by simp
  then have "tx_flow_credits fc ! ch \<noteq> 0" by auto
  from get_outgoing_credits_spec [OF assms(2) s(1) this] s show ?thesis by blast
qed

theorem outgoing_credits_largest_witness:
  "\<exists>credit fc'. get_outgoing_credits (zero_flowcontrol\<lparr>tx_flow_credits := [0, 5, 0, 0, 11, 11]\<rparr>) 4 = Inr (credit, fc') \<and>
    (11 :: nat) = unat (tx_flow_credits fc' ! 4) + 2 ^ credit \<and> unat (tx_flow_credits fc' ! 4) < 2 ^ credit"
proof -
  let ?fc = "zero_flowcontrol\<lparr>tx_flow_credits := [0, 5, 0, 0, 11, 11]\<rparr>"
  have ch: "select_max_credit_channel ?fc = 4"
    by (simp add: select_max_credit_channel_def upt_conv_Cons)
  have wf: "fc_wf ?fc" by (simp add: fc_wf_def zero_flowcontrol_def Let_def)
  show ?thesis using outgoing_credits_largest [of ?fc, unfolded ch, OF wf] by auto
qed

end
