(* ===== verification/Timeout.thy ===== *)
theory Timeout
  imports Prelude
begin

text \<open>
  Timestamps (\<^verbatim>\<open>timeout.h\<close>, \<^verbatim>\<open>timeout.c\<close>, and \<^verbatim>\<open>check_timer\<close> of \<^verbatim>\<open>tloe_connection.c\<close>). The clock is
  an argument: \<^verbatim>\<open>clock_gettime(CLOCK_MONOTONIC)\<close> yields non-negative seconds and nanoseconds below
  \<open>10 ^ 9\<close>. \<^verbatim>\<open>difftime\<close> subtracts as doubles, which is exact for the values a clock can show
  (below \<open>2 ^ 53\<close> microseconds), so the model subtracts integers.
\<close>

abbreviation (input) DELAYED_ACK_TIME :: int where "DELAYED_ACK_TIME \<equiv> 1"
abbreviation (input) TIMEOUT_TIME :: int where "TIMEOUT_TIME \<equiv> 100000"
abbreviation (input) CONN_RESEND_TIME :: int where "CONN_RESEND_TIME \<equiv> 5000000"

record timespec =
  tv_sec :: int
  tv_nsec :: int

definition get_current_timestamp :: "timespec \<Rightarrow> int" where
  "get_current_timestamp ts = tv_sec ts * 1000000 + tv_nsec ts div 1000"

definition is_timeout_tx :: "timespec \<Rightarrow> int \<Rightarrow> bool" where
  "is_timeout_tx ts ref_time \<longleftrightarrow> get_current_timestamp ts - ref_time \<ge> TIMEOUT_TIME"

definition is_timeout_tx_half :: "timespec \<Rightarrow> int \<Rightarrow> bool" where
  "is_timeout_tx_half ts ref_time \<longleftrightarrow> get_current_timestamp ts - ref_time \<ge> TIMEOUT_TIME div 2"

text \<open>\<open>check_timer\<close> divides a possibly negative difference of nanoseconds: C truncates towards zero.\<close>

definition trunc_div :: "int \<Rightarrow> int \<Rightarrow> int" where
  "trunc_div a b = sgn a * sgn b * (\<bar>a\<bar> div \<bar>b\<bar>)"

definition check_timer :: "timespec \<Rightarrow> timespec \<Rightarrow> int" where
  "check_timer now start =
     (let elapsed_us = (tv_sec now - tv_sec start) * 1000000 +
                       trunc_div (tv_nsec now - tv_nsec start) 1000
      in if elapsed_us \<ge> CONN_RESEND_TIME then 1 else 0)"

definition ts_wf :: "timespec \<Rightarrow> bool" where
  "ts_wf ts \<longleftrightarrow> 0 \<le> tv_sec ts \<and> 0 \<le> tv_nsec ts \<and> tv_nsec ts < 1000000000"

lemma timeout_implies_half: "is_timeout_tx ts t \<Longrightarrow> is_timeout_tx_half ts t"
  by (simp add: is_timeout_tx_def is_timeout_tx_half_def)

lemma timestamp_mono:
  assumes "ts_wf a" "ts_wf b" "tv_sec a < tv_sec b \<or> tv_sec a = tv_sec b \<and> tv_nsec a \<le> tv_nsec b"
  shows "get_current_timestamp a \<le> get_current_timestamp b"
proof (cases "tv_sec a = tv_sec b")
  case True
  then show ?thesis using assms(3) by (simp add: get_current_timestamp_def zdiv_mono1)
next
  case False
  moreover have "tv_nsec a div 1000 < 1000000" "0 \<le> tv_nsec b div 1000"
    using assms by (auto simp: ts_wf_def)
  ultimately show ?thesis using assms(3) by (simp add: get_current_timestamp_def)
qed

section \<open>Properties\<close>

text \<open>
  The two time-outs are ordered and monotone: when the full time-out of a frame has passed its half
  time-out has passed too, and once a time-out has passed it has passed at every later clock value.
\<close>

theorem timeout_monotone:
  assumes "ts_wf a" "ts_wf b" "tv_sec a < tv_sec b \<or> tv_sec a = tv_sec b \<and> tv_nsec a \<le> tv_nsec b"
    and "is_timeout_tx a t"
  shows "is_timeout_tx b t \<and> is_timeout_tx_half b t"
proof -
  have "is_timeout_tx b t" using timestamp_mono [OF assms(1-3)] assms(4) by (simp add: is_timeout_tx_def)
  then show ?thesis using timeout_implies_half by blast
qed

theorem timeout_monotone_witness:
  "is_timeout_tx \<lparr>tv_sec = 2, tv_nsec = 5\<rparr> 1000000 \<and> is_timeout_tx_half \<lparr>tv_sec = 2, tv_nsec = 5\<rparr> 1000000"
  using timeout_monotone [of "\<lparr>tv_sec = 1, tv_nsec = 200000000\<rparr>" "\<lparr>tv_sec = 2, tv_nsec = 5\<rparr>" 1000000]
  by (simp add: ts_wf_def is_timeout_tx_def get_current_timestamp_def)

end
