(* ===== verification/Endpoint_State.thy ===== *)
theory Endpoint_State
  imports Circular_Queue Flow_Control Timeout
begin

text \<open>
  The state of an endpoint (\<^verbatim>\<open>tloe_endpoint.h\<close>), the elements of its retransmit buffer
  (\<^verbatim>\<open>retransmission.h\<close>) and the fabric dispatch table (\<^verbatim>\<open>tloe_fabric.h\<close>, \<^verbatim>\<open>tloe_fabric.c\<close>).
\<close>

section \<open>The fabric\<close>

datatype tloe_fabric_type_t = TLOE_FABRIC_ETHER | TLOE_FABRIC_MQ

record TloeMQ =
  mq_tx :: int
  mq_rx :: int

record sockaddr_ll =
  sll_ifindex :: int
  sll_halen :: nat
  sll_addr :: "byte list"

record TloeEther =
  sock :: int
  sll :: sockaddr_ll
  dest_mac :: "byte list"
  src_mac :: "byte list"
  ether_type :: "16 word"

datatype fabric_handle = Ether TloeEther | MQ TloeMQ

text \<open>
  The dispatch table: \<open>ops\<close> is the installed table of function pointers (\<open>None\<close> for a zeroed
  struct, whose pointers are all null) and \<open>handle\<close> the object the backend's \<^verbatim>\<open>open\<close> returned.
\<close>

record tloe_fabric_ops_t =
  ops :: "tloe_fabric_type_t option"
  handle :: "fabric_handle option"
  dev_name :: string
  dev_opt :: string

definition zero_fabric_ops :: tloe_fabric_ops_t where
  "zero_fabric_ops = \<lparr>ops = None, handle = None, dev_name = [], dev_opt = []\<rparr>"

section \<open>Retransmit buffer elements\<close>

abbreviation (input) TLOE_INIT :: nat where "TLOE_INIT \<equiv> 1"
abbreviation (input) TLOE_SENT :: nat where "TLOE_SENT \<equiv> 2"
abbreviation (input) TLOE_RESENT :: nat where "TLOE_RESENT \<equiv> 4"
abbreviation (input) WINDOW_SIZE :: nat where "WINDOW_SIZE \<equiv> 4"

record RetransmitBufferElement =
  rbe_state :: nat
  f_size :: int
  send_time :: int
  tloe_frame :: tloe_frame_t

section \<open>The endpoint\<close>

text \<open>
  The sequence numbers are declared \<^verbatim>\<open>int\<close> (\<^verbatim>\<open>next_tx_seq\<close>, \<^verbatim>\<open>next_rx_seq\<close>) and \<^verbatim>\<open>uint32_t\<close>
  (\<^verbatim>\<open>acked_seq\<close>); they are only copied and converted to \<^verbatim>\<open>uint32_t\<close>, so all three are 32-bit words
  here. Counters are 32-bit words. \<open>fabric_sent\<close> logs, in order, the packets handed to the backend's
  \<^verbatim>\<open>send\<close>: no caller looks at its result.
\<close>

record tloe_endpoint_t =
  fabric_ops :: tloe_fabric_ops_t
  retransmit_buffer :: "RetransmitBufferElement CircularQueue"
  message_buffer :: "tl_msg_t CircularQueue"
  ack_buffer :: "tloe_frame_t CircularQueue"
  tl_msg_buffer :: "tl_msg_t CircularQueue"
  response_buffer :: "tl_msg_t CircularQueue"
  iteration_ts :: timespec
  fc :: flowcontrol_t
  connection :: int
  master :: int
  is_done :: int
  fabric_type :: int
  next_tx_seq :: u32
  next_rx_seq :: u32
  acked_seq :: u32
  should_send_ackonly_frame :: bool
  ackonly_frame_sent :: bool
  ack_cnt :: u32
  dup_cnt :: u32
  oos_cnt :: u32
  drop_cnt :: u32
  accessack_cnt :: u32
  accessackdata_cnt :: u32
  ackonly_cnt :: u32
  drop_npacket_size :: u32
  drop_npacket_cnt :: u32
  drop_tlmsg_cnt :: u32
  drop_response_cnt :: u32
  fabric_sent :: "byte list list"

text \<open>
  The zeroed struct that \<^verbatim>\<open>main\<close> allocates. A null queue pointer is represented by a queue of size 0,
  which \<open>create_queue\<close> never returns in this program.
\<close>

definition null_queue :: "'a CircularQueue" where
  "null_queue = \<lparr>front = 0, rear = 0, qsize = 0, data = []\<rparr>"

definition queue_ptr :: "'a CircularQueue \<Rightarrow> 'a CircularQueue option" where
  "queue_ptr q = (if qsize q = 0 then None else Some q)"

definition zero_endpoint :: tloe_endpoint_t where
  "zero_endpoint = \<lparr>fabric_ops = zero_fabric_ops, retransmit_buffer = null_queue,
     message_buffer = null_queue, ack_buffer = null_queue, tl_msg_buffer = null_queue,
     response_buffer = null_queue, iteration_ts = \<lparr>tv_sec = 0, tv_nsec = 0\<rparr>, fc = zero_flowcontrol,
     connection = 0, master = 0, is_done = 0, fabric_type = 0, next_tx_seq = 0, next_rx_seq = 0,
     acked_seq = 0, should_send_ackonly_frame = False, ackonly_frame_sent = False, ack_cnt = 0,
     dup_cnt = 0, oos_cnt = 0, drop_cnt = 0, accessack_cnt = 0, accessackdata_cnt = 0,
     ackonly_cnt = 0, drop_npacket_size = 0, drop_npacket_cnt = 0, drop_tlmsg_cnt = 0,
     drop_response_cnt = 0, fabric_sent = []\<rparr>"

section \<open>Fabric operations\<close>

text \<open>The two static tables.\<close>

definition ether_ops :: tloe_fabric_ops_t where
  "ether_ops = \<lparr>ops = Some TLOE_FABRIC_ETHER, handle = None, dev_name = [], dev_opt = []\<rparr>"

definition mq_ops :: tloe_fabric_ops_t where
  "mq_ops = \<lparr>ops = Some TLOE_FABRIC_MQ, handle = None, dev_name = [], dev_opt = []\<rparr>"

text \<open>\<open>tloe_fabric_init\<close>: the media type is a C enum, any other value is rejected.\<close>

definition tloe_fabric_init :: "tloe_endpoint_t \<Rightarrow> int \<Rightarrow> int \<times> tloe_endpoint_t" where
  "tloe_fabric_init ep media_type =
     (if media_type = 0 then (0, ep\<lparr>fabric_ops := ether_ops\<rparr>)
      else if media_type = 1 then (0, ep\<lparr>fabric_ops := mq_ops\<rparr>)
      else (-1, ep))"

definition tloe_fabric_send :: "tloe_endpoint_t \<Rightarrow> byte list \<Rightarrow> tloe_endpoint_t" where
  "tloe_fabric_send ep buf =
     (if ops (fabric_ops ep) = None \<or> handle (fabric_ops ep) = None then ep
      else ep\<lparr>fabric_sent := fabric_sent ep @ [buf]\<rparr>)"

text \<open>
  What a receive would deliver is an argument: the value the backend's \<^verbatim>\<open>recv\<close> returns, as the
  callers' \<^verbatim>\<open>int size\<close>, and the contents of the receive buffer afterwards.
\<close>

type_synonym recv_result = "int \<times> byte list"

definition tloe_fabric_recv :: "tloe_endpoint_t \<Rightarrow> recv_result \<Rightarrow> recv_result" where
  "tloe_fabric_recv ep rx =
     (if ops (fabric_ops ep) = None \<or> handle (fabric_ops ep) = None then (-1, snd rx) else rx)"

text \<open>
  The \<^verbatim>\<open>open\<close> functions of the tables are an argument, with the state \<open>'w\<close> of the operating system they work on;
  they return a handle or null, or stop the program.
\<close>

type_synonym 'w backend_open = "tloe_fabric_type_t \<Rightarrow> string \<Rightarrow> string \<Rightarrow> int \<Rightarrow> 'w \<Rightarrow> (fabric_handle option \<times> 'w) run"

definition tloe_fabric_open ::
  "'w backend_open \<Rightarrow> 'w \<Rightarrow> tloe_endpoint_t \<Rightarrow> string \<Rightarrow> string \<Rightarrow> int \<Rightarrow> (int \<times> 'w \<times> tloe_endpoint_t) run" where
  "tloe_fabric_open backend_open w ep name opt qp =
     (case ops (fabric_ops ep) of
        None \<Rightarrow> Inr (-1, w, ep)
      | Some t \<Rightarrow>
          bind_run (backend_open t name opt qp w) (\<lambda>(h, w).
          Inr (if h \<noteq> None then 0 else -1, w,
               ep\<lparr>fabric_ops := (fabric_ops ep)\<lparr>dev_name := name, dev_opt := opt, handle := h\<rparr>\<rparr>)))"

definition tloe_fabric_close :: "tloe_endpoint_t \<Rightarrow> tloe_endpoint_t" where
  "tloe_fabric_close ep =
     (if ops (fabric_ops ep) = None \<or> handle (fabric_ops ep) = None then ep
      else ep\<lparr>fabric_ops := (fabric_ops ep)\<lparr>handle := None\<rparr>\<rparr>)"

definition fabric_up :: "tloe_endpoint_t \<Rightarrow> bool" where
  "fabric_up ep \<longleftrightarrow> ops (fabric_ops ep) \<noteq> None \<and> handle (fabric_ops ep) \<noteq> None"

lemma tloe_fabric_send_up:
  "fabric_up ep \<Longrightarrow> tloe_fabric_send ep d = ep\<lparr>fabric_sent := fabric_sent ep @ [d]\<rparr>"
  by (simp add: tloe_fabric_send_def fabric_up_def)

lemma tloe_fabric_recv_up: "fabric_up ep \<Longrightarrow> tloe_fabric_recv ep rx = rx"
  by (auto simp: tloe_fabric_recv_def fabric_up_def)

lemma tloe_fabric_send_frame [simp]:
  "fabric_ops (tloe_fabric_send ep d) = fabric_ops ep"
  "retransmit_buffer (tloe_fabric_send ep d) = retransmit_buffer ep"
  "message_buffer (tloe_fabric_send ep d) = message_buffer ep"
  "ack_buffer (tloe_fabric_send ep d) = ack_buffer ep"
  "tl_msg_buffer (tloe_fabric_send ep d) = tl_msg_buffer ep"
  "response_buffer (tloe_fabric_send ep d) = response_buffer ep"
  "iteration_ts (tloe_fabric_send ep d) = iteration_ts ep"
  "fc (tloe_fabric_send ep d) = fc ep"
  "connection (tloe_fabric_send ep d) = connection ep"
  "next_tx_seq (tloe_fabric_send ep d) = next_tx_seq ep"
  "next_rx_seq (tloe_fabric_send ep d) = next_rx_seq ep"
  "acked_seq (tloe_fabric_send ep d) = acked_seq ep"
  "should_send_ackonly_frame (tloe_fabric_send ep d) = should_send_ackonly_frame ep"
  "ackonly_frame_sent (tloe_fabric_send ep d) = ackonly_frame_sent ep"
  by (simp_all add: tloe_fabric_send_def)

end
