(* ===== verification/Seq_Mgr.thy ===== *)
theory Seq_Mgr
  imports Endpoint_State
begin

text \<open>
  Sequence numbers (\<^verbatim>\<open>tloe_seq_mgr.c\<close>): 22-bit serial numbers with a wrap-around comparison, and the
  functions that copy them between endpoint and frame.
\<close>

abbreviation (input) MAX_SEQ_NUM :: u32 where "MAX_SEQ_NUM \<equiv> 4194303"
abbreviation (input) HALF_MAX_SEQ_NUM :: int where "HALF_MAX_SEQ_NUM \<equiv> 2097152"

section \<open>Operations\<close>

definition tloe_seqnum_cmp :: "u32 \<Rightarrow> u32 \<Rightarrow> int" where
  "tloe_seqnum_cmp a b =
     (let diff = sint (a - b) in
      if diff = 0 then 0
      else if diff > 0 then (if diff < HALF_MAX_SEQ_NUM then 1 else -1)
      else (if - diff < HALF_MAX_SEQ_NUM then -1 else 1))"

definition tloe_seqnum_prev :: "u32 \<Rightarrow> u32" where
  "tloe_seqnum_prev seq_num =
     (let t = sint seq_num - 1 in if t < 0 then MAX_SEQ_NUM else word_of_int t)"

definition tloe_seqnum_next :: "u32 \<Rightarrow> u32" where
  "tloe_seqnum_next seq_num = and (seq_num + 1) MAX_SEQ_NUM"

definition tloe_seqnum_next_tx_seq_inc :: "tloe_endpoint_t \<Rightarrow> tloe_endpoint_t" where
  "tloe_seqnum_next_tx_seq_inc ep = ep\<lparr>next_tx_seq := tloe_seqnum_next (next_tx_seq ep)\<rparr>"

definition tloe_seqnum_set_next_tx_seq :: "tloe_frame_t \<Rightarrow> tloe_endpoint_t \<Rightarrow> tloe_frame_t" where
  "tloe_seqnum_set_next_tx_seq frame ep =
     frame\<lparr>f_header := (f_header frame)\<lparr>h_seq_num := ucast (next_tx_seq ep)\<rparr>\<rparr>"

definition tloe_seqnum_set_seq_num_ack :: "tloe_frame_t \<Rightarrow> tloe_endpoint_t \<Rightarrow> tloe_frame_t" where
  "tloe_seqnum_set_seq_num_ack frame ep =
     frame\<lparr>f_header := (f_header frame)\<lparr>h_seq_num_ack := ucast (tloe_seqnum_prev (next_rx_seq ep))\<rparr>\<rparr>"

definition tloe_seqnum_set_next_and_acked_seq :: "tloe_frame_t \<Rightarrow> tloe_endpoint_t \<Rightarrow> tloe_frame_t" where
  "tloe_seqnum_set_next_and_acked_seq frame ep =
     tloe_seqnum_set_seq_num_ack (tloe_seqnum_set_next_tx_seq frame ep) ep"

definition tloe_seqnum_update_next_rx_seq :: "tloe_endpoint_t \<Rightarrow> tloe_frame_t \<Rightarrow> tloe_endpoint_t" where
  "tloe_seqnum_update_next_rx_seq ep frame =
     ep\<lparr>next_rx_seq := tloe_seqnum_next (ucast (h_seq_num (f_header frame)))\<rparr>"

definition tloe_seqnum_update_acked_seq :: "tloe_endpoint_t \<Rightarrow> tloe_frame_t \<Rightarrow> tloe_endpoint_t" where
  "tloe_seqnum_update_acked_seq ep frame =
     (if tloe_seqnum_cmp (ucast (h_seq_num_ack (f_header frame))) (acked_seq ep) > 0
      then ep\<lparr>acked_seq := ucast (h_seq_num_ack (f_header frame))\<rparr> else ep)"

definition tloe_seqnum_set_seq_num :: "tloe_frame_t \<Rightarrow> u32 \<Rightarrow> tloe_frame_t" where
  "tloe_seqnum_set_seq_num frame seq_num =
     frame\<lparr>f_header := (f_header frame)\<lparr>h_seq_num := ucast seq_num\<rparr>\<rparr>"

definition tloe_seqnum_set_frame_seq_num_ack :: "tloe_frame_t \<Rightarrow> u32 \<Rightarrow> tloe_frame_t" where
  "tloe_seqnum_set_frame_seq_num_ack frame seq_num_ack =
     frame\<lparr>f_header := (f_header frame)\<lparr>h_seq_num_ack := ucast seq_num_ack\<rparr>\<rparr>"

section \<open>Serial-number arithmetic\<close>

text \<open>The \<open>n\<close>-th sequence number counted from 0, as a word.\<close>

definition seq_of :: "nat \<Rightarrow> u32" where
  "seq_of n = of_nat (n mod 2 ^ 22)"

definition seq_wf :: "u32 \<Rightarrow> bool" where
  "seq_wf s \<longleftrightarrow> s \<le> MAX_SEQ_NUM"

lemma unat_seq_of: "unat (seq_of n) = n mod 2 ^ 22"
proof -
  have "n mod 2 ^ 22 < 2 ^ 32" by (rule less_trans [of _ "2 ^ 22"]) auto
  then show ?thesis by (simp add: seq_of_def unat_of_nat)
qed

lemma seq_wf_unat: "seq_wf s \<longleftrightarrow> unat s < 2 ^ 22"
  by (auto simp: seq_wf_def word_le_nat_alt)

lemma seq_wf_seq_of [simp]: "seq_wf (seq_of n)"
  by (simp add: seq_wf_unat unat_seq_of)

lemma seq_of_unat: "seq_wf s \<Longrightarrow> seq_of (unat s) = s"
  by (simp add: seq_wf_unat seq_of_def)

lemma seq_of_eq_iff: "seq_of m = seq_of n \<longleftrightarrow> m mod 2 ^ 22 = n mod 2 ^ 22"
  by (metis unat_seq_of seq_of_def)

lemma sint_diff_small:
  assumes "seq_wf a" "seq_wf b"
  shows "sint (a - b) = int (unat a) - int (unat b)"
proof -
  have "a - b = word_of_int (uint a - uint b)" by (simp only: of_int_diff) simp
  then have "sint (a - b) = signed_take_bit 31 (uint a - uint b)"
    by (simp only: sint_sbintrunc') simp
  also have "\<dots> = uint a - uint b"
  proof (rule signed_take_bit_int_eq_self)
    have "uint a < 4194304" "uint b < 4194304" "0 \<le> uint a" "0 \<le> uint b"
      using assms by (auto simp: seq_wf_unat uint_nat simp del: of_nat_unat)
    then have "- 2147483648 \<le> uint a - uint b" "uint a - uint b < 2147483648" by (linarith, linarith)
    then show "- (2 ^ 31) \<le> uint a - uint b" "uint a - uint b < 2 ^ 31" by simp_all
  qed
  finally show ?thesis by simp
qed

lemma cmp_seq_of:
  assumes "m < n + 2 ^ 21" "n < m + 2 ^ 21"
  shows "tloe_seqnum_cmp (seq_of m) (seq_of n) = sgn (int m - int n)"
proof -
  obtain a r where a: "m = 2 ^ 22 * a + r" "r < 2 ^ 22" "m mod 2 ^ 22 = r"
    by (metis mod_less_divisor mult_div_mod_eq zero_less_numeral zero_less_power)
  obtain b t where b: "n = 2 ^ 22 * b + t" "t < 2 ^ 22" "n mod 2 ^ 22 = t"
    by (metis mod_less_divisor mult_div_mod_eq zero_less_numeral zero_less_power)
  have d: "sint (seq_of m - seq_of n) = int r - int t"
    using sint_diff_small [of "seq_of m" "seq_of n"] a(3) b(3) by (simp add: unat_seq_of)
  note cmp = tloe_seqnum_cmp_def [of "seq_of m" "seq_of n", unfolded Let_def d]
  have "a \<le> b + 1" "b \<le> a + 1" using assms a b by auto
  then consider "a = b" | "a = b + 1" | "b = a + 1" by linarith
  then show ?thesis
  proof cases
    case 1
    then show ?thesis unfolding cmp using assms a b by (auto simp: sgn_if)
  next
    case 2
    then show ?thesis unfolding cmp using assms a b by (auto simp: sgn_if)
  next
    case 3
    then show ?thesis unfolding cmp using assms a b by (auto simp: sgn_if)
  qed
qed

lemma cmp_antisym:
  assumes "seq_wf a" "seq_wf b"
  shows "tloe_seqnum_cmp a b = - tloe_seqnum_cmp b a"
  using sint_diff_small [OF assms] sint_diff_small [OF assms(2,1)]
  by (auto simp: tloe_seqnum_cmp_def Let_def)

lemma cmp_eq_0_iff:
  assumes "seq_wf a" "seq_wf b"
  shows "tloe_seqnum_cmp a b = 0 \<longleftrightarrow> a = b"
  using sint_diff_small [OF assms]
  by (auto simp: tloe_seqnum_cmp_def Let_def word_unat_eq_iff simp del: of_nat_unat)

lemma seqnum_next_seq_of: "tloe_seqnum_next (seq_of n) = seq_of (Suc n)"
proof -
  have "tloe_seqnum_next (seq_of n) = take_bit 22 (seq_of n + 1)"
    by (simp add: tloe_seqnum_next_def take_bit_eq_mask mask_eq_exp_minus_1)
  moreover have "unat (take_bit 22 (seq_of n + 1)) = Suc n mod 2 ^ 22"
    by (simp add: unsigned_take_bit_eq unat_seq_of unat_word_ariths take_bit_eq_mod mod_Suc_eq
        mod_mod_cancel)
  ultimately show ?thesis by (metis unat_seq_of word_unat_eq_iff)
qed

lemma sint_small: "seq_wf s \<Longrightarrow> sint s = int (unat s)"
  using sint_diff_small [of s 0] by (simp add: seq_wf_def)

lemma seqnum_prev_next: "seq_wf s \<Longrightarrow> tloe_seqnum_prev (tloe_seqnum_next s) = s"
proof -
  assume s: "seq_wf s"
  have n: "tloe_seqnum_next s = seq_of (Suc (unat s))"
    using seqnum_next_seq_of [of "unat s"] seq_of_unat [OF s] by simp
  show ?thesis
  proof (cases "unat s = 2 ^ 22 - 1")
    case True
    then have "tloe_seqnum_next s = 0" "s = MAX_SEQ_NUM"
      by (simp_all add: n seq_of_def word_unat_eq_iff)
    then show ?thesis by (simp add: tloe_seqnum_prev_def)
  next
    case False
    then have "Suc (unat s) mod 2 ^ 22 = Suc (unat s)" using s by (simp add: seq_wf_unat)
    then have "sint (tloe_seqnum_next s) = int (Suc (unat s))"
      by (simp only: n sint_small [OF seq_wf_seq_of] unat_seq_of)
    then show ?thesis by (simp add: tloe_seqnum_prev_def)
  qed
qed

lemma seqnum_prev_seq_of: "tloe_seqnum_prev (seq_of (Suc n)) = seq_of n"
  using seqnum_prev_next [OF seq_wf_seq_of, of n] by (simp add: seqnum_next_seq_of)

lemma seq_wf_next [simp]: "seq_wf s \<Longrightarrow> seq_wf (tloe_seqnum_next s)"
  using seqnum_next_seq_of [of "unat s"] by (simp add: seq_of_unat)

lemma seqnum_next_prev:
  assumes "seq_wf s"
  shows "tloe_seqnum_next (tloe_seqnum_prev s) = s"
proof -
  have s: "s = seq_of (Suc (unat s + (2 ^ 22 - 1)))"
    using seq_of_unat [OF assms] by (simp add: seq_of_def)
  then have "tloe_seqnum_prev s = seq_of (unat s + (2 ^ 22 - 1))"
    using seqnum_prev_seq_of by metis
  then show ?thesis using s by (simp add: seqnum_next_seq_of)
qed

lemma seq_wf_prev [simp]: "seq_wf s \<Longrightarrow> seq_wf (tloe_seqnum_prev s)"
proof -
  assume "seq_wf s"
  then have "s = seq_of (Suc (unat s + (2 ^ 22 - 1)))"
    using seq_of_unat by (simp add: seq_of_def)
  then have "tloe_seqnum_prev s = seq_of (unat s + (2 ^ 22 - 1))"
    using seqnum_prev_seq_of by metis
  then show ?thesis by simp
qed

text \<open>The 22-bit header fields hold every sequence number exactly.\<close>

lemma ucast_seq [simp]:
  assumes "seq_wf s"
  shows "ucast (ucast s :: 22 word) = s"
proof -
  have "take_bit 22 (unat s) = unat s" using assms by (simp add: seq_wf_unat take_bit_nat_eq_self)
  moreover have "take_bit 32 (unat s) = unat s"
    using assms by (simp add: seq_wf_unat take_bit_nat_eq_self)
  ultimately show ?thesis by (simp only: word_unat_eq_iff unsigned_ucast_eq) (simp add: unsigned_take_bit_eq)
qed

lemma ucast_field [simp]: "ucast (ucast w :: u32) = w" for w :: "22 word"
  by (rule bit_eqI) (auto simp: bit_simps)

lemma seq_wf_ucast [simp]: "seq_wf (ucast (w :: 22 word))"
proof -
  have "unat w < 2 ^ 22" using unsigned_less [of w, where 'a = nat] by simp
  then show ?thesis by (simp add: seq_wf_unat unsigned_ucast_eq take_bit_nat_eq_self)
qed

section \<open>Properties\<close>

text \<open>
  C29: \<open>tloe_seqnum_cmp\<close> orders sequence numbers across the wrap-around: for frames counted without
  wrap-around that are less than half the number space apart, it returns the sign of the difference
  of the counts.
\<close>

theorem seqnum_cmp_window:
  assumes "\<bar>int m - int n\<bar> < 2 ^ 21"
  shows "tloe_seqnum_cmp (seq_of m) (seq_of n) = sgn (int m - int n)"
  using assms by (intro cmp_seq_of) auto

theorem seqnum_cmp_window_witness:
  "tloe_seqnum_cmp (seq_of 4194305) (seq_of 4194303) = 1 \<and> seq_of 4194305 = 1 \<and> seq_of 4194303 = 4194303"
  using seqnum_cmp_window [of 4194305 4194303] by (simp add: seq_of_def)

text \<open>
  \<open>tloe_seqnum_next\<close> and \<open>tloe_seqnum_prev\<close> are inverse to each other on the 22-bit numbers, stay
  within them, and step the count by one.
\<close>

theorem seqnum_next_prev_inverse:
  assumes "seq_wf s"
  shows "tloe_seqnum_prev (tloe_seqnum_next s) = s \<and> tloe_seqnum_next (tloe_seqnum_prev s) = s \<and>
    seq_wf (tloe_seqnum_next s) \<and> seq_wf (tloe_seqnum_prev s) \<and>
    (\<forall>n. tloe_seqnum_next (seq_of n) = seq_of (Suc n))"
  using assms seqnum_prev_next seqnum_next_prev seqnum_next_seq_of by simp

theorem seqnum_next_prev_inverse_witness:
  "tloe_seqnum_prev (tloe_seqnum_next 4194303) = 4194303 \<and> tloe_seqnum_next (tloe_seqnum_prev 4194303) = 4194303 \<and>
   seq_wf (tloe_seqnum_next 4194303) \<and> seq_wf (tloe_seqnum_prev 4194303) \<and>
   (\<forall>n. tloe_seqnum_next (seq_of n) = seq_of (Suc n))"
  using seqnum_next_prev_inverse [of 4194303] by (simp add: seq_wf_def)

end
