(* ===== verification/Retransmission.thy ===== *)
theory Retransmission
  imports Seq_Mgr
begin

text \<open>
  The retransmit buffer (\<^verbatim>\<open>retransmission.c\<close>): sliding the window on an acknowledgement, sending
  unacknowledged frames again, and finding the oldest element.
\<close>

section \<open>Operations\<close>

abbreviation rbe_seq :: "RetransmitBufferElement \<Rightarrow> u32" where
  "rbe_seq el \<equiv> ucast (h_seq_num (f_header (tloe_frame el)))"

definition retransmit_body :: "u32 \<Rightarrow> nat \<Rightarrow> tloe_endpoint_t \<Rightarrow> tloe_endpoint_t run" where
  "retransmit_body seq_num i e =
     (case data (retransmit_buffer e) ! i of
        None \<Rightarrow> Inl Undefined
      | Some element \<Rightarrow>
          if tloe_seqnum_cmp (rbe_seq element) seq_num < 0 then Inr e
          else
            let frame = tloe_seqnum_set_seq_num_ack (tloe_frame element) e in
            bind_run (tloe_frame_to_packet frame (f_size element)) (\<lambda>send_buffer.
              let e1 = tloe_fabric_send e send_buffer;
                  element' = element\<lparr>rbe_state := TLOE_RESENT,
                               send_time := get_current_timestamp (iteration_ts e)\<rparr>
              in Inr (e1\<lparr>retransmit_buffer := (retransmit_buffer e1)
                   \<lparr>data := (data (retransmit_buffer e1))[i := Some element']\<rparr>\<rparr>)))"

text \<open>\<^verbatim>\<open>retransmit\<close> returns a counter that it never increments; no caller uses it.\<close>

definition retransmit :: "tloe_endpoint_t \<Rightarrow> u32 \<Rightarrow> tloe_endpoint_t run" where
  "retransmit e seq_num = queue_loop (retransmit_buffer e) (retransmit_body seq_num) e"

text \<open>The fuel counts the tests of the \<^verbatim>\<open>while\<close> loop; every pass removes an element.\<close>

fun slide_window_loop ::
  "nat \<Rightarrow> RetransmitBufferElement CircularQueue \<Rightarrow> u32 \<Rightarrow> RetransmitBufferElement CircularQueue run" where
  "slide_window_loop 0 q ack = Inl Diverge"
| "slide_window_loop (Suc fuel) q ack =
     (case getfront q of
        None \<Rightarrow> Inr q
      | Some rbe \<Rightarrow>
          if tloe_seqnum_cmp (rbe_seq rbe) ack > 0 then Inr q
          else slide_window_loop fuel (snd (dequeue q)) ack)"

definition slide_window :: "tloe_endpoint_t \<Rightarrow> tloe_frame_t \<Rightarrow> tloe_endpoint_t run" where
  "slide_window e frame =
     bind_run (slide_window_loop (qsize (retransmit_buffer e) + 1) (retransmit_buffer e)
                 (ucast (h_seq_num_ack (f_header frame))))
       (\<lambda>q. Inr (e\<lparr>retransmit_buffer := q\<rparr>))"

fun get_earliest_loop ::
  "nat \<Rightarrow> RetransmitBufferElement CircularQueue \<Rightarrow> nat \<Rightarrow> RetransmitBufferElement option run" where
  "get_earliest_loop 0 q i = Inl Diverge"
| "get_earliest_loop (Suc fuel) q i =
     (if i = rear q then Inr None
      else case data q ! i of
             None \<Rightarrow> Inl Undefined
           | Some element \<Rightarrow>
               if send_time element = 0 then get_earliest_loop fuel q ((i + 1) mod qsize q)
               else Inr (Some element))"

definition get_earliest_element ::
  "RetransmitBufferElement CircularQueue \<Rightarrow> RetransmitBufferElement option run" where
  "get_earliest_element q = get_earliest_loop (qsize q + 1) q (front q)"

section \<open>Sliding the window\<close>

lemma slide_window_loop_list:
  assumes "q_inv q" "q_len q < fuel"
  shows "\<exists>q'. slide_window_loop fuel q ack = Inr q' \<and> q_inv q' \<and> q_cap q' = q_cap q \<and>
    queue_list q' = dropWhile (\<lambda>r. tloe_seqnum_cmp (rbe_seq r) ack \<le> 0) (queue_list q)"
  using assms
proof (induction fuel arbitrary: q)
  case 0
  then show ?case by simp
next
  case (Suc fuel)
  show ?case
  proof (cases "queue_list q")
    case Nil
    then show ?thesis using Suc.prems by (simp add: cq.peek_contents)
  next
    case (Cons r rs)
    then have fr: "getfront q = Some r" using Suc.prems by (simp add: cq.peek_contents)
    show ?thesis
    proof (cases "tloe_seqnum_cmp (rbe_seq r) ack > 0")
      case True
      then show ?thesis using Cons fr Suc.prems by simp
    next
      case False
      let ?q' = "snd (dequeue q)"
      have tl: "queue_list ?q' = rs" "q_inv ?q'" "q_cap ?q' = q_cap q"
        using Cons Suc.prems by (simp_all add: cq.deq_contents cq.deq_inv cq.deq_cap)
      then have "q_len ?q' < fuel"
        using Suc.prems Cons by (metis Suc_less_SucD length_Cons length_queue_list less_SucE less_Suc_eq
            not_less_eq)
      from Suc.IH [OF tl(2) this] tl False Cons fr show ?thesis by simp
    qed
  qed
qed

lemma slide_window_spec:
  fixes e frame
  defines "ack \<equiv> ucast (h_seq_num_ack (f_header frame))"
  assumes "q_inv (retransmit_buffer e)"
  shows "\<exists>q'. slide_window e frame = Inr (e\<lparr>retransmit_buffer := q'\<rparr>) \<and> q_inv q' \<and>
    q_cap q' = q_cap (retransmit_buffer e) \<and>
    queue_list q' = dropWhile (\<lambda>r. tloe_seqnum_cmp (rbe_seq r) ack \<le> 0)
      (queue_list (retransmit_buffer e))"
  using slide_window_loop_list [OF assms(2), of "qsize (retransmit_buffer e) + 1" ack]
    q_len_less [OF assms(2)]
  by (auto simp: slide_window_def ack_def)

lemma dropWhile_map_upt:
  assumes "\<And>i. lo \<le> i \<Longrightarrow> i < hi \<Longrightarrow> P (f i) \<longleftrightarrow> i < m"
  shows "dropWhile P (map f [lo..<hi]) = map f [max lo m..<hi]"
  using assms
proof (induction "hi - lo" arbitrary: lo)
  case 0
  then show ?case by simp
next
  case (Suc n)
  then have lo: "lo < hi" by simp
  show ?case
  proof (cases "lo < m")
    case True
    have "dropWhile P (map f [Suc lo..<hi]) = map f [max (Suc lo) m..<hi]"
      using Suc by (intro Suc.hyps) auto
    then show ?thesis using True lo Suc.prems [of lo] by (simp add: upt_conv_Cons max_def)
  next
    case False
    then show ?thesis using lo Suc.prems [of lo] by (simp add: upt_conv_Cons max_def)
  qed
qed

section \<open>Retransmitting\<close>

text \<open>
  Elements that fit: \<open>tloe_frame\<close> is a whole frame object and the recorded size is within the flit
  array, so that building a packet is defined.
\<close>

definition rbe_ok :: "RetransmitBufferElement \<Rightarrow> bool" where
  "rbe_ok el \<longleftrightarrow> length (flits (tloe_frame el)) = MAX_SIZE_FLIT \<and> 56 \<le> f_size el \<and> f_size el \<le> 528"

definition resend_packet :: "tloe_endpoint_t \<Rightarrow> RetransmitBufferElement \<Rightarrow> byte list" where
  "resend_packet e el =
     projr (tloe_frame_to_packet (tloe_seqnum_set_seq_num_ack (tloe_frame el) e) (f_size el))"

definition mark_resent :: "tloe_endpoint_t \<Rightarrow> u32 \<Rightarrow> RetransmitBufferElement \<Rightarrow> RetransmitBufferElement" where
  "mark_resent e seq_num el =
     (if tloe_seqnum_cmp (rbe_seq el) seq_num < 0 then el
      else el\<lparr>rbe_state := TLOE_RESENT, send_time := get_current_timestamp (iteration_ts e)\<rparr>)"

lemma frame_to_packet_ok:
  "length (flits f) = MAX_SIZE_FLIT \<Longrightarrow> 0 \<le> sz \<Longrightarrow> sz \<le> 528 \<Longrightarrow> \<exists>p. tloe_frame_to_packet f sz = Inr p"
  by (auto simp: tloe_frame_to_packet_def Let_def)

lemma resend_packet_Inr:
  assumes "rbe_ok el"
  shows "tloe_frame_to_packet (tloe_seqnum_set_seq_num_ack (tloe_frame el) e) (f_size el) =
    Inr (resend_packet e el)"
proof -
  have "\<exists>p. tloe_frame_to_packet (tloe_seqnum_set_seq_num_ack (tloe_frame el) e) (f_size el) = Inr p"
    by (rule frame_to_packet_ok) (use assms in \<open>auto simp: rbe_ok_def tloe_seqnum_set_seq_num_ack_def\<close>)
  then show ?thesis by (auto simp: resend_packet_def)
qed

lemma rbe_seq_mark_resent [simp]: "rbe_seq (mark_resent e s el) = rbe_seq el"
  by (simp add: mark_resent_def)

lemma rbe_ok_mark_resent [simp]: "rbe_ok (mark_resent e s el) = rbe_ok el"
  by (simp add: mark_resent_def rbe_ok_def)

abbreviation resends :: "u32 \<Rightarrow> RetransmitBufferElement \<Rightarrow> bool" where
  "resends seq_num el \<equiv> \<not> tloe_seqnum_cmp (rbe_seq el) seq_num < 0"

lemma resend_packet_cong: "next_rx_seq e = next_rx_seq e' \<Longrightarrow> resend_packet e el = resend_packet e' el"
  by (simp add: resend_packet_def tloe_seqnum_set_seq_num_ack_def)

lemma retransmit_body_ok:
  assumes "data (retransmit_buffer e) ! i = Some el" "rbe_ok el" "fabric_up e"
  shows "retransmit_body s i e = Inr (e\<lparr>
    retransmit_buffer := (retransmit_buffer e)
      \<lparr>data := (data (retransmit_buffer e))[i := Some (mark_resent e s el)]\<rparr>,
    fabric_sent := fabric_sent e @ (if resends s el then [resend_packet e el] else [])\<rparr>)"
proof (cases "resends s el")
  case True
  then show ?thesis
    using assms resend_packet_Inr [OF assms(2), of e] tloe_fabric_send_up [OF assms(3)]
    by (simp add: retransmit_body_def mark_resent_def Let_def)
next
  case False
  have "(data (retransmit_buffer e))[i := Some el] = data (retransmit_buffer e)"
    using assms(1) list_update_id by metis
  then show ?thesis using False assms by (simp add: retransmit_body_def mark_resent_def)
qed

lemma retransmit_prefix:
  fixes e s
  defines "rb \<equiv> retransmit_buffer e" and "xs \<equiv> queue_list (retransmit_buffer e)"
  assumes inv: "q_inv rb" and ok: "\<forall>el \<in> set xs. rbe_ok el" and up: "fabric_up e"
    and j: "j \<le> q_len rb"
  shows "\<exists>d. fold_run (retransmit_body s) (map (slot rb) [0..<j]) e =
      Inr (e\<lparr>retransmit_buffer := rb\<lparr>data := d\<rparr>,
             fabric_sent := fabric_sent e @ map (resend_packet e) (filter (resends s) (take j xs))\<rparr>) \<and>
    length d = length (data rb) \<and>
    (\<forall>k < q_len rb. d ! slot rb k = Some (if k < j then mark_resent e s (xs ! k) else xs ! k))"
  using j
proof (induction j)
  case 0
  then show ?case using data_slot [OF inv] by (intro exI [of _ "data rb"]) (simp add: rb_def xs_def)
next
  case (Suc j)
  then obtain d where d: "fold_run (retransmit_body s) (map (slot rb) [0..<j]) e =
      Inr (e\<lparr>retransmit_buffer := rb\<lparr>data := d\<rparr>,
             fabric_sent := fabric_sent e @ map (resend_packet e) (filter (resends s) (take j xs))\<rparr>)"
    "length d = length (data rb)"
    "\<forall>k < q_len rb. d ! slot rb k = Some (if k < j then mark_resent e s (xs ! k) else xs ! k)"
    by auto
  let ?e = "e\<lparr>retransmit_buffer := rb\<lparr>data := d\<rparr>,
             fabric_sent := fabric_sent e @ map (resend_packet e) (filter (resends s) (take j xs))\<rparr>"
  have len: "length xs = q_len rb" by (simp add: xs_def rb_def)
  have jl: "j < q_len rb" using Suc.prems by simp
  have el: "data (retransmit_buffer ?e) ! slot rb j = Some (xs ! j)" using d(3) jl by simp
  have okj: "rbe_ok (xs ! j)" using ok jl len by simp
  have up': "fabric_up ?e" using up by (simp add: fabric_up_def)
  have take: "take (Suc j) xs = take j xs @ [xs ! j]"
    using jl len by (simp add: take_Suc_conv_app_nth)
  have mk: "mark_resent ?e s = mark_resent e s" by (simp add: mark_resent_def fun_eq_iff)
  have rp: "resend_packet ?e (xs ! j) = resend_packet e (xs ! j)" by (rule resend_packet_cong) simp
  have sl: "slot rb j = slot rb k \<longleftrightarrow> j = k" if "k < q_len rb" for k
    using slot_inj [OF inv] that jl q_len_less [OF inv] by simp
  let ?d = "d[slot rb j := Some (mark_resent e s (xs ! j))]"
  have "fold_run (retransmit_body s) (map (slot rb) [0..<Suc j]) e =
      Inr (e\<lparr>retransmit_buffer := rb\<lparr>data := ?d\<rparr>,
             fabric_sent := fabric_sent e @ map (resend_packet e) (filter (resends s) (take (Suc j) xs))\<rparr>)"
    using d(1) retransmit_body_ok [OF el okj up', of s] by (simp add: fold_run_append take mk rp)
  moreover have "\<forall>k < q_len rb. ?d ! slot rb k =
      Some (if k < Suc j then mark_resent e s (xs ! k) else xs ! k)"
    using d(2,3) sl slot_less [OF inv] q_inv_index [OF inv] by (auto simp: nth_list_update less_Suc_eq)
  ultimately show ?case using d(2) by (intro exI [of _ ?d]) simp
qed

lemma retransmit_spec:
  assumes inv: "q_inv (retransmit_buffer e)"
    and ok: "\<forall>el \<in> set (queue_list (retransmit_buffer e)). rbe_ok el" and up: "fabric_up e"
  shows "\<exists>q'. retransmit e s = Inr (e\<lparr>retransmit_buffer := q',
      fabric_sent := fabric_sent e @
        map (resend_packet e) (filter (resends s) (queue_list (retransmit_buffer e)))\<rparr>) \<and>
    q_inv q' \<and> q_cap q' = q_cap (retransmit_buffer e) \<and>
    queue_list q' = map (mark_resent e s) (queue_list (retransmit_buffer e))"
proof -
  let ?rb = "retransmit_buffer e"
  obtain d where d: "fold_run (retransmit_body s) (live_slots ?rb) e =
      Inr (e\<lparr>retransmit_buffer := ?rb\<lparr>data := d\<rparr>,
             fabric_sent := fabric_sent e @
               map (resend_packet e) (filter (resends s) (queue_list ?rb))\<rparr>)"
    "length d = length (data ?rb)"
    "\<forall>k < q_len ?rb. d ! slot ?rb k = Some (mark_resent e s (queue_list ?rb ! k))"
    using retransmit_prefix [OF inv ok up order_refl] by (auto simp: live_slots_def)
  let ?q = "?rb\<lparr>data := d\<rparr>"
  have same: "q_len ?q = q_len ?rb" "slot ?q = slot ?rb" "q_cap ?q = q_cap ?rb"
    by (simp_all add: q_len_def slot_def q_cap_def fun_eq_iff)
  have "q_inv ?q" using inv d(2,3) same by (simp add: q_inv_def)
  moreover have "queue_list ?q = map (mark_resent e s) (queue_list ?rb)"
    by (rule nth_equalityI) (use d(3) same in \<open>auto simp: nth_queue_list\<close>)
  ultimately show ?thesis
    using d(1) same by (intro exI [of _ ?q]) (simp add: retransmit_def queue_loop_live [OF inv])
qed

section \<open>The oldest element\<close>

lemma get_earliest_loop_find:
  assumes "q_inv q" "k \<le> q_len q" "q_len q - k < fuel"
  shows "get_earliest_loop fuel q (slot q k) =
    Inr (find (\<lambda>el. send_time el \<noteq> 0) (drop k (queue_list q)))"
  using assms(2,3)
proof (induction fuel arbitrary: k)
  case 0
  then show ?case by simp
next
  case (Suc fuel)
  show ?case
  proof (cases "k = q_len q")
    case True
    then show ?thesis using slot_q_len [OF assms(1)] by simp
  next
    case False
    with Suc.prems have k: "k < q_len q" by simp
    then have "slot q k \<noteq> rear q"
      using slot_inj [OF assms(1), of k "q_len q"] q_len_less [OF assms(1)]
        slot_q_len [OF assms(1)] by auto
    moreover have "drop k (queue_list q) = queue_list q ! k # drop (Suc k) (queue_list q)"
      using k by (simp add: Cons_nth_drop_Suc)
    moreover have "get_earliest_loop fuel q (slot q (Suc k)) =
        Inr (find (\<lambda>el. send_time el \<noteq> 0) (drop (Suc k) (queue_list q)))"
      using Suc.IH [of "Suc k"] Suc.prems k by simp
    ultimately show ?thesis using slot_Suc [of q k] data_slot [OF assms(1) k] by simp
  qed
qed

lemma get_earliest_element_find:
  "q_inv q \<Longrightarrow> get_earliest_element q = Inr (find (\<lambda>el. send_time el \<noteq> 0) (queue_list q))"
  using get_earliest_loop_find [of q 0 "qsize q + 1"] q_len_less [of q] slot_0 [of q]
  by (simp add: get_earliest_element_def)

section \<open>The endpoint invariant\<close>

text \<open>
  The retransmit buffer holds the last frames sent, with consecutive sequence numbers that end just
  before \<open>next_tx_seq\<close>. \<open>n\<close> counts frames without wrap-around.
\<close>

definition tx_window :: "tloe_endpoint_t \<Rightarrow> bool" where
  "tx_window e \<longleftrightarrow> (\<exists>n \<ge> q_len (retransmit_buffer e). next_tx_seq e = seq_of n \<and>
     map rbe_seq (queue_list (retransmit_buffer e)) = map seq_of [n - q_len (retransmit_buffer e)..<n])"

definition ep_inv :: "tloe_endpoint_t \<Rightarrow> bool" where
  "ep_inv e \<longleftrightarrow> q_inv (retransmit_buffer e) \<and> q_cap (retransmit_buffer e) = WINDOW_SIZE \<and>
     (\<forall>el \<in> set (queue_list (retransmit_buffer e)). rbe_ok el) \<and> tx_window e \<and>
     q_inv (message_buffer e) \<and> q_inv (ack_buffer e) \<and> q_inv (tl_msg_buffer e) \<and>
     q_inv (response_buffer e) \<and> fc_wf (fc e) \<and> fabric_up e \<and>
     seq_wf (next_rx_seq e) \<and> seq_wf (acked_seq e)"

definition rbe_key :: "RetransmitBufferElement \<Rightarrow> int \<times> tloe_frame_t" where
  "rbe_key el = (f_size el, tloe_frame el)"

lemma rbe_key_mark_resent [simp]: "rbe_key (mark_resent e s el) = rbe_key el"
  by (simp add: mark_resent_def rbe_key_def)

lemma rbe_keyD: "rbe_key a = rbe_key b \<Longrightarrow> rbe_ok a = rbe_ok b \<and> rbe_seq a = rbe_seq b"
  by (simp add: rbe_key_def rbe_ok_def)

lemma ep_inv_requeue:
  assumes "ep_inv e" "q_inv q" "q_cap q = q_cap (retransmit_buffer e)"
    and key: "map rbe_key (queue_list q) = map rbe_key (queue_list (retransmit_buffer e))"
  shows "ep_inv (e\<lparr>retransmit_buffer := q, fabric_sent := S\<rparr>)"
proof -
  let ?xs = "queue_list (retransmit_buffer e)"
  have len: "q_len q = q_len (retransmit_buffer e)" using map_eq_imp_length_eq [OF key] by simp
  have nth: "rbe_key (queue_list q ! k) = rbe_key (?xs ! k)" if "k < q_len q" for k
    using arg_cong [OF key, of "\<lambda>l. l ! k"] that len by simp
  have "map rbe_seq (queue_list q) = map rbe_seq ?xs"
    by (rule nth_equalityI) (use rbe_keyD [OF nth] len in simp_all)
  moreover have "\<forall>el \<in> set (queue_list q). rbe_ok el"
  proof
    fix el assume "el \<in> set (queue_list q)"
    then obtain k where k: "k < q_len q" "el = queue_list q ! k" by (auto simp: in_set_conv_nth)
    then have "rbe_ok (?xs ! k)" using assms(1) len by (simp add: ep_inv_def)
    then show "rbe_ok el" using rbe_keyD [OF nth [OF k(1)]] k(2) by simp
  qed
  ultimately show ?thesis
    using assms(1-3) len by (simp add: ep_inv_def tx_window_def fabric_up_def)
qed


section \<open>A fresh endpoint\<close>

text \<open>The state after initialisation, with a fabric that has been opened as \<open>h\<close>.\<close>

definition fresh_endpoint :: "tloe_fabric_ops_t \<Rightarrow> tloe_endpoint_t" where
  "fresh_endpoint h = zero_endpoint\<lparr>fabric_ops := h, retransmit_buffer := create_queue (WINDOW_SIZE + 1),
     message_buffer := create_queue 10000, ack_buffer := create_queue 2048,
     tl_msg_buffer := create_queue 10000, response_buffer := create_queue 100, fc := initial_fc,
     acked_seq := MAX_SEQ_NUM\<rparr>"

definition mq_fabric :: tloe_fabric_ops_t where
  "mq_fabric = \<lparr>ops = Some TLOE_FABRIC_MQ, handle = Some (MQ \<lparr>mq_tx = 3, mq_rx = 4\<rparr>),
     dev_name = ''port-a'', dev_opt = ''-master''\<rparr>"

lemma ep_inv_fresh:
  assumes "ops h \<noteq> None" "handle h \<noteq> None"
  shows "ep_inv (fresh_endpoint h)"
proof -
  have "tx_window (fresh_endpoint h)"
    unfolding tx_window_def by (intro exI [of _ 0]) (simp add: fresh_endpoint_def zero_endpoint_def seq_of_def)
  then show ?thesis
    using assms by (simp add: ep_inv_def fresh_endpoint_def zero_endpoint_def fabric_up_def create_queue_inv seq_wf_def)
qed

lemma ep_inv_fresh_mq [simp]: "ep_inv (fresh_endpoint mq_fabric)"
  by (rule ep_inv_fresh) (simp_all add: mq_fabric_def)

section \<open>The window counted without wrap-around\<close>

lemma seq_of_diff:
  assumes "seq_of a = seq_of b" "d \<le> a" "d \<le> b"
  shows "seq_of (a - d) = seq_of (b - d)"
proof -
  have "int a mod 2 ^ 22 = int b mod 2 ^ 22"
    using arg_cong [OF assms(1) [unfolded seq_of_eq_iff], of int]
    by (simp only: zmod_int of_nat_power of_nat_numeral)
  then have "(int a - int d) mod 2 ^ 22 = (int b - int d) mod 2 ^ 22" by (rule mod_diff_cong) simp
  then have "int ((a - d) mod 2 ^ 22) = int ((b - d) mod 2 ^ 22)"
    using assms(2,3) by (simp only: zmod_int of_nat_diff of_nat_power of_nat_numeral)
  then show ?thesis by (simp only: of_nat_eq_iff seq_of_eq_iff)
qed

lemma window_seqs:
  assumes inv: "ep_inv e" and n: "next_tx_seq e = seq_of n" "q_len (retransmit_buffer e) \<le> n"
  shows "map rbe_seq (queue_list (retransmit_buffer e)) = map seq_of [n - q_len (retransmit_buffer e)..<n]"
proof -
  let ?k = "q_len (retransmit_buffer e)"
  obtain m where m: "?k \<le> m" "next_tx_seq e = seq_of m"
    "map rbe_seq (queue_list (retransmit_buffer e)) = map seq_of [m - ?k..<m]"
    using inv by (auto simp: ep_inv_def tx_window_def)
  have "map seq_of [m - ?k..<m] = map seq_of [n - ?k..<n]"
  proof (rule nth_equalityI)
    fix i assume "i < length (map seq_of [m - ?k..<m])"
    then have i: "i < ?k" using m(1) by simp
    then have "seq_of (m - (?k - i)) = seq_of (n - (?k - i))"
      using m(1,2) n by (intro seq_of_diff) auto
    then show "map seq_of [m - ?k..<m] ! i = map seq_of [n - ?k..<n] ! i"
      using i m(1) n(2) by (simp add: diff_diff_right)
  qed (use m(1) n(2) in simp)
  with m(3) show ?thesis by simp
qed

lemma rbe_seq_nth:
  assumes "ep_inv e" "next_tx_seq e = seq_of n" "q_len (retransmit_buffer e) \<le> n" "i < q_len (retransmit_buffer e)"
  shows "rbe_seq (queue_list (retransmit_buffer e) ! i) = seq_of (n - q_len (retransmit_buffer e) + i)"
  using arg_cong [OF window_seqs [OF assms(1-3)], of "\<lambda>l. l ! i"] assms(3,4) by simp

lemma dropWhile_eq_drop_nth:
  assumes "\<And>i. i < length xs \<Longrightarrow> P (xs ! i) \<longleftrightarrow> i < j"
  shows "dropWhile P xs = drop j xs"
  using assms
proof (induction xs arbitrary: j)
  case Nil
  then show ?case by simp
next
  case (Cons x xs)
  have "P x \<longleftrightarrow> 0 < j" using Cons.prems [of 0] by simp
  moreover have "dropWhile P xs = drop (j - 1) xs" if "0 < j"
    using Cons.prems [of "Suc _"] that by (intro Cons.IH) (auto simp: less_diff_conv)
  ultimately show ?case by (cases j) auto
qed

lemma filter_eq_drop_nth:
  assumes "\<And>i. i < length xs \<Longrightarrow> P (xs ! i) \<longleftrightarrow> j \<le> i"
  shows "filter P xs = drop j xs"
  using assms
proof (induction xs arbitrary: j)
  case Nil
  then show ?case by simp
next
  case (Cons x xs)
  have "P x \<longleftrightarrow> j = 0" using Cons.prems [of 0] by simp
  moreover have "filter P xs = drop (j - 1) xs"
    using Cons.prems [of "Suc _"] by (intro Cons.IH) (auto simp: le_diff_conv)
  ultimately show ?case by (cases j) auto
qed

text \<open>An acknowledgement of frame \<open>a\<close> releases the frames up to \<open>a\<close>, and only those.\<close>

lemma unacked_drop:
  assumes inv: "ep_inv e" and n: "next_tx_seq e = seq_of n" "q_len (retransmit_buffer e) \<le> n"
    and a: "a < n + 2 ^ 20" "n < a + 2 ^ 20"
  shows "dropWhile (\<lambda>r. tloe_seqnum_cmp (rbe_seq r) (seq_of a) \<le> 0) (queue_list (retransmit_buffer e))
    = drop (Suc a - (n - q_len (retransmit_buffer e))) (queue_list (retransmit_buffer e))"
proof (rule dropWhile_eq_drop_nth)
  let ?k = "q_len (retransmit_buffer e)"
  fix i assume "i < length (queue_list (retransmit_buffer e))"
  then have i: "i < ?k" by simp
  have k: "?k \<le> 4" using inv cq.bound [of "retransmit_buffer e"] by (simp add: ep_inv_def)
  have "tloe_seqnum_cmp (rbe_seq (queue_list (retransmit_buffer e) ! i)) (seq_of a) =
      sgn (int (n - ?k + i) - int a)"
    unfolding rbe_seq_nth [OF inv n i] using a k i n(2) by (intro cmp_seq_of) auto
  then show "(tloe_seqnum_cmp (rbe_seq (queue_list (retransmit_buffer e) ! i)) (seq_of a) \<le> 0) =
      (i < Suc a - (n - ?k))"
    by (auto simp: sgn_if)
qed

lemma resends_drop:
  assumes inv: "ep_inv e" and n: "next_tx_seq e = seq_of n" "q_len (retransmit_buffer e) \<le> n"
    and a: "a < n + 2 ^ 20" "n < a + 2 ^ 20"
  shows "filter (resends (seq_of a)) (queue_list (retransmit_buffer e))
    = drop (a - (n - q_len (retransmit_buffer e))) (queue_list (retransmit_buffer e))"
proof (rule filter_eq_drop_nth)
  let ?k = "q_len (retransmit_buffer e)"
  fix i assume "i < length (queue_list (retransmit_buffer e))"
  then have i: "i < ?k" by simp
  have k: "?k \<le> 4" using inv cq.bound [of "retransmit_buffer e"] by (simp add: ep_inv_def)
  have "tloe_seqnum_cmp (rbe_seq (queue_list (retransmit_buffer e) ! i)) (seq_of a) =
      sgn (int (n - ?k + i) - int a)"
    unfolding rbe_seq_nth [OF inv n i] using a k i n(2) by (intro cmp_seq_of) auto
  then show "resends (seq_of a) (queue_list (retransmit_buffer e) ! i) = (a - (n - ?k) \<le> i)"
    by (auto simp: sgn_if)
qed

text \<open>An endpoint with one unacknowledged frame.\<close>

definition sample_rbe :: RetransmitBufferElement where
  "sample_rbe = \<lparr>rbe_state = TLOE_SENT, f_size = 56, send_time = 10, tloe_frame = zero_frame 65\<rparr>"

definition one_in_flight :: tloe_endpoint_t where
  "one_in_flight = (fresh_endpoint mq_fabric)\<lparr>retransmit_buffer := snd (enqueue (create_queue 5) sample_rbe),
     next_tx_seq := 1\<rparr>"

lemma one_in_flight_queue:
  "q_inv (retransmit_buffer one_in_flight)" "queue_list (retransmit_buffer one_in_flight) = [sample_rbe]"
  "q_len (retransmit_buffer one_in_flight) = 1" "q_cap (retransmit_buffer one_in_flight) = 4"
proof -
  have nf: "\<not> is_queue_full (create_queue 5)" by (simp add: is_queue_full_def create_queue_def init_queue_def)
  have i: "q_inv (create_queue 5)" by (simp add: create_queue_inv)
  show "q_inv (retransmit_buffer one_in_flight)" "queue_list (retransmit_buffer one_in_flight) = [sample_rbe]"
    "q_cap (retransmit_buffer one_in_flight) = 4"
    using cq.enq_inv [OF i] cq.enq_contents [OF i nf] by (simp_all add: one_in_flight_def cq.enq_cap)
  then show "q_len (retransmit_buffer one_in_flight) = 1"
    by (metis length_queue_list length_Cons list.size(3) One_nat_def)
qed

lemma one_in_flight_fields: "next_tx_seq one_in_flight = 1" "fabric_sent one_in_flight = []"
  by (simp_all add: one_in_flight_def fresh_endpoint_def zero_endpoint_def)

lemma ep_inv_one_in_flight: "ep_inv one_in_flight"
proof -
  have "tx_window one_in_flight"
    unfolding tx_window_def one_in_flight_queue
    by (intro exI [of _ 1])
       (simp add: one_in_flight_def seq_of_def sample_rbe_def zero_frame_def zero_header_def)
  moreover have "rbe_ok sample_rbe" by (simp add: rbe_ok_def sample_rbe_def zero_frame_def)
  moreover have "ep_inv (fresh_endpoint mq_fabric)" by simp
  ultimately show ?thesis
    using one_in_flight_queue unfolding ep_inv_def by (simp add: one_in_flight_def fabric_up_def)
qed

section \<open>Properties\<close>

text \<open>
  C19: when \<open>n\<close> frames have been sent and a frame arrives that acknowledges frame \<open>a\<close> (any number within
  half of the half number space of \<open>n\<close>), \<open>slide_window\<close> ends and removes exactly the frames up to \<open>a\<close> from the
  retransmit buffer; later frames stay, in order.
\<close>

theorem slide_window_releases_acked:
  assumes "ep_inv e" "next_tx_seq e = seq_of n" "q_len (retransmit_buffer e) \<le> n"
    and "h_seq_num_ack (f_header f) = ucast (seq_of a)" "a < n + 2 ^ 20" "n < a + 2 ^ 20"
  shows "\<exists>q. slide_window e f = Inr (e\<lparr>retransmit_buffer := q\<rparr>) \<and> q_inv q \<and>
    queue_list q = drop (Suc a - (n - q_len (retransmit_buffer e))) (queue_list (retransmit_buffer e))"
proof -
  have "q_inv (retransmit_buffer e)" using assms(1) by (simp add: ep_inv_def)
  from slide_window_spec [OF this, of f] show ?thesis
    using unacked_drop [OF assms(1-3,5,6)] assms(4) by auto
qed

theorem slide_window_releases_acked_witness:
  "\<exists>q. slide_window one_in_flight (zero_frame 65) = Inr (one_in_flight\<lparr>retransmit_buffer := q\<rparr>) \<and>
    q_inv q \<and> queue_list q = []"
  using slide_window_releases_acked [OF ep_inv_one_in_flight, of 1 "zero_frame 65" 0] one_in_flight_queue(2,3)
    one_in_flight_fields by (simp add: seq_of_def zero_frame_def zero_header_def)



end
