(* ===== verification/Transmitter.thy ===== *)
theory Transmitter
  imports Retransmission
begin

text \<open>
  The transmit half of an endpoint iteration (\<^verbatim>\<open>tloe_transmitter.c\<close>) and the frame-drop hooks of
  \<^verbatim>\<open>tloe_nsm.h\<close> as the default build compiles them.
\<close>

section \<open>Frame-drop hooks\<close>

definition handle_ack_packet_drop :: "tloe_endpoint_t \<Rightarrow> tloe_frame_t \<Rightarrow> bool" where
  "handle_ack_packet_drop e frame = False"

definition handle_normal_frame_drop :: "tloe_endpoint_t \<Rightarrow> bool" where
  "handle_normal_frame_drop e = False"

definition handle_single_normal_frame_drop :: "tloe_endpoint_t \<Rightarrow> bool" where
  "handle_single_normal_frame_drop e = False"

section \<open>Operations\<close>

text \<open>
  \<^verbatim>\<open>send_ackonly_frame\<close> fills in a frame on the stack without clearing it first: \<open>junk\<close> is what the
  stack held.
\<close>

definition send_ackonly_frame :: "tloe_frame_t \<Rightarrow> tloe_endpoint_t \<Rightarrow> tloe_endpoint_t run" where
  "send_ackonly_frame junk e =
     (let fsize = tloe_get_fsize None;
          f = junk\<lparr>f_header := (f_header junk)\<lparr>h_type := word_of_int TYPE_ACKONLY\<rparr>\<rparr>;
          f = tloe_seqnum_set_next_and_acked_seq f e;
          f = f\<lparr>f_header := (f_header f)\<lparr>h_ack := word_of_int TLOE_ACK\<rparr>\<rparr>
      in bind_run (tloe_set_mask f 0 fsize) (\<lambda>(_, f).
         let f = f\<lparr>f_header := (f_header f)\<lparr>h_chan := 0, h_credit := 0\<rparr>\<rparr> in
         bind_run (tloe_frame_to_packet f fsize) (\<lambda>send_buffer.
         Inr (tloe_fabric_send e send_buffer))))"

text \<open>
  \<^verbatim>\<open>memcpy(&rbe->tloe_frame, f, f_size)\<close>: at least eight bytes (every caller copies 56 or more), at
  most what either object holds.
\<close>

definition copy_frame :: "tloe_frame_t \<Rightarrow> tloe_frame_t \<Rightarrow> int \<Rightarrow> tloe_frame_t run" where
  "copy_frame dst src n =
     (let k = nat (n - 8) in
      if k \<le> 8 * length (flits dst) \<and> k \<le> 8 * length (flits src)
      then Inr \<lparr>f_header = f_header src,
                flits = bytes_flits (take k (flits_bytes (flits src)) @ drop k (flits_bytes (flits dst)))\<rparr>
      else Inl Undefined)"

definition enqueue_retransmit_buffer ::
  "tloe_endpoint_t \<Rightarrow> RetransmitBufferElement \<Rightarrow> tloe_frame_t \<Rightarrow> int \<Rightarrow>
   (bool \<times> RetransmitBufferElement \<times> tloe_endpoint_t) run" where
  "enqueue_retransmit_buffer e rbe f n =
     bind_run (copy_frame (tloe_frame rbe) f n) (\<lambda>frame.
       let rbe = rbe\<lparr>tloe_frame := frame, rbe_state := TLOE_INIT, f_size := n,
                     send_time := get_current_timestamp (iteration_ts e)\<rparr>;
           (enqueued, q) = enqueue (retransmit_buffer e) rbe
       in Inr (enqueued, rbe, e\<lparr>retransmit_buffer := q\<rparr>))"

definition prepare_normal_frame ::
  "tloe_endpoint_t \<Rightarrow> tloe_frame_t \<Rightarrow> tl_msg_t option \<Rightarrow> int \<Rightarrow> tloe_frame_t run" where
  "prepare_normal_frame e f tlmsg n =
     (let f = tloe_seqnum_set_next_and_acked_seq f e;
          f = f\<lparr>f_header := (f_header f)\<lparr>h_ack := word_of_int TLOE_ACK\<rparr>\<rparr>
      in bind_run
           (case tlmsg of
              Some m \<Rightarrow> bind_run (tloe_set_tlmsg f m) (\<lambda>f. tloe_set_mask f 1 n)
            | None \<Rightarrow> tloe_set_mask f 0 n)
           (\<lambda>(_, f). Inr (f\<lparr>f_header := (f_header f)\<lparr>h_chan := 0, h_credit := 0\<rparr>\<rparr>)))"

definition send_request_normal_frame ::
  "tloe_endpoint_t \<Rightarrow> tloe_frame_t \<Rightarrow> int \<Rightarrow> tloe_endpoint_t run" where
  "send_request_normal_frame e f n =
     bind_run (tloe_frame_to_packet f n) (\<lambda>send_buffer. Inr (tloe_fabric_send e send_buffer))"

text \<open>
  \<open>tx_env\<close> is what \<open>TX\<close> finds in memory: the stack contents behind the two calls of
  \<open>send_ackonly_frame\<close> and whether the allocation of the retransmit buffer element succeeds. (The
  allocation of the frame itself is not checked by the code and is taken to succeed.)
\<close>

record tx_env =
  junk1 :: tloe_frame_t
  junk2 :: tloe_frame_t
  rbe_alloc :: bool

text \<open>The label \<^verbatim>\<open>out\<close> of \<open>TX\<close>: retransmit everything when the oldest frame has timed out.\<close>

definition TX_out :: "tloe_endpoint_t \<Rightarrow> tl_msg_t option \<Rightarrow> (tl_msg_t option \<times> tloe_endpoint_t) run" where
  "TX_out e return_tlmsg =
     (case getfront (retransmit_buffer e) of
        None \<Rightarrow> Inr (return_tlmsg, e)
      | Some rbe \<Rightarrow>
          if is_timeout_tx (iteration_ts e) (send_time rbe)
          then bind_run (retransmit e (rbe_seq rbe)) (\<lambda>e. Inr (return_tlmsg, e))
          else Inr (return_tlmsg, e))"

text \<open>The acknowledgement-only frames at the start of \<open>TX\<close>.\<close>

definition TX_ackonly :: "tx_env \<Rightarrow> tloe_endpoint_t \<Rightarrow> tloe_endpoint_t run" where
  "TX_ackonly env e =
     bind_run
       (if should_send_ackonly_frame e
        then bind_run (send_ackonly_frame (junk1 env) e)
               (\<lambda>e. Inr (e\<lparr>should_send_ackonly_frame := False\<rparr>))
        else Inr e)
       (\<lambda>e. if is_queue_full (retransmit_buffer e) \<and> ackonly_frame_sent e = False
            then (case getfront (retransmit_buffer e) of
                    None \<Rightarrow> Inl Undefined
                  | Some rbe \<Rightarrow>
                      if is_timeout_tx_half (iteration_ts e) (send_time rbe)
                      then bind_run (send_ackonly_frame (junk2 env) (e\<lparr>ackonly_frame_sent := True\<rparr>))
                             (\<lambda>e. Inr (e\<lparr>ackonly_cnt := ackonly_cnt e + 1\<rparr>))
                      else Inr e)
            else Inr e)"

text \<open>From the computation of the frame size to the end of \<open>TX\<close>.\<close>

definition TX_transmit ::
  "tx_env \<Rightarrow> tloe_endpoint_t \<Rightarrow> nat \<Rightarrow> tl_msg_t option \<Rightarrow> tl_msg_t option \<Rightarrow>
   (tl_msg_t option \<times> tloe_endpoint_t) run" where
  "TX_transmit env e target_credit_chan request_normal_tlmsg return_tlmsg =
     (let tloeframe_size = tloe_get_fsize request_normal_tlmsg in
      bind_run (bug_on (tloeframe_size = -1) ()) (\<lambda>_.
      bind_run (prepare_normal_frame e (zero_frame (nat ((tloeframe_size - 8) div 8)))
                  request_normal_tlmsg tloeframe_size) (\<lambda>f.
      let (ack_frame, ack_q) = (if is_queue_empty (ack_buffer e) then (None, ack_buffer e)
                                else dequeue (ack_buffer e));
          e = e\<lparr>ack_buffer := ack_q\<rparr>;
          f = (case ack_frame of None \<Rightarrow> f
               | Some af \<Rightarrow> tloe_seqnum_set_frame_seq_num_ack f (ucast (h_seq_num_ack (f_header af))))
      in if (case ack_frame of None \<Rightarrow> False | Some af \<Rightarrow> handle_ack_packet_drop e af)
         then TX_out e return_tlmsg
         else
           bind_run (if target_credit_chan \<noteq> 0
                     then bind_run (get_outgoing_credits (fc e) target_credit_chan) (\<lambda>(credit, fc').
                       Inr (f\<lparr>f_header := (f_header f)\<lparr>h_chan := of_nat target_credit_chan,
                                                       h_credit := of_nat credit\<rparr>\<rparr>, e\<lparr>fc := fc'\<rparr>))
                     else Inr (f, e)) (\<lambda>(f, e).
           if \<not> rbe_alloc env then TX_out e request_normal_tlmsg
           else
             let slot_i = rear (retransmit_buffer e) in
             bind_run (enqueue_retransmit_buffer e
                 \<lparr>rbe_state = 0, f_size = 0, send_time = 0, tloe_frame = zero_frame MAX_SIZE_FLIT\<rparr>
                 f tloeframe_size) (\<lambda>(enqueued, rbe, e).
             bind_run (bug_on (\<not> enqueued) ()) (\<lambda>_.
             bind_run (send_request_normal_frame e f tloeframe_size) (\<lambda>e.
             let e = e\<lparr>retransmit_buffer := (retransmit_buffer e)
                   \<lparr>data := (data (retransmit_buffer e))[slot_i := Some (rbe\<lparr>rbe_state := TLOE_SENT\<rparr>)]\<rparr>\<rparr>;
                 e = tloe_seqnum_next_tx_seq_inc e
             in TX_out e return_tlmsg)))))))"

definition TX :: "tx_env \<Rightarrow> tloe_endpoint_t \<Rightarrow> tl_msg_t option \<Rightarrow> (tl_msg_t option \<times> tloe_endpoint_t) run" where
  "TX env e request_normal_tlmsg =
     (let target_credit_chan = select_max_credit_channel (fc e) in
      bind_run (TX_ackonly env e) (\<lambda>e.
      if is_queue_full (retransmit_buffer e) then TX_out e request_normal_tlmsg
      else if request_normal_tlmsg = None \<and> is_queue_empty (ack_buffer e) \<and> target_credit_chan = 0
      then TX_out e None
      else case request_normal_tlmsg of
             None \<Rightarrow> TX_transmit env e target_credit_chan None None
           | Some m \<Rightarrow>
               bind_run (fc_credit_dec (fc e) m) (\<lambda>(dec, fc').
               let e = e\<lparr>fc := fc'\<rparr> in
               if dec \<noteq> -1 then TX_transmit env e target_credit_chan (Some m) None
               else if \<not> is_queue_empty (ack_buffer e)
               then TX_transmit env e target_credit_chan None (Some m)
               else TX_out e (Some m))))"

section \<open>The parts of TX\<close>

subsection \<open>The frame\<close>

lemma fsize_flits:
  assumes "\<And>m. mo = Some m \<Longrightarrow> msg_ok m"
  obtains n where "tloe_get_fsize mo = 8 + 8 * int n" "6 \<le> n"
    "nat ((tloe_get_fsize mo - 8) div 8) = n" "mask_index (tloe_get_fsize mo) = n - 1"
proof -
  have "8 dvd tloe_get_fsize mo"
    using total_size_dvd by (auto simp: tloe_get_fsize_def Let_def split: option.splits)
  then obtain k where k: "tloe_get_fsize mo = 8 * k" by (elim dvdE)
  have kb: "7 \<le> k" "k \<le> 4099" using tloe_get_fsize_bounds [of mo] k by auto
  have "mask_index (8 * k) = nat (k - 2)" using kb mask_index_eq [of "8 * k"] by simp
  then show thesis
    using k kb by (intro that [of "nat (k - 1)"]) (auto simp: nat_diff_distrib)
qed

definition normal_header :: "tloe_endpoint_t \<Rightarrow> tloe_header_t" where
  "normal_header e = zero_header\<lparr>h_seq_num := ucast (next_tx_seq e),
     h_seq_num_ack := ucast (tloe_seqnum_prev (next_rx_seq e)), h_ack := 1\<rparr>"

lemma prepare_normal_frame_spec:
  fixes e mo
  defines "sz \<equiv> tloe_get_fsize mo"
  assumes ok: "\<And>m. mo = Some m \<Longrightarrow> msg_ok m"
  shows "\<exists>f. prepare_normal_frame e (zero_frame (nat ((sz - 8) div 8))) mo sz = Inr f \<and>
    f_header f = normal_header e \<and> length (flits f) = nat ((sz - 8) div 8) \<and>
    tloe_get_mask f sz = Inr (if mo = None then 0 else 1) \<and>
    (\<forall>m. mo = Some m \<longrightarrow> tlmsg_get_total_size m \<le> 40 \<longrightarrow> tloe_get_tlmsg f 0 = Inr m)"
proof -
  obtain n where n: "sz = 8 + 8 * int n" "6 \<le> n" "nat ((sz - 8) div 8) = n" "mask_index sz = n - 1"
    using fsize_flits [OF ok] unfolding sz_def by blast
  let ?f0 = "tloe_seqnum_set_next_and_acked_seq (zero_frame n) e"
  let ?f = "?f0\<lparr>f_header := (f_header ?f0)\<lparr>h_ack := 1\<rparr>\<rparr>"
  have hd: "(f_header ?f)\<lparr>h_chan := 0, h_credit := 0\<rparr> = normal_header e" and fl: "length (flits ?f) = n"
    by (simp_all add: normal_header_def tloe_seqnum_set_next_and_acked_seq_def zero_frame_def
        tloe_seqnum_set_seq_num_ack_def tloe_seqnum_set_next_tx_seq_def zero_header_def)
  show ?thesis
  proof (cases mo)
    case None
    then show ?thesis
      using n fl hd by (simp add: prepare_normal_frame_def Let_def tloe_set_mask_def tloe_get_mask_def)
  next
    case (Some m)
    note m = ok [OF Some]
    have "length m \<le> 8 * n"
      using n(1) m by (auto simp: sz_def Some tloe_get_fsize_def Let_def msg_ok_def split: if_splits)
    then obtain f1 where f1: "tloe_set_tlmsg ?f m = Inr f1" "f_header f1 = f_header ?f"
      "length (flits f1) = n" "flits_bytes (flits f1) = m @ drop (length m) (flits_bytes (flits ?f))"
      using tloe_set_tlmsg_ok [OF m, of ?f] fl by auto
    let ?f2 = "f1\<lparr>f_header := (f_header f1)\<lparr>h_chan := 0, h_credit := 0\<rparr>,
      flits := (flits f1)[n - 1 := 1]\<rparr>"
    have "tloe_get_tlmsg ?f2 0 = Inr m" if "tlmsg_get_total_size m \<le> 40"
    proof (rule tloe_get_tlmsg_0 [OF m])
      have "length m \<le> 8 * (n - 1)" using that m n(2) by (auto simp: msg_ok_def)
      then show "take (length m) (flits_bytes (flits ?f2)) = m"
        using f1(4) by (simp add: flits_bytes_update_prefix)
    qed
    moreover have "prepare_normal_frame e (zero_frame n) (Some m) sz = Inr ?f2"
      using n f1 by (simp add: prepare_normal_frame_def Let_def tloe_set_mask_def)
    ultimately show ?thesis
      using Some n f1(2,3) hd by (intro exI [of _ ?f2]) (auto simp: tloe_get_mask_def Let_def)
  qed
qed

lemma copy_frame_eq:
  assumes "length (flits src) = n" "n \<le> MAX_SIZE_FLIT"
  shows "copy_frame (zero_frame MAX_SIZE_FLIT) src (8 + 8 * int n) =
    Inr \<lparr>f_header = f_header src, flits = flits src @ replicate (MAX_SIZE_FLIT - n) 0\<rparr>"
proof -
  have "drop (8 * n) (flits_bytes (replicate MAX_SIZE_FLIT 0)) = flits_bytes (replicate (MAX_SIZE_FLIT - n) 0)"
    by (simp only: drop_flits_bytes drop_replicate)
  moreover have "take (8 * n) (flits_bytes (flits src)) = flits_bytes (flits src)"
    using assms by simp
  ultimately have "take (8 * n) (flits_bytes (flits src)) @ drop (8 * n) (flits_bytes (replicate MAX_SIZE_FLIT 0))
    = flits_bytes (flits src @ replicate (MAX_SIZE_FLIT - n) 0)"
    by (simp only: flits_bytes_simps)
  then have "bytes_flits (take (8 * n) (flits_bytes (flits src)) @
      drop (8 * n) (flits_bytes (replicate MAX_SIZE_FLIT 0))) = flits src @ replicate (MAX_SIZE_FLIT - n) 0"
    by (simp only: bytes_flits_flits_bytes)
  then show ?thesis using assms by (simp add: copy_frame_def zero_frame_def Let_def nat_mult_distrib)
qed

subsection \<open>Acknowledgement-only frames\<close>

text \<open>A packet that acknowledges everything received in order and carries nothing else of use.\<close>

definition ackonly_packet :: "tloe_endpoint_t \<Rightarrow> byte list \<Rightarrow> bool" where
  "ackonly_packet e p \<longleftrightarrow> (\<exists>f. tloe_frame_to_packet f 56 = Inr p \<and> length (flits f) = MAX_SIZE_FLIT \<and> is_ackonly_frame f \<and>
     h_ack (f_header f) = 1 \<and> h_seq_num_ack (f_header f) = ucast (tloe_seqnum_prev (next_rx_seq e)))"

lemma ackonly_packet_cong: "next_rx_seq e = next_rx_seq e' \<Longrightarrow> ackonly_packet e = ackonly_packet e'"
  by (simp add: ackonly_packet_def fun_eq_iff)

lemma send_ackonly_frame_ok:
  assumes "length (flits junk) = MAX_SIZE_FLIT" "fabric_up e"
  shows "\<exists>p. send_ackonly_frame junk e = Inr (e\<lparr>fabric_sent := fabric_sent e @ [p]\<rparr>) \<and> ackonly_packet e p"
proof -
  define f where "f = (let f = tloe_seqnum_set_next_and_acked_seq
      (junk\<lparr>f_header := (f_header junk)\<lparr>h_type := 1\<rparr>\<rparr>) e
    in f\<lparr>flits := (flits f)[5 := 0], f_header := (f_header f)\<lparr>h_ack := 1, h_chan := 0, h_credit := 0\<rparr>\<rparr>)"
  have f: "length (flits f) = MAX_SIZE_FLIT" "is_ackonly_frame f" "h_ack (f_header f) = 1"
    "h_seq_num_ack (f_header f) = ucast (tloe_seqnum_prev (next_rx_seq e))"
    using assms(1) by (simp_all add: f_def Let_def tloe_seqnum_set_next_and_acked_seq_def
        tloe_seqnum_set_seq_num_ack_def tloe_seqnum_set_next_tx_seq_def is_ackonly_frame_def)
  then obtain p where p: "tloe_frame_to_packet f 56 = Inr p"
    using frame_to_packet_ok [of f 56] by auto
  then have "send_ackonly_frame junk e = Inr (tloe_fabric_send e p)"
    using assms(1) by (simp add: send_ackonly_frame_def Let_def f_def tloe_get_fsize_def
        tloe_set_mask_def tloe_seqnum_set_next_and_acked_seq_def
        tloe_seqnum_set_seq_num_ack_def tloe_seqnum_set_next_tx_seq_def)
  then show ?thesis using tloe_fabric_send_up [OF assms(2)] f p ackonly_packet_def by metis
qed

lemma full_front:
  assumes "ep_inv e" "is_queue_full (retransmit_buffer e)"
  shows "\<exists>rbe. getfront (retransmit_buffer e) = Some rbe"
  using assms cq.full_iff [of "retransmit_buffer e"] cq.peek_contents [of "retransmit_buffer e"]
  by (cases "queue_list (retransmit_buffer e)") (auto simp: ep_inv_def)

definition env_ok :: "tx_env \<Rightarrow> bool" where
  "env_ok env \<longleftrightarrow> length (flits (junk1 env)) = MAX_SIZE_FLIT \<and> length (flits (junk2 env)) = MAX_SIZE_FLIT"

text \<open>The part of the state that acknowledgement-only frames leave alone.\<close>

definition core :: "tloe_endpoint_t \<Rightarrow> _" where
  "core e = (fabric_ops e, retransmit_buffer e, message_buffer e, ack_buffer e, tl_msg_buffer e,
     response_buffer e, iteration_ts e, fc e, next_tx_seq e, next_rx_seq e, acked_seq e)"

lemma ep_inv_core: "core e' = core e \<Longrightarrow> ep_inv e' = ep_inv e"
  by (simp add: core_def ep_inv_def tx_window_def fabric_up_def)

lemma TX_ackonly_first:
  assumes "fabric_up e" "length (flits junk) = MAX_SIZE_FLIT"
  shows "\<exists>e'. (if should_send_ackonly_frame e
      then bind_run (send_ackonly_frame junk e) (\<lambda>e. Inr (e\<lparr>should_send_ackonly_frame := False\<rparr>))
      else Inr e) = Inr e' \<and> core e' = core e \<and> \<not> should_send_ackonly_frame e' \<and>
    (\<exists>ps. fabric_sent e' = fabric_sent e @ ps \<and> (\<forall>p \<in> set ps. ackonly_packet e p) \<and> length ps \<le> 1)"
  using send_ackonly_frame_ok [OF assms(2,1)] by (auto simp: core_def intro!: exI [of _ "[]"])

lemma TX_ackonly_second:
  assumes "ep_inv e" "length (flits junk) = MAX_SIZE_FLIT"
  shows "\<exists>e'. (if is_queue_full (retransmit_buffer e) \<and> ackonly_frame_sent e = False
      then (case getfront (retransmit_buffer e) of
              None \<Rightarrow> Inl Undefined
            | Some rbe \<Rightarrow>
                if is_timeout_tx_half (iteration_ts e) (send_time rbe)
                then bind_run (send_ackonly_frame junk (e\<lparr>ackonly_frame_sent := True\<rparr>))
                       (\<lambda>e. Inr (e\<lparr>ackonly_cnt := ackonly_cnt e + 1\<rparr>))
                else Inr e)
      else Inr e) = Inr e' \<and> core e' = core e \<and>
    should_send_ackonly_frame e' = should_send_ackonly_frame e \<and>
    (\<exists>ps. fabric_sent e' = fabric_sent e @ ps \<and> (\<forall>p \<in> set ps. ackonly_packet e p) \<and> length ps \<le> 1)"
proof -
  have "fabric_up (e\<lparr>ackonly_frame_sent := True\<rparr>)" using assms(1) by (simp add: ep_inv_def fabric_up_def)
  from send_ackonly_frame_ok [OF assms(2) this] full_front [OF assms(1)] show ?thesis
    using ackonly_packet_cong [of "e\<lparr>ackonly_frame_sent := True\<rparr>" e]
    by (auto simp: core_def intro!: exI [of _ "[]"])
qed

lemma TX_ackonly_ok:
  assumes "ep_inv e" "env_ok env"
  shows "\<exists>e'. TX_ackonly env e = Inr e' \<and> core e' = core e \<and> \<not> should_send_ackonly_frame e' \<and>
    (\<exists>ps. fabric_sent e' = fabric_sent e @ ps \<and> (\<forall>p \<in> set ps. ackonly_packet e p) \<and> length ps \<le> 2)"
proof -
  have up: "fabric_up e" using assms(1) by (simp add: ep_inv_def)
  obtain e1 where e1: "(if should_send_ackonly_frame e
      then bind_run (send_ackonly_frame (junk1 env) e) (\<lambda>e. Inr (e\<lparr>should_send_ackonly_frame := False\<rparr>))
      else Inr e) = Inr e1" "core e1 = core e" "\<not> should_send_ackonly_frame e1"
    "\<exists>ps. fabric_sent e1 = fabric_sent e @ ps \<and> (\<forall>p \<in> set ps. ackonly_packet e p) \<and> length ps \<le> 1"
    using TX_ackonly_first [OF up] assms(2) unfolding env_ok_def by blast
  then obtain ps where ps: "fabric_sent e1 = fabric_sent e @ ps" "\<forall>p \<in> set ps. ackonly_packet e p" "length ps \<le> 1" by blast
  have "ep_inv e1" using ep_inv_core [OF e1(2)] assms(1) by simp
  from TX_ackonly_second [OF this, of "junk2 env"] assms(2) obtain e' ps' where e':
    "TX_ackonly env e = Inr e'" "core e' = core e1" "should_send_ackonly_frame e' = should_send_ackonly_frame e1"
    "fabric_sent e' = fabric_sent e1 @ ps'" "\<forall>p \<in> set ps'. ackonly_packet e1 p" "length ps' \<le> 1"
    unfolding TX_ackonly_def e1(1) by (auto simp: env_ok_def)
  have "next_rx_seq e1 = next_rx_seq e" using e1(2) by (simp add: core_def)
  then have "\<forall>p \<in> set (ps @ ps'). ackonly_packet e p" using ps(2) e'(5) ackonly_packet_cong [of e1 e] by auto
  then show ?thesis using e' e1(2,3) ps(1,3) by (intro exI [of _ e']) auto
qed

subsection \<open>The label out\<close>

text \<open>What \<open>TX\<close> may send again: nothing, or every frame of the retransmit buffer, oldest first.\<close>

abbreviation resent :: "tloe_endpoint_t \<Rightarrow> byte list list \<Rightarrow> bool" where
  "resent e ps \<equiv> ps = [] \<or> ps = map (resend_packet e) (queue_list (retransmit_buffer e))"

text \<open>The oldest unacknowledged frame has waited for the whole time-out.\<close>

definition timed_out :: "tloe_endpoint_t \<Rightarrow> bool" where
  "timed_out e \<longleftrightarrow> (\<exists>x xs. queue_list (retransmit_buffer e) = x # xs \<and> is_timeout_tx (iteration_ts e) (send_time x))"

lemma resend_packet_key:
  assumes "map rbe_key xs = map rbe_key ys"
  shows "map (resend_packet e) xs = map (resend_packet e) ys"
proof -
  have "resend_packet e = (\<lambda>(sz, f). projr (tloe_frame_to_packet (tloe_seqnum_set_seq_num_ack f e) sz)) \<circ> rbe_key"
    by (simp add: fun_eq_iff resend_packet_def rbe_key_def)
  then show ?thesis using assms by (metis map_map)
qed

lemma window_resends_all:
  assumes "ep_inv e" "queue_list (retransmit_buffer e) = r # rs"
  shows "filter (resends (rbe_seq r)) (queue_list (retransmit_buffer e)) = queue_list (retransmit_buffer e)"
proof -
  let ?xs = "queue_list (retransmit_buffer e)" and ?k = "q_len (retransmit_buffer e)"
  obtain n where n: "?k \<le> n" "map rbe_seq ?xs = map seq_of [n - ?k..<n]"
    using assms(1) by (auto simp: ep_inv_def tx_window_def)
  have k: "?k \<le> 4" using assms(1) cq.bound [of "retransmit_buffer e"] by (simp add: ep_inv_def)
  have nth: "rbe_seq (?xs ! i) = seq_of (n - ?k + i)" if "i < ?k" for i
    using arg_cong [OF n(2), of "\<lambda>l. l ! i"] that n(1) by simp
  have "0 < ?k" using assms(2) length_queue_list [of "retransmit_buffer e"] by simp
  then have r: "rbe_seq r = seq_of (n - ?k)" using nth [of 0] assms(2) by simp
  have "resends (rbe_seq r) el" if mem: "el \<in> set ?xs" for el
  proof -
    obtain i where "i < length ?xs" "?xs ! i = el" using mem unfolding in_set_conv_nth by blast
    then have i: "i < ?k" "el = ?xs ! i" by simp_all
    have "tloe_seqnum_cmp (rbe_seq el) (rbe_seq r) = sgn (int (n - ?k + i) - int (n - ?k))"
      unfolding i(2) nth [OF i(1)] r using k i(1) by (intro cmp_seq_of) auto
    then show ?thesis by (simp add: sgn_if)
  qed
  then show ?thesis by (simp add: filter_id_conv)
qed

lemma TX_out_ok:
  assumes inv: "ep_inv e"
  shows "\<exists>q ps. TX_out e r = Inr (r, e\<lparr>retransmit_buffer := q, fabric_sent := fabric_sent e @ ps\<rparr>) \<and>
    q_inv q \<and> q_cap q = q_cap (retransmit_buffer e) \<and>
    map rbe_key (queue_list q) = map rbe_key (queue_list (retransmit_buffer e)) \<and>
    resent e ps \<and> (timed_out e \<longrightarrow> ps = map (resend_packet e) (queue_list (retransmit_buffer e)))"
proof -
  let ?rb = "retransmit_buffer e"
  have i: "q_inv ?rb" "\<forall>el \<in> set (queue_list ?rb). rbe_ok el" "fabric_up e"
    using inv by (simp_all add: ep_inv_def)
  show ?thesis
  proof (cases "timed_out e")
    case True
    then obtain x xs where x: "queue_list ?rb = x # xs" "is_timeout_tx (iteration_ts e) (send_time x)"
      by (auto simp: timed_out_def)
    obtain q where q: "retransmit e (rbe_seq x) = Inr (e\<lparr>retransmit_buffer := q,
        fabric_sent := fabric_sent e @ map (resend_packet e) (queue_list ?rb)\<rparr>)"
      "q_inv q" "q_cap q = q_cap ?rb" "queue_list q = map (mark_resent e (rbe_seq x)) (queue_list ?rb)"
      using retransmit_spec [OF i, of "rbe_seq x"] window_resends_all [OF inv x(1)] by auto
    have "getfront ?rb = Some x" using x i(1) by (simp add: cq.peek_contents)
    then have "TX_out e r = Inr (r, e\<lparr>retransmit_buffer := q,
        fabric_sent := fabric_sent e @ map (resend_packet e) (queue_list ?rb)\<rparr>)"
      using x(2) q(1) by (simp add: TX_out_def)
    moreover have "map rbe_key (queue_list q) = map rbe_key (queue_list ?rb)" by (simp add: q(4))
    ultimately show ?thesis using q(2,3) by blast
  next
    case False
    then have "TX_out e r = Inr (r, e)"
      using cq.peek_contents [OF i(1)] by (auto simp: TX_out_def timed_out_def split: list.splits)
    then show ?thesis using i(1) False by (intro exI [of _ ?rb] exI [of _ "[]"]) simp
  qed
qed

subsection \<open>Sending a frame\<close>

text \<open>The acknowledgement a frame carries: a queued one first, otherwise the last frame received in order.\<close>

definition tx_ack_num :: "tloe_endpoint_t \<Rightarrow> 22 word" where
  "tx_ack_num e = (case getfront (ack_buffer e) of
      None \<Rightarrow> ucast (tloe_seqnum_prev (next_rx_seq e))
    | Some af \<Rightarrow> h_seq_num_ack (f_header af))"

lemma dequeue_if_empty:
  "(if is_queue_empty q then (None, q) else dequeue q) = (getfront q, snd (dequeue q))"
  by (simp add: dequeue_def getfront_def)

lemma enqueue_then_set:
  assumes "\<not> is_queue_full q"
  shows "(snd (enqueue q x))\<lparr>data := (data (snd (enqueue q x)))[rear q := Some y]\<rparr> = snd (enqueue q y)"
  using assms by (simp add: enqueue_def)

definition padded :: "tloe_frame_t \<Rightarrow> tloe_frame_t" where
  "padded f = \<lparr>f_header = f_header f, flits = flits f @ replicate (MAX_SIZE_FLIT - length (flits f)) 0\<rparr>"

lemma ep_inv_enqueued:
  assumes inv: "ep_inv e" and nf: "\<not> is_queue_full (retransmit_buffer e)"
    and el: "rbe_ok el" "rbe_seq el = next_tx_seq e" and f: "fc_wf fc'"
  shows "ep_inv (e\<lparr>retransmit_buffer := snd (enqueue (retransmit_buffer e) el),
    ack_buffer := snd (dequeue (ack_buffer e)), fc := fc',
    next_tx_seq := tloe_seqnum_next (next_tx_seq e), fabric_sent := S\<rparr>)"
proof -
  let ?rb = "retransmit_buffer e" and ?k = "q_len (retransmit_buffer e)"
  have rb: "q_inv ?rb" using inv by (simp add: ep_inv_def)
  have l: "queue_list (snd (enqueue ?rb el)) = queue_list ?rb @ [el]"
    using rb nf by (rule cq.enq_contents)
  have k: "q_len (snd (enqueue ?rb el)) = Suc ?k" using enqueue_fields(1) [OF rb nf] .
  obtain n where n: "?k \<le> n" "next_tx_seq e = seq_of n"
    "map rbe_seq (queue_list ?rb) = map seq_of [n - ?k..<n]"
    using inv by (auto simp: ep_inv_def tx_window_def)
  have "map rbe_seq (queue_list ?rb @ [el]) = map seq_of [Suc n - Suc ?k..<Suc n]"
    using n el(2) by simp
  then have "\<exists>m \<ge> Suc ?k. tloe_seqnum_next (next_tx_seq e) = seq_of m \<and>
      map rbe_seq (queue_list ?rb @ [el]) = map seq_of [m - Suc ?k..<m]"
    using n(1,2) by (intro exI [of _ "Suc n"]) (simp add: seqnum_next_seq_of)
  then show ?thesis
    using inv rb l k el(1) f
    by (simp add: ep_inv_def tx_window_def fabric_up_def cq.enq_inv cq.enq_cap cq.deq_inv)
qed

lemma TX_transmit_ok:
  fixes e mo
  defines "sz \<equiv> tloe_get_fsize mo"
  assumes inv: "ep_inv e" and nf: "\<not> is_queue_full (retransmit_buffer e)" and al: "rbe_alloc env"
    and ok': "\<forall>m. mo = Some m \<longrightarrow> msg_ok m" and fit: "sz \<le> 528"
    and credit: "target \<noteq> 0 \<longrightarrow> get_outgoing_credits (fc e) target = Inr (credit, fc') \<and> fc_wf fc'"
    and no_credit: "target = 0 \<longrightarrow> fc' = fc e \<and> credit = 0"
  shows "\<exists>f p e' ps. TX_transmit env e target mo ret = Inr (ret, e') \<and> ep_inv e' \<and>
    e' = e\<lparr>ack_buffer := snd (dequeue (ack_buffer e)), fc := fc',
           next_tx_seq := tloe_seqnum_next (next_tx_seq e), retransmit_buffer := retransmit_buffer e',
           fabric_sent := fabric_sent e @ p # ps\<rparr> \<and> resent e' ps \<and>
    (timed_out e \<longrightarrow> ps = map (resend_packet e') (queue_list (retransmit_buffer e'))) \<and>
    map rbe_key (queue_list (retransmit_buffer e')) =
      map rbe_key (queue_list (retransmit_buffer e)) @ [(sz, padded f)] \<and>
    f_header f = (normal_header e)\<lparr>h_seq_num_ack := tx_ack_num e, h_chan := of_nat target,
                                   h_credit := of_nat credit\<rparr> \<and>
    tloe_frame_to_packet f sz = Inr p \<and> 8 + 8 * int (length (flits f)) = sz \<and>
    tloe_get_mask f sz = Inr (if mo = None then 0 else 1) \<and>
    (\<forall>m. mo = Some m \<longrightarrow> tlmsg_get_total_size m \<le> 40 \<longrightarrow> tloe_get_tlmsg f 0 = Inr m)"
proof -
  have ok: "mo = Some m \<Longrightarrow> msg_ok m" for m using ok' by simp
  obtain n where n: "sz = 8 + 8 * int n" "6 \<le> n" "nat ((sz - 8) div 8) = n"
    using fsize_flits [OF ok] unfolding sz_def by blast
  have n65: "n \<le> MAX_SIZE_FLIT" using fit n(1) by simp
  obtain f0 where f0: "prepare_normal_frame e (zero_frame n) mo sz = Inr f0"
    "f_header f0 = normal_header e" "length (flits f0) = n"
    "tloe_get_mask f0 sz = Inr (if mo = None then 0 else 1)"
    "\<forall>m. mo = Some m \<longrightarrow> tlmsg_get_total_size m \<le> 40 \<longrightarrow> tloe_get_tlmsg f0 0 = Inr m"
    using prepare_normal_frame_spec [of mo e, OF ok] n(3) unfolding sz_def by auto
  define f where "f = f0\<lparr>f_header := (normal_header e)\<lparr>h_seq_num_ack := tx_ack_num e,
    h_chan := of_nat target, h_credit := of_nat credit\<rparr>\<rparr>"
  have fl: "flits f = flits f0" by (simp add: f_def)
  have same: "tloe_get_mask f = tloe_get_mask f0" "tloe_get_tlmsg f = tloe_get_tlmsg f0"
    by (simp_all add: fun_eq_iff tloe_get_mask_def tloe_get_tlmsg_def Let_def fl)
  obtain p where p: "tloe_frame_to_packet f sz = Inr p"
    using tloe_frame_to_packet_eq [of n f] n(1) n65 fl f0(3) by auto
  define rbe where "rbe = \<lparr>rbe_state = TLOE_INIT, f_size = sz,
    send_time = get_current_timestamp (iteration_ts e), tloe_frame = padded f\<rparr>"
  define el where "el = rbe\<lparr>rbe_state := TLOE_SENT\<rparr>"
  define e' where "e' = e\<lparr>retransmit_buffer := snd (enqueue (retransmit_buffer e) el),
           ack_buffer := snd (dequeue (ack_buffer e)), fc := fc',
           next_tx_seq := tloe_seqnum_next (next_tx_seq e), fabric_sent := fabric_sent e @ [p]\<rparr>"
  have cp: "copy_frame (zero_frame MAX_SIZE_FLIT) f sz = Inr (padded f)"
    using copy_frame_eq [of f n] n(1) n65 fl f0(3) by (simp add: padded_def)
  have erb: "enqueue_retransmit_buffer (e\<lparr>ack_buffer := A, fc := F\<rparr>)
      \<lparr>rbe_state = 0, f_size = 0, send_time = 0, tloe_frame = zero_frame MAX_SIZE_FLIT\<rparr> f sz =
      Inr (True, rbe, e\<lparr>ack_buffer := A, fc := F,
        retransmit_buffer := snd (enqueue (retransmit_buffer e) rbe)\<rparr>)" for A F
    using nf by (simp add: enqueue_retransmit_buffer_def cp rbe_def enqueue_def Let_def)
  have up: "fabric_up (e\<lparr>ack_buffer := A, fc := F, retransmit_buffer := R\<rparr>)" for A F R
    using inv by (simp add: ep_inv_def fabric_up_def)
  have srf: "send_request_normal_frame (e\<lparr>ack_buffer := A, fc := F, retransmit_buffer := R\<rparr>) f sz =
      Inr (e\<lparr>ack_buffer := A, fc := F, retransmit_buffer := R, fabric_sent := fabric_sent e @ [p]\<rparr>)" for A F R
    using tloe_fabric_send_up [OF up] p by (simp add: send_request_normal_frame_def)
  have ackf: "(case getfront (ack_buffer e) of None \<Rightarrow> f0
      | Some af \<Rightarrow> tloe_seqnum_set_frame_seq_num_ack f0 (ucast (h_seq_num_ack (f_header af))))
    = f0\<lparr>f_header := (normal_header e)\<lparr>h_seq_num_ack := tx_ack_num e\<rparr>\<rparr>"
    using f0(2) by (auto simp: tx_ack_num_def tloe_seqnum_set_frame_seq_num_ack_def normal_header_def
        split: option.splits)
  define g where "g = f0\<lparr>f_header := (normal_header e)\<lparr>h_seq_num_ack := tx_ack_num e\<rparr>\<rparr>"
  have crd: "(if target \<noteq> 0
      then bind_run (get_outgoing_credits (fc (e\<lparr>ack_buffer := A\<rparr>)) target) (\<lambda>(credit, fc').
        Inr (g\<lparr>f_header := (f_header g)\<lparr>h_chan := of_nat target, h_credit := of_nat credit\<rparr>\<rparr>,
             e\<lparr>ack_buffer := A\<rparr>\<lparr>fc := fc'\<rparr>))
      else Inr (g, e\<lparr>ack_buffer := A\<rparr>)) = Inr (f, e\<lparr>ack_buffer := A, fc := fc'\<rparr>)" for A
    using credit no_credit by (cases "target = 0") (simp_all add: f_def g_def normal_header_def zero_header_def)
  have bo: "bug_on (sz = -1) () = Inr ()" using n(1) by (simp add: bug_on_def)
  have drop: "(case x of None \<Rightarrow> False | Some af \<Rightarrow> handle_ack_packet_drop d af) = False" for x d
    by (simp add: handle_ack_packet_drop_def split: option.splits)
  have st: "e\<lparr>ack_buffer := snd (dequeue (ack_buffer e)), fc := fc', fabric_sent := fabric_sent e @ [p],
      retransmit_buffer := snd (enqueue (retransmit_buffer e) (rbe\<lparr>rbe_state := TLOE_SENT\<rparr>)),
      next_tx_seq := tloe_seqnum_next (next_tx_seq e)\<rparr> = e'"
    by (simp add: e'_def el_def)
  have tx: "TX_transmit env e target mo ret = TX_out e' ret"
    unfolding TX_transmit_def Let_def sz_def [symmetric] n(3) f0(1) bo bind_run_simps dequeue_if_empty
      prod.case drop if_False ackf g_def [symmetric] crd
    using al nf st by (simp add: erb srf tloe_seqnum_next_tx_seq_inc_def el_def enqueue_then_set)
  have wf: "fc_wf fc'" using credit no_credit inv by (cases "target = 0") (auto simp: ep_inv_def)
  have key: "rbe_key el = (sz, padded f)" by (simp add: el_def rbe_def rbe_key_def)
  have "seq_wf (next_tx_seq e)" using inv by (auto simp: ep_inv_def tx_window_def)
  then have elok: "rbe_ok el" "rbe_seq el = next_tx_seq e"
    using n n65 fl f0(3)
    by (simp_all add: el_def rbe_def rbe_ok_def padded_def f_def normal_header_def)
  have inv': "ep_inv e'" unfolding e'_def using inv nf elok wf by (rule ep_inv_enqueued)
  have rb: "q_inv (retransmit_buffer e)" using inv by (simp add: ep_inv_def)
  have "map rbe_key (queue_list (retransmit_buffer e')) =
      map rbe_key (queue_list (retransmit_buffer e)) @ [(sz, padded f)]"
    using cq.enq_contents [OF rb nf, of el] key by (simp add: e'_def)
  note stored = this
  obtain q ps where q: "TX_out e' ret =
      Inr (ret, e'\<lparr>retransmit_buffer := q, fabric_sent := fabric_sent e' @ ps\<rparr>)"
    "q_inv q" "q_cap q = q_cap (retransmit_buffer e')"
    "map rbe_key (queue_list q) = map rbe_key (queue_list (retransmit_buffer e'))"
    "resent e' ps" "timed_out e' \<longrightarrow> ps = map (resend_packet e') (queue_list (retransmit_buffer e'))"
    using TX_out_ok [OF inv', of ret] by blast
  let ?e'' = "e'\<lparr>retransmit_buffer := q, fabric_sent := fabric_sent e' @ ps\<rparr>"
  have "resend_packet ?e'' = resend_packet e'" using resend_packet_cong [of ?e'' e'] by (simp add: fun_eq_iff)
  moreover have "timed_out e'" if "timed_out e"
    using that cq.enq_contents [OF rb nf, of el] by (auto simp: timed_out_def e'_def)
  ultimately have "resent ?e'' ps" "timed_out e \<longrightarrow> ps = map (resend_packet ?e'') (queue_list (retransmit_buffer ?e''))"
    using q(5,6) resend_packet_key [OF q(4)] by auto
  moreover have "ep_inv ?e''" using inv' q(2-4) by (intro ep_inv_requeue)
  ultimately show ?thesis
    using tx p f0 same fl n(1) e'_def q(1,4) stored
    by (intro exI [of _ f] exI [of _ p] exI [of _ ?e''] exI [of _ ps]) (simp add: f_def)
qed

section \<open>What TX does\<close>

text \<open>
  Whether a call of \<open>TX\<close> sends a frame of its own and what the frame carries: \<open>None\<close> no frame,
  \<open>Some None\<close> a frame without a message, \<open>Some (Some m)\<close> a frame with the message \<open>m\<close>.
\<close>

definition tx_plan :: "tloe_endpoint_t \<Rightarrow> tl_msg_t option \<Rightarrow> tl_msg_t option option" where
  "tx_plan e req =
     (if is_queue_full (retransmit_buffer e) then None
      else case req of
        None \<Rightarrow> if is_queue_empty (ack_buffer e) \<and> select_max_credit_channel (fc e) = 0 then None
                else Some None
      | Some m \<Rightarrow> if \<not> dec_refused (fc e) m then Some (Some m)
                  else if is_queue_empty (ack_buffer e) then None else Some None)"

text \<open>A message \<open>TX\<close> can be given: well formed, on an existing channel, and within the frame object.\<close>

definition req_ok :: "tl_msg_t option \<Rightarrow> bool" where
  "req_ok req \<longleftrightarrow> (case req of None \<Rightarrow> True
     | Some m \<Rightarrow> msg_ok m \<and> nat (tlmsg_get_chan m) < CHANNEL_NUM \<and> tloe_get_fsize req \<le> 528)"

definition untouched :: "tloe_endpoint_t \<Rightarrow> _" where
  "untouched e = (fabric_ops e, message_buffer e, tl_msg_buffer e, response_buffer e, iteration_ts e,
     next_rx_seq e, acked_seq e)"

lemma fc_wf_spend: "fc_wf F \<Longrightarrow> fc_wf (fc_spend F ch n)"
  by (simp add: fc_wf_def fc_spend_def)

lemma tx_flow_credits_spend [simp]: "tx_flow_credits (fc_spend F ch n) = tx_flow_credits F"
  by (simp add: fc_spend_def)

lemma ep_inv_fc: "ep_inv e \<Longrightarrow> fc_wf F \<Longrightarrow> ep_inv (e\<lparr>fc := F\<rparr>)"
  by (simp add: ep_inv_def tx_window_def fabric_up_def)

lemma fc_update_same: "fc e1 = F \<Longrightarrow> e1\<lparr>fc := F\<rparr> = e1"
  by (cases e1) auto

lemma TX_idle:
  assumes inv: "ep_inv e" and env: "env_ok env" and req: "req_ok req" and plan: "tx_plan e req = None"
  shows "\<exists>e' ps0 ps. TX env e req = Inr (req, e') \<and> ep_inv e' \<and> untouched e' = untouched e \<and>
    fc e' = fc e \<and> ack_buffer e' = ack_buffer e \<and> next_tx_seq e' = next_tx_seq e \<and>
    map rbe_key (queue_list (retransmit_buffer e')) = map rbe_key (queue_list (retransmit_buffer e)) \<and>
    fabric_sent e' = fabric_sent e @ ps0 @ ps \<and> (\<forall>p \<in> set ps0. ackonly_packet e p) \<and> length ps0 \<le> 2 \<and> resent e ps \<and>
    (timed_out e \<longrightarrow> ps = map (resend_packet e) (queue_list (retransmit_buffer e)))"
proof -
  obtain e1 ps1 where e1: "TX_ackonly env e = Inr e1" "core e1 = core e"
    "fabric_sent e1 = fabric_sent e @ ps1" "\<forall>p \<in> set ps1. ackonly_packet e p" "length ps1 \<le> 2"
    using TX_ackonly_ok [OF inv env] by blast
  note same = e1(2) [unfolded core_def, simplified]
  have inv1: "ep_inv e1" using ep_inv_core [OF e1(2)] inv by simp
  have "TX env e req = TX_out e1 req"
  proof (cases req)
    case None
    then show ?thesis
      using plan same by (auto simp: TX_def Let_def e1(1) tx_plan_def split: if_splits)
  next
    case (Some m)
    then have "nat (tlmsg_get_chan m) < CHANNEL_NUM" using req by (simp add: req_ok_def)
    then show ?thesis
      using plan same Some
      by (auto simp: TX_def Let_def e1(1) tx_plan_def fc_credit_dec_eq fc_update_same split: if_splits)
  qed
  moreover obtain q ps where q: "TX_out e1 req = Inr (req, e1\<lparr>retransmit_buffer := q,
        fabric_sent := fabric_sent e1 @ ps\<rparr>)"
    "q_inv q" "q_cap q = q_cap (retransmit_buffer e1)"
    "map rbe_key (queue_list q) = map rbe_key (queue_list (retransmit_buffer e1))"
    "resent e1 ps" "timed_out e1 \<longrightarrow> ps = map (resend_packet e1) (queue_list (retransmit_buffer e1))"
    using TX_out_ok [OF inv1, of req] by blast
  moreover have "timed_out e1 = timed_out e" using same by (simp add: timed_out_def)
  moreover have "resend_packet e1 = resend_packet e" using resend_packet_cong [of e1 e] same by (simp add: fun_eq_iff)
  ultimately show ?thesis
    using ep_inv_requeue [OF inv1 q(2-4)] same q(4) e1(3-5)
    by (intro exI [of _ "e1\<lparr>retransmit_buffer := q, fabric_sent := fabric_sent e1 @ ps\<rparr>"] exI [of _ ps1] exI [of _ ps])
       (simp add: untouched_def)
qed

lemma select_target_credit:
  fixes e
  defines "t \<equiv> select_max_credit_channel (fc e)"
  assumes "fc_wf (fc e)" "fc_wf F" "tx_flow_credits (F :: flowcontrol_t) = tx_flow_credits (fc e)"
  obtains credit :: nat and fc' :: flowcontrol_t where
    "t \<noteq> 0 \<Longrightarrow> get_outgoing_credits F t = Inr (credit, fc') \<and> fc_wf fc'"
    "t = 0 \<Longrightarrow> fc' = F \<and> credit = 0" "credits fc' = credits F" "credit < 32" "fc_wf fc'"
proof (cases "t = 0")
  case True
  then show ?thesis using assms(3) by (intro that) auto
next
  case False
  have t: "t < CHANNEL_NUM" unfolding t_def by (rule select_max_credit_channel_spec)
  have "tx_flow_credits (fc e) ! 0 < tx_flow_credits (fc e) ! t"
    using False unfolding t_def by (intro select_max_credit_channel_spec(3)) simp
  then have "tx_flow_credits F ! t \<noteq> 0" using assms(4) by auto
  from get_outgoing_credits_spec [OF assms(3) t this] obtain credit fc' where
    c: "get_outgoing_credits F t = Inr (credit, fc')" "credit < 32" "fc_wf fc'"
    "fc' = F\<lparr>tx_flow_credits := tx_flow_credits fc'\<rparr>" by blast
  have "credits fc' = credits F" by (subst c(4)) simp
  then show ?thesis using c False by (intro that) auto
qed

text \<open>The state in which the frame is prepared: credits are spent for a message that is carried.\<close>

definition tx_spent :: "tloe_endpoint_t \<Rightarrow> tl_msg_t option \<Rightarrow> flowcontrol_t" where
  "tx_spent e mo = (case mo of None \<Rightarrow> fc e
     | Some m \<Rightarrow> fc_spend (fc e) (nat (tlmsg_get_chan m)) (word_of_int (tlmsg_get_flits_cnt m)))"

lemma TX_reaches_transmit:
  assumes req: "req_ok req" and plan: "tx_plan e req = Some mo"
    and e1: "TX_ackonly env e = Inr e1" "core e1 = core e"
  shows "TX env e req = TX_transmit env (e1\<lparr>fc := tx_spent e mo\<rparr>) (select_max_credit_channel (fc e))
    mo (if mo = None then req else None) \<and> req_ok mo"
proof (cases req)
  case None
  then show ?thesis using plan e1(2)
    by (auto simp: TX_def Let_def e1(1) tx_plan_def tx_spent_def core_def fc_update_same req_ok_def split: if_splits)
next
  case (Some m)
  then have ch: "nat (tlmsg_get_chan m) < CHANNEL_NUM" using req by (simp add: req_ok_def)
  have "tlmsg_get_flits_cnt m \<noteq> -1" using flits_cnt_bounds(1) [of m] by simp
  then show ?thesis using plan e1(2) Some ch req
    by (auto simp: TX_def Let_def e1(1) tx_plan_def tx_spent_def core_def fc_update_same fc_credit_dec_eq req_ok_def
        split: if_splits)
qed

lemma TX_sends:
  assumes inv: "ep_inv e" and env: "env_ok env" and al: "rbe_alloc env" and req: "req_ok req"
    and plan: "tx_plan e req = Some mo"
  shows "\<exists>f p e' credit ps0 ps. TX env e req = Inr (if mo = None then req else None, e') \<and>
    ep_inv e' \<and> untouched e' = untouched e \<and> ack_buffer e' = snd (dequeue (ack_buffer e)) \<and>
    credits (fc e') = credits (tx_spent e mo) \<and>
    next_tx_seq e' = tloe_seqnum_next (next_tx_seq e) \<and>
    map rbe_key (queue_list (retransmit_buffer e')) =
      map rbe_key (queue_list (retransmit_buffer e)) @ [(tloe_get_fsize mo, padded f)] \<and>
    fabric_sent e' = fabric_sent e @ ps0 @ p # ps \<and> (\<forall>p \<in> set ps0. ackonly_packet e p) \<and> length ps0 \<le> 2 \<and> resent e' ps \<and>
    (timed_out e \<longrightarrow> ps = map (resend_packet e') (queue_list (retransmit_buffer e'))) \<and> credit < 32 \<and>
    credit = announcement (fc e) \<and> tx_flow_credits (fc e') = owed_after (fc e) \<and>
    f_header f = (normal_header e)\<lparr>h_seq_num_ack := tx_ack_num e,
      h_chan := of_nat (select_max_credit_channel (fc e)), h_credit := of_nat credit\<rparr> \<and>
    8 + 8 * int (length (flits f)) = tloe_get_fsize mo \<and>
    tloe_frame_to_packet f (tloe_get_fsize mo) = Inr p \<and>
    tloe_get_mask f (tloe_get_fsize mo) = Inr (if mo = None then 0 else 1) \<and>
    (\<forall>m. mo = Some m \<longrightarrow> tlmsg_get_total_size m \<le> 40 \<longrightarrow> tloe_get_tlmsg f 0 = Inr m)"
proof -
  let ?t = "select_max_credit_channel (fc e)" and ?F = "tx_spent e mo" and ?sz = "tloe_get_fsize mo"
  obtain e1 ps0 where e1: "TX_ackonly env e = Inr e1" "core e1 = core e"
    "fabric_sent e1 = fabric_sent e @ ps0" "\<forall>p \<in> set ps0. ackonly_packet e p" "length ps0 \<le> 2"
    using TX_ackonly_ok [OF inv env] by blast
  note same = e1(2) [unfolded core_def, simplified]
  have tx: "TX env e req = TX_transmit env (e1\<lparr>fc := ?F\<rparr>) ?t mo (if mo = None then req else None)"
    and mo: "req_ok mo"
    using TX_reaches_transmit [OF req plan e1(1,2)] by simp_all
  have wf: "fc_wf (fc e)" using inv by (simp add: ep_inv_def)
  have wfF: "fc_wf ?F" "tx_flow_credits ?F = tx_flow_credits (fc e)"
    using wf by (auto simp: tx_spent_def fc_wf_spend split: option.splits)
  from select_target_credit [OF wf wfF] obtain credit fc' where
    c: "?t \<noteq> 0 \<Longrightarrow> get_outgoing_credits ?F ?t = Inr (credit, fc') \<and> fc_wf fc'"
      "?t = 0 \<Longrightarrow> fc' = ?F \<and> credit = 0" "credits fc' = credits ?F" "credit < 32" by metis
  have an: "credit = announcement (fc e)" "tx_flow_credits fc' = owed_after (fc e)"
    using c(1,2) outgoing_announcement [of ?F "fc e" credit fc'] wfF(2) by (auto simp: announcement_def owed_after_def Let_def)
  have ie: "ep_inv (e1\<lparr>fc := ?F\<rparr>)"
    using ep_inv_core [OF e1(2)] inv wfF(1) by (simp add: ep_inv_fc)
  have nf: "\<not> is_queue_full (retransmit_buffer (e1\<lparr>fc := ?F\<rparr>))"
    using plan same by (auto simp: tx_plan_def)
  have endpoint_select: "fc (e1\<lparr>fc := F\<rparr>) = F" "retransmit_buffer (e1\<lparr>fc := F\<rparr>) = retransmit_buffer e1"
    "ack_buffer (e1\<lparr>fc := F\<rparr>) = ack_buffer e1" "next_tx_seq (e1\<lparr>fc := F\<rparr>) = next_tx_seq e1"
    "fabric_sent (e1\<lparr>fc := F\<rparr>) = fabric_sent e1" for F by simp_all
  have mok: "\<forall>m. mo = Some m \<longrightarrow> msg_ok m" using mo by (auto simp: req_ok_def)
  have fit: "?sz \<le> 528" using mo by (cases mo) (auto simp: req_ok_def tloe_get_fsize_def)
  have c12: "?t \<noteq> 0 \<longrightarrow> get_outgoing_credits (fc (e1\<lparr>fc := ?F\<rparr>)) ?t = Inr (credit, fc') \<and> fc_wf fc'"
    "?t = 0 \<longrightarrow> fc' = fc (e1\<lparr>fc := ?F\<rparr>) \<and> credit = 0"
    using c(1,2) by simp_all
  obtain f p e' ps where r:
    "TX_transmit env (e1\<lparr>fc := ?F\<rparr>) ?t mo (if mo = None then req else None) =
      Inr (if mo = None then req else None, e')" "ep_inv e'"
    "e' = e1\<lparr>fc := ?F, ack_buffer := snd (dequeue (ack_buffer e1)), fc := fc',
       next_tx_seq := tloe_seqnum_next (next_tx_seq e1), retransmit_buffer := retransmit_buffer e',
       fabric_sent := fabric_sent e1 @ p # ps\<rparr>"
    "map rbe_key (queue_list (retransmit_buffer e')) =
      map rbe_key (queue_list (retransmit_buffer e1)) @ [(?sz, padded f)]"
    "f_header f = (normal_header (e1\<lparr>fc := ?F\<rparr>))\<lparr>h_seq_num_ack := tx_ack_num (e1\<lparr>fc := ?F\<rparr>),
       h_chan := of_nat ?t, h_credit := of_nat credit\<rparr>"
    "tloe_frame_to_packet f ?sz = Inr p" "8 + 8 * int (length (flits f)) = ?sz"
    "tloe_get_mask f ?sz = Inr (if mo = None then 0 else 1)"
    "\<forall>m. mo = Some m \<longrightarrow> tlmsg_get_total_size m \<le> 40 \<longrightarrow> tloe_get_tlmsg f 0 = Inr m" "resent e' ps"
    "timed_out (e1\<lparr>fc := ?F\<rparr>) \<longrightarrow> ps = map (resend_packet e') (queue_list (retransmit_buffer e'))"
    using TX_transmit_ok [OF ie nf al mok fit c12, of "if mo = None then req else None"]
    unfolding endpoint_select by (elim exE conjE) (rule that)
  have "normal_header (e1\<lparr>fc := ?F\<rparr>) = normal_header e" "tx_ack_num (e1\<lparr>fc := ?F\<rparr>) = tx_ack_num e"
    using same by (simp_all add: normal_header_def tx_ack_num_def cong: option.case_cong)
  moreover have "ack_buffer e' = snd (dequeue (ack_buffer e1))" "fc e' = fc'" "untouched e' = untouched e1"
    "next_tx_seq e' = tloe_seqnum_next (next_tx_seq e1)" "fabric_sent e' = fabric_sent e1 @ p # ps"
    using arg_cong [OF r(3), of ack_buffer] arg_cong [OF r(3), of fc] arg_cong [OF r(3), of untouched]
      arg_cong [OF r(3), of next_tx_seq] arg_cong [OF r(3), of fabric_sent]
    by (simp_all add: untouched_def)
  moreover have "timed_out (e1\<lparr>fc := ?F\<rparr>) = timed_out e" using same by (simp add: timed_out_def)
  ultimately show ?thesis
    using tx r(1,2,4-) same c(3,4) an e1(3-5)
    by (intro exI [of _ f] exI [of _ p] exI [of _ e'] exI [of _ credit] exI [of _ ps0] exI [of _ ps])
       (simp add: untouched_def)
qed

text \<open>The result of \<open>TX\<close> as its caller uses it.\<close>

lemma TX_result:
  assumes "ep_inv e" "env_ok env" "rbe_alloc env" "req_ok req"
  shows "\<exists>ret e'. TX env e req = Inr (ret, e') \<and> ep_inv e' \<and> untouched e' = untouched e \<and>
    (ret = None \<or> ret = req) \<and> (ack_buffer e' = ack_buffer e \<or> ack_buffer e' = snd (dequeue (ack_buffer e)))"
proof (cases "tx_plan e req")
  case None
  from TX_idle [OF assms(1,2,4) None] show ?thesis by blast
next
  case (Some mo)
  from TX_sends [OF assms Some] show ?thesis by (elim exE conjE) auto
qed

text \<open>Two acknowledgement-only frames, a frame of its own and the window of four: more one \<open>TX\<close> never sends.\<close>

lemma TX_at_most_seven:
  assumes "ep_inv e" "env_ok env" "rbe_alloc env" "req_ok req" "TX env e req = Inr (ret, e')"
  shows "\<exists>ps. fabric_sent e' = fabric_sent e @ ps \<and> length ps \<le> 7"
proof -
  have four: "q_len (retransmit_buffer d) \<le> 4" if "ep_inv d" for d
    using cq.bound [of "retransmit_buffer d"] that by (simp add: ep_inv_def)
  have r: "length ps \<le> 4" if "ep_inv d" "resent d ps" for d ps using that four [of d] by auto
  show ?thesis
  proof (cases "tx_plan e req")
    case None
    from TX_idle [OF assms(1,2,4) None] obtain ps0 ps where "fabric_sent e' = fabric_sent e @ ps0 @ ps" "length ps0 \<le> 2" "resent e ps"
      using assms(5) by auto
    then show ?thesis using r [OF assms(1)] by (intro exI [of _ "ps0 @ ps"]) fastforce
  next
    case (Some mo)
    from TX_sends [OF assms(1-4) Some] obtain ps0 p ps where
      "fabric_sent e' = fabric_sent e @ ps0 @ p # ps" "length ps0 \<le> 2" "resent e' ps" "ep_inv e'"
      using assms(5) by auto
    then show ?thesis using r [of e' ps] by (intro exI [of _ "ps0 @ p # ps"]) auto
  qed
qed

section \<open>Messages TX cannot send\<close>

text \<open>A heap object smaller than its header announces: copying it into the frame reads past its end.\<close>

lemma TX_short_message:
  assumes inv: "ep_inv e" and env: "env_ok env" and ch: "nat (tlmsg_get_chan m) < CHANNEL_NUM"
    and nf: "\<not> is_queue_full (retransmit_buffer e)" and cr: "\<not> dec_refused (fc e) m"
    and short: "int (length m) < tlmsg_get_total_size m"
  shows "TX env e (Some m) = Inl Undefined"
proof -
  obtain e1 where e1: "TX_ackonly env e = Inr e1" "core e1 = core e" using TX_ackonly_ok [OF inv env] by blast
  have m1: "tlmsg_get_flits_cnt m \<noteq> -1" using flits_cnt_bounds(1) [of m] by simp
  have "tloe_set_tlmsg f m = Inl Undefined" for f
    using short by (auto simp: tloe_set_tlmsg_def Let_def)
  then have "TX_transmit env d t (Some m) None = Inl Undefined" for d t
    using tloe_get_fsize_bounds(1) [of "Some m"] by (simp add: TX_transmit_def prepare_normal_frame_def Let_def)
  then show ?thesis
    using nf ch cr m1 e1(2) by (simp add: TX_def Let_def e1(1) core_def fc_credit_dec_eq)
qed

text \<open>A frame larger than the frame object of a retransmit buffer element: copying it writes past its end.\<close>

lemma TX_oversize_message:
  assumes inv: "ep_inv e" and env: "env_ok env" "rbe_alloc env" and ch: "nat (tlmsg_get_chan m) < CHANNEL_NUM"
    and nf: "\<not> is_queue_full (retransmit_buffer e)" and cr: "\<not> dec_refused (fc e) m"
    and m: "msg_ok m" and big: "528 < tloe_get_fsize (Some m)"
  shows "TX env e (Some m) = Inl Undefined"
proof -
  let ?sz = "tloe_get_fsize (Some m)" and ?t = "select_max_credit_channel (fc e)" and ?F = "tx_spent e (Some m)"
  obtain e1 where e1: "TX_ackonly env e = Inr e1" "core e1 = core e" using TX_ackonly_ok [OF inv env(1)] by blast
  note same = e1(2) [unfolded core_def, simplified]
  have m1: "tlmsg_get_flits_cnt m \<noteq> -1" using flits_cnt_bounds(1) [of m] by simp
  have tx: "TX env e (Some m) = TX_transmit env (e1\<lparr>fc := ?F\<rparr>) ?t (Some m) None"
    using nf ch cr m1 same by (simp add: TX_def Let_def e1(1) fc_credit_dec_eq tx_spent_def)
  have wf: "fc_wf (fc e)" using inv by (simp add: ep_inv_def)
  have wfF: "fc_wf ?F" "tx_flow_credits ?F = tx_flow_credits (fc e)" using wf by (simp_all add: tx_spent_def fc_wf_spend)
  from select_target_credit [OF wf wfF] obtain credit fc' where
    c: "?t \<noteq> 0 \<Longrightarrow> get_outgoing_credits ?F ?t = Inr (credit, fc')" by metis
  obtain n where n: "?sz = 8 + 8 * int n" "nat ((?sz - 8) div 8) = n" using fsize_flits [of "Some m"] m by blast
  obtain f where f: "prepare_normal_frame (e1\<lparr>fc := ?F\<rparr>) (zero_frame n) (Some m) ?sz = Inr f" "length (flits f) = n"
    using prepare_normal_frame_spec [of "Some m" "e1\<lparr>fc := ?F\<rparr>"] m n(2) by auto
  have bad: "copy_frame (zero_frame MAX_SIZE_FLIT) g ?sz = Inl Undefined" if "flits g = flits f" for g
    using big n(1) that by (auto simp: copy_frame_def zero_frame_def Let_def)
  have "enqueue_retransmit_buffer d \<lparr>rbe_state = 0, f_size = 0, send_time = 0, tloe_frame = zero_frame MAX_SIZE_FLIT\<rparr> g ?sz
      = Inl Undefined" if "flits g = flits f" for d g
    by (simp add: enqueue_retransmit_buffer_def bad [OF that])
  then show ?thesis
    unfolding tx using f(1) n c env(2) big
    by (auto simp: TX_transmit_def Let_def handle_ack_packet_drop_def tloe_seqnum_set_frame_seq_num_ack_def
        split: prod.splits option.splits)
qed

section \<open>Properties\<close>

text \<open>
  C12: in every state that satisfies the endpoint invariant \<open>TX\<close> returns, the invariant holds again, at most
  four frames are unacknowledged, and the request is either consumed or handed back unchanged. It is
  consumed exactly when the window has room and the message's channel has credit.
\<close>

theorem TX_total:
  assumes "ep_inv e" "env_ok env" "rbe_alloc env" "req_ok req"
  shows "\<exists>ret e'. TX env e req = Inr (ret, e') \<and> ep_inv e' \<and> q_len (retransmit_buffer e') \<le> WINDOW_SIZE \<and>
    untouched e' = untouched e \<and>
    ret = (case req of None \<Rightarrow> None
           | Some m \<Rightarrow> if is_queue_full (retransmit_buffer e) \<or> dec_refused (fc e) m then Some m else None)"
proof -
  have len: "ep_inv d \<Longrightarrow> q_len (retransmit_buffer d) \<le> 4" for d
    using cq.bound [of "retransmit_buffer d"] by (simp add: ep_inv_def)
  define ret where "ret = (case req of None \<Rightarrow> None
      | Some m \<Rightarrow> if is_queue_full (retransmit_buffer e) \<or> dec_refused (fc e) m then Some m else None)"
  have "\<exists>e'. TX env e req = Inr (ret, e') \<and> ep_inv e' \<and> untouched e' = untouched e"
  proof (cases "tx_plan e req")
    case None
    then have "req = ret"
      by (auto simp: ret_def tx_plan_def split: option.splits if_splits)
    with TX_idle [OF assms(1,2,4) None] show ?thesis by blast
  next
    case (Some mo)
    then have "(if mo = None then req else None) = ret"
      by (auto simp: ret_def tx_plan_def split: option.splits if_splits)
    with TX_sends [OF assms Some] show ?thesis by (elim exE conjE) auto
  qed
  with len ret_def show ?thesis by blast
qed

definition sample_env :: tx_env where
  "sample_env = \<lparr>junk1 = zero_frame 65, junk2 = zero_frame 65, rbe_alloc = True\<rparr>"

lemma sample_env_ok: "env_ok sample_env" "rbe_alloc sample_env"
  by (simp_all add: sample_env_def env_ok_def zero_frame_def)

lemma sample_req_ok: "req_ok (Some (sample_get a))"
  by (simp add: req_ok_def tloe_get_fsize_def)

lemma fresh_sends:
  "\<not> is_queue_full (retransmit_buffer (fresh_endpoint h))" "\<not> dec_refused (fc (fresh_endpoint h)) (sample_get a)"
  "tx_plan (fresh_endpoint h) (Some (sample_get a)) = Some (Some (sample_get a))"
  by (simp_all add: tx_plan_def fresh_endpoint_def is_queue_full_def create_queue_def init_queue_def
      dec_refused_def initial_fc_def)

theorem TX_total_witness:
  "\<exists>ret e'. TX sample_env (fresh_endpoint mq_fabric) (Some (sample_get 8)) = Inr (ret, e') \<and> ep_inv e' \<and>
    q_len (retransmit_buffer e') \<le> WINDOW_SIZE \<and> untouched e' = untouched (fresh_endpoint mq_fabric) \<and> ret = None"
  using TX_total [OF ep_inv_fresh_mq sample_env_ok sample_req_ok [of 8]] fresh_sends [of mq_fabric] by simp




text \<open>An endpoint without credit on channel A that owes its peer four flits of credit there.\<close>

definition starved :: tloe_endpoint_t where
  "starved = (fresh_endpoint mq_fabric)\<lparr>fc := initial_fc\<lparr>credits := [128, 0, 128, 128, 128, 128],
     tx_flow_credits := [0, 4, 0, 0, 0, 0]\<rparr>\<rparr>"

lemma starved_facts:
  "ep_inv starved" "is_queue_empty (ack_buffer starved)" "dec_refused (fc starved) (sample_get a)"
  "select_max_credit_channel (fc starved) = 1"
proof -
  have "fc_wf (initial_fc\<lparr>credits := [128, 0, 128, 128, 128, 128], tx_flow_credits := [0, 4, 0, 0, 0, 0]\<rparr>)"
    by (simp add: fc_wf_def initial_fc_def zero_flowcontrol_def Let_def)
  then show "ep_inv starved" unfolding starved_def by (intro ep_inv_fc ep_inv_fresh_mq)
  show "is_queue_empty (ack_buffer starved)" "dec_refused (fc starved) (sample_get a)"
    "select_max_credit_channel (fc starved) = 1"
    by (simp_all add: starved_def fresh_endpoint_def is_queue_empty_def create_queue_def init_queue_def
        dec_refused_def select_max_credit_channel_def upt_conv_Cons)
qed



definition nak_pending :: tloe_endpoint_t where
  "nak_pending = (fresh_endpoint mq_fabric)\<lparr>ack_buffer := snd (enqueue (create_queue 2048) (zero_frame 65))\<rparr>"

lemma nak_pending_facts:
  "ep_inv nak_pending" "\<not> is_queue_full (retransmit_buffer nak_pending)"
  "getfront (ack_buffer nak_pending) = Some (zero_frame 65)"
proof -
  have i: "q_inv (create_queue 2048 :: tloe_frame_t CircularQueue)" by (simp add: create_queue_inv)
  have nf: "\<not> is_queue_full (create_queue 2048 :: tloe_frame_t CircularQueue)"
    by (simp add: is_queue_full_def create_queue_def init_queue_def)
  have i': "q_inv (snd (enqueue (create_queue 2048) (zero_frame 65)))" using cq.enq_inv [OF i] .
  then show "ep_inv nak_pending"
    using ep_inv_fresh_mq by (simp add: ep_inv_def nak_pending_def tx_window_def fabric_up_def)
  show "\<not> is_queue_full (retransmit_buffer nak_pending)" using fresh_sends(1) by (simp add: nak_pending_def)
  show "getfront (ack_buffer nak_pending) = Some (zero_frame 65)"
    using cq.peek_contents [OF i'] cq.enq_contents [OF i nf] by (simp add: nak_pending_def)
qed


text \<open>
  At the end of every \<open>TX\<close>, when the oldest unacknowledged frame was sent 100 ms ago or earlier, all
  unacknowledged frames are sent again, oldest first, and otherwise none is.
\<close>

theorem TX_timeout_resends_window:
  assumes "ep_inv e" "queue_list (retransmit_buffer e) = x # xs"
  shows "\<exists>e'. TX_out e ret = Inr (ret, e') \<and> ep_inv e' \<and>
    (if is_timeout_tx (iteration_ts e) (send_time x)
     then fabric_sent e' = fabric_sent e @ map (resend_packet e) (x # xs) \<and>
       map rbe_key (queue_list (retransmit_buffer e')) = map rbe_key (x # xs) \<and>
       (\<forall>el \<in> set (queue_list (retransmit_buffer e')). send_time el = get_current_timestamp (iteration_ts e))
     else e' = e)"
proof -
  let ?rb = "retransmit_buffer e"
  have i: "q_inv ?rb" "\<forall>el \<in> set (queue_list ?rb). rbe_ok el" "fabric_up e"
    using assms(1) by (simp_all add: ep_inv_def)
  have fr: "getfront ?rb = Some x" using assms(2) i(1) by (simp add: cq.peek_contents)
  show ?thesis
  proof (cases "is_timeout_tx (iteration_ts e) (send_time x)")
    case False
    then show ?thesis using fr assms(1) by (simp add: TX_out_def)
  next
    case True
    note all = window_resends_all [OF assms]
    obtain q where q: "retransmit e (rbe_seq x) = Inr (e\<lparr>retransmit_buffer := q,
        fabric_sent := fabric_sent e @ map (resend_packet e) (queue_list ?rb)\<rparr>)"
      "q_inv q" "q_cap q = q_cap ?rb" "queue_list q = map (mark_resent e (rbe_seq x)) (queue_list ?rb)"
      using retransmit_spec [OF i, of "rbe_seq x"] all by auto
    have keys: "map rbe_key (queue_list q) = map rbe_key (queue_list ?rb)" by (simp add: q(4))
    have "resends (rbe_seq x) el" if "el \<in> set (queue_list ?rb)" for el
      using all that by (metis (no_types, lifting) filter_id_conv)
    then have "\<forall>el \<in> set (queue_list q). send_time el = get_current_timestamp (iteration_ts e)"
      by (auto simp: q(4) mark_resent_def)
    then show ?thesis
      using True fr q(1) keys ep_inv_requeue [OF assms(1) q(2,3) keys] assms(2) by (simp add: TX_out_def)
  qed
qed

theorem TX_timeout_resends_window_witness:
  "\<exists>e'. TX_out (one_in_flight\<lparr>iteration_ts := \<lparr>tv_sec = 1, tv_nsec = 0\<rparr>\<rparr>) None = Inr (None, e') \<and> ep_inv e' \<and>
    length (fabric_sent e') = 1"
proof -
  let ?e = "one_in_flight\<lparr>iteration_ts := \<lparr>tv_sec = 1, tv_nsec = 0\<rparr>\<rparr>"
  have "ep_inv ?e" using ep_inv_one_in_flight by (simp add: ep_inv_def tx_window_def fabric_up_def)
  moreover have "is_timeout_tx \<lparr>tv_sec = 1, tv_nsec = 0\<rparr> (send_time sample_rbe)"
    by (simp add: is_timeout_tx_def get_current_timestamp_def sample_rbe_def)
  ultimately show ?thesis
    using TX_timeout_resends_window [of ?e sample_rbe "[]" None] one_in_flight_queue(2) one_in_flight_fields by auto
qed

end
