(* ===== verification/Receiver.thy ===== *)
theory Receiver
  imports Transmitter
begin

text \<open>
  The receive half of an endpoint iteration (\<^verbatim>\<open>tloe_receiver.c\<close>, \<^verbatim>\<open>tloe_receiver.h\<close>): acknowledgement
  handling, classification of a frame by its sequence number, and delivery of the TileLink messages
  it carries.
\<close>

section \<open>Operations\<close>

definition serve_ack :: "tloe_endpoint_t \<Rightarrow> tloe_frame_t \<Rightarrow> tloe_endpoint_t run" where
  "serve_ack e recv_tloeframe =
     bind_run (slide_window e recv_tloeframe) (\<lambda>e.
     bind_run (if uint (h_ack (f_header recv_tloeframe)) = TLOE_NAK
               then retransmit e (tloe_seqnum_next (ucast (h_seq_num_ack (f_header recv_tloeframe))))
               else Inr e) (\<lambda>e.
     Inr (e\<lparr>ack_cnt := ack_cnt e + 1\<rparr>)))"

lemma unat_drop_bit_1_less: "m \<noteq> 0 \<Longrightarrow> unat (drop_bit 1 m) < unat m" for m :: u64
proof -
  assume "m \<noteq> 0"
  then have "0 < unat m" by (simp add: unat_gt_0)
  then show ?thesis by (simp add: drop_bit_eq_div unat_div)
qed

text \<open>The loop of \<open>serve_normal_request\<close> over the bits of the mask.\<close>

function deliver_loop ::
  "tloe_frame_t \<Rightarrow> u64 \<Rightarrow> nat \<Rightarrow> tl_msg_t CircularQueue \<Rightarrow> tl_msg_t CircularQueue run" where
  "deliver_loop frame msk i q =
     (if msk = 0 then Inr q
      else if bit msk 0
      then (case tloe_get_tlmsg frame i of
              Inl s \<Rightarrow> Inl s
            | Inr tlmsg \<Rightarrow>
                (case enqueue q tlmsg of
                   (False, _) \<Rightarrow> Inl Exit_Failure
                 | (True, q') \<Rightarrow> deliver_loop frame (drop_bit 1 msk) (i + 1) q'))
      else deliver_loop frame (drop_bit 1 msk) (i + 1) q)"
  by pat_completeness auto
termination
  by (relation "measure (\<lambda>(_, m, _, _). unat m)") (use unat_drop_bit_1_less in auto)

declare deliver_loop.simps [simp del]

definition serve_normal_request :: "tloe_endpoint_t \<Rightarrow> tloe_frame_t \<Rightarrow> int \<Rightarrow> tloe_endpoint_t run" where
  "serve_normal_request e recv_tloeframe n =
     (let e = tloe_seqnum_update_next_rx_seq e recv_tloeframe;
          e = tloe_seqnum_update_acked_seq e recv_tloeframe
      in bind_run (tloe_get_mask recv_tloeframe n) (\<lambda>msk.
         bind_run (deliver_loop recv_tloeframe msk 0 (tl_msg_buffer e)) (\<lambda>q.
         let e = e\<lparr>tl_msg_buffer := q\<rparr> in
         bind_run (fc_credit_inc (fc e) recv_tloeframe) (\<lambda>(_, fc'). Inr (e\<lparr>fc := fc'\<rparr>)))))"

definition serve_zero_tlmsg_request :: "tloe_endpoint_t \<Rightarrow> tloe_frame_t \<Rightarrow> tloe_endpoint_t run" where
  "serve_zero_tlmsg_request e recv_tloeframe =
     (let e = tloe_seqnum_update_next_rx_seq e recv_tloeframe;
          e = tloe_seqnum_update_acked_seq e recv_tloeframe;
          e = e\<lparr>should_send_ackonly_frame := True\<rparr>
      in bind_run (fc_credit_inc (fc e) recv_tloeframe) (\<lambda>(_, fc'). Inr (e\<lparr>fc := fc'\<rparr>)))"

definition serve_duplicate_request ::
  "tloe_endpoint_t \<Rightarrow> tloe_frame_t \<Rightarrow> int \<Rightarrow> tloe_endpoint_t run" where
  "serve_duplicate_request e recv_tloeframe n =
     (let h = f_header recv_tloeframe;
          tloeframe = recv_tloeframe\<lparr>f_header := h\<lparr>h_seq_num_ack := h_seq_num h,
            h_ack := word_of_int TLOE_ACK, h_chan := 0, h_credit := 0\<rparr>\<rparr>
      in bind_run (tloe_set_mask tloeframe 0 n) (\<lambda>(_, tloeframe).
         let (enqueued, q) = enqueue (ack_buffer e) tloeframe in
         bug_on (\<not> enqueued) (e\<lparr>ack_buffer := q, dup_cnt := dup_cnt e + 1\<rparr>)))"

definition serve_oos_request ::
  "tloe_endpoint_t \<Rightarrow> tloe_frame_t \<Rightarrow> int \<Rightarrow> u32 \<Rightarrow> tloe_endpoint_t run" where
  "serve_oos_request e recv_tloeframe n seq_num =
     (let last_proper_rx_seq = seq_num;
          tloeframe = tloe_seqnum_set_frame_seq_num_ack recv_tloeframe last_proper_rx_seq;
          tloeframe = tloeframe\<lparr>f_header := (f_header tloeframe)\<lparr>h_ack := word_of_int TLOE_NAK\<rparr>\<rparr>
      in bind_run (tloe_set_mask tloeframe 0 n) (\<lambda>(_, tloeframe).
         let tloeframe = tloeframe\<lparr>f_header := (f_header tloeframe)\<lparr>h_chan := 0, h_credit := 0\<rparr>\<rparr>;
             (enqueued, q) = enqueue (ack_buffer e) tloeframe
         in bug_on (\<not> enqueued) (e\<lparr>ack_buffer := q, oos_cnt := oos_cnt e + 1\<rparr>)))"

datatype tloe_rx_req_type_t = REQ_NORMAL | REQ_DUPLICATE | REQ_OOS

definition tloe_rx_get_req_type :: "tloe_endpoint_t \<Rightarrow> tloe_frame_t \<Rightarrow> tloe_rx_req_type_t" where
  "tloe_rx_get_req_type e f =
     (let diff_seq = tloe_seqnum_cmp (ucast (h_seq_num (f_header f))) (next_rx_seq e) in
      if diff_seq = 0 then REQ_NORMAL else if diff_seq < 0 then REQ_DUPLICATE else REQ_OOS)"

text \<open>From the packet to the end of \<open>RX\<close>.\<close>

definition RX_frame :: "tloe_endpoint_t \<Rightarrow> tloe_frame_t \<Rightarrow> int \<Rightarrow> tloe_endpoint_t run" where
  "RX_frame e recv_tloeframe n =
     bind_run (serve_ack e recv_tloeframe) (\<lambda>e.
     let e = e\<lparr>ackonly_frame_sent := False\<rparr> in
     if is_ackonly_frame recv_tloeframe then Inr (tloe_seqnum_update_acked_seq e recv_tloeframe)
     else if handle_normal_frame_drop e then Inr e
     else case tloe_rx_get_req_type e recv_tloeframe of
            REQ_NORMAL \<Rightarrow>
              if handle_single_normal_frame_drop e then Inr e
              else bind_run (is_zero_tl_frame recv_tloeframe n) (\<lambda>z.
                if \<not> z then serve_normal_request e recv_tloeframe n
                else serve_zero_tlmsg_request e recv_tloeframe)
          | REQ_DUPLICATE \<Rightarrow> serve_duplicate_request e recv_tloeframe n
          | REQ_OOS \<Rightarrow> serve_oos_request e recv_tloeframe n (tloe_seqnum_prev (next_rx_seq e)))"

text \<open>\<open>alloc\<close> says whether the allocation of the frame succeeds, \<open>rx\<close> what the fabric delivers.\<close>

definition RX :: "bool \<Rightarrow> recv_result \<Rightarrow> tloe_endpoint_t \<Rightarrow> tloe_endpoint_t run" where
  "RX alloc rx e =
     (if \<not> alloc then Inr e
      else let (n, recv_buffer) = tloe_fabric_recv e rx in
        if n < 0 then Inr e
        else bind_run (packet_to_tloe_frame recv_buffer n (zero_frame MAX_SIZE_FLIT))
               (\<lambda>recv_tloeframe. RX_frame e recv_tloeframe n))"

section \<open>The mask loop\<close>

text \<open>The reference definition: the messages at the set bits of the mask, lowest bit first.\<close>

definition mask_bits :: "u64 \<Rightarrow> nat list" where
  "mask_bits msk = filter (bit msk) [0..<64]"

definition deliver_one ::
  "tloe_frame_t \<Rightarrow> nat \<Rightarrow> tl_msg_t CircularQueue \<Rightarrow> tl_msg_t CircularQueue run" where
  "deliver_one frame i q =
     bind_run (tloe_get_tlmsg frame i) (\<lambda>m.
       if is_queue_full q then Inl Exit_Failure else Inr (snd (enqueue q m)))"

lemma mask_bits_shift:
  "mask_bits msk = (if bit msk 0 then [0] else []) @ map Suc (mask_bits (drop_bit 1 msk))"
proof -
  have u: "[0..<64] = 0 # map Suc [0..<63]" "[0..<64] = [0..<63] @ [63]"
    by (simp_all add: map_Suc_upt upt_conv_Cons)
  have p: "bit (drop_bit 1 msk) = bit msk \<circ> Suc" by (simp add: fun_eq_iff bit_drop_bit_eq)
  have "\<not> bit msk 64" by (auto dest: bit_imp_le_length)
  then have "mask_bits (drop_bit 1 msk) = filter (bit msk \<circ> Suc) [0..<63]"
    unfolding mask_bits_def p u(2) by simp
  then show ?thesis unfolding mask_bits_def u(1) by (simp add: filter_map)
qed

lemma mask_bits_0 [simp]: "mask_bits 0 = []"
  by (simp add: mask_bits_def)

lemma mask_bits_1 [simp]: "mask_bits 1 = [0]"
  by (simp add: mask_bits_shift [of 1] drop_bit_eq_div)

lemma deliver_loop_eq:
  "deliver_loop frame msk i q = fold_run (deliver_one frame) (map ((+) i) (mask_bits msk)) q"
proof (induction frame msk i q rule: deliver_loop.induct)
  case (1 frame msk i q)
  have sh: "map ((+) i) (map Suc xs) = map ((+) (i + 1)) xs" for xs by simp
  show ?case
  proof (cases "msk = 0")
    case True
    then show ?thesis by (simp add: deliver_loop.simps)
  next
    case False
    show ?thesis
    proof (cases "bit msk 0")
      case True
      show ?thesis
      proof (cases "\<exists>m. tloe_get_tlmsg frame i = Inr m \<and> \<not> is_queue_full q")
        case ok: True
        then obtain m q' where m: "tloe_get_tlmsg frame i = Inr m" "enqueue q m = (True, q')"
          by (auto simp: enqueue_def)
        have "deliver_one frame i q = Inr q'" using ok m by (simp add: deliver_one_def)
        moreover have "deliver_loop frame msk i q = deliver_loop frame (drop_bit 1 msk) (i + 1) q'"
          using False True m by (subst deliver_loop.simps) simp
        ultimately show ?thesis
          using 1(1) [OF False True m(1) m(2) [symmetric] refl] True
          by (subst mask_bits_shift) (simp add: sh comp_def)
      next
        case bad: False
        then show ?thesis
          using False True by (subst deliver_loop.simps, subst mask_bits_shift)
            (auto simp: deliver_one_def enqueue_def split: sum.splits)
      qed
    next
      case B: False
      then show ?thesis
        using 1(2) [OF False B] False
        by (subst deliver_loop.simps, subst mask_bits_shift) (simp add: comp_def)
    qed
  qed
qed

lemma deliver_fold:
  assumes "q_inv q" "\<forall>i \<in> set is. \<exists>m. tloe_get_tlmsg frame i = Inr m"
  shows "if q_len q + length is \<le> q_cap q
    then \<exists>q'. fold_run (deliver_one frame) is q = Inr q' \<and> q_inv q' \<and> q_cap q' = q_cap q \<and>
      queue_list q' = queue_list q @ map (\<lambda>i. projr (tloe_get_tlmsg frame i)) is
    else fold_run (deliver_one frame) is q = Inl Exit_Failure"
  using assms
proof (induction "is" arbitrary: q)
  case Nil
  then show ?case using cq.bound [of q] by simp
next
  case (Cons i "is")
  obtain m where m: "tloe_get_tlmsg frame i = Inr m" using Cons.prems by auto
  have len: "q_len q \<le> q_cap q" using cq.bound [of q] Cons.prems by simp
  show ?case
  proof (cases "is_queue_full q")
    case True
    then have "q_len q = q_cap q" using Cons.prems is_queue_full_iff [of q] by simp
    then show ?thesis using True m by (simp add: deliver_one_def)
  next
    case False
    let ?q = "snd (enqueue q m)"
    have q: "q_inv ?q" "q_cap ?q = q_cap q" "queue_list ?q = queue_list q @ [m]" "q_len ?q = Suc (q_len q)"
      using Cons.prems False
      by (simp_all add: cq.enq_inv cq.enq_cap cq.enq_contents enqueue_fields(1))
    have "deliver_one frame i q = Inr ?q" using m False by (simp add: deliver_one_def)
    then show ?thesis using Cons.IH [OF q(1)] Cons.prems q m by (auto split: if_splits)
  qed
qed

text \<open>The messages of a frame whose mask is \<open>msk\<close>, in the order in which they are delivered.\<close>

definition frame_msgs :: "tloe_frame_t \<Rightarrow> u64 \<Rightarrow> tl_msg_t list" where
  "frame_msgs frame msk = map (\<lambda>i. projr (tloe_get_tlmsg frame i)) (mask_bits msk)"

lemma deliver_loop_spec:
  assumes "q_inv q" "\<forall>i \<in> set (mask_bits msk). \<exists>m. tloe_get_tlmsg frame i = Inr m"
  shows "if q_len q + length (frame_msgs frame msk) \<le> q_cap q
    then \<exists>q'. deliver_loop frame msk 0 q = Inr q' \<and> q_inv q' \<and> q_cap q' = q_cap q \<and>
      queue_list q' = queue_list q @ frame_msgs frame msk
    else deliver_loop frame msk 0 q = Inl Exit_Failure"
proof -
  have "map ((+) 0) xs = xs" for xs :: "nat list" by (induction xs) simp_all
  then show ?thesis using deliver_fold [OF assms] by (simp only: deliver_loop_eq frame_msgs_def length_map)
qed

section \<open>Acknowledgements\<close>

lemma ep_inv_suffix:
  assumes inv: "ep_inv e" and q: "q_inv q" "q_cap q = q_cap (retransmit_buffer e)"
    and l: "queue_list q = drop j (queue_list (retransmit_buffer e))"
  shows "ep_inv (e\<lparr>retransmit_buffer := q\<rparr>)"
proof -
  let ?rb = "retransmit_buffer e"
  obtain n where n: "q_len ?rb \<le> n" "next_tx_seq e = seq_of n"
    "map rbe_seq (queue_list ?rb) = map seq_of [n - q_len ?rb..<n]"
    using inv by (auto simp: ep_inv_def tx_window_def)
  have len: "q_len q = q_len ?rb - j" using arg_cong [OF l, of length] by simp
  have "map rbe_seq (queue_list q) = drop j (map rbe_seq (queue_list ?rb))" by (simp add: l drop_map)
  also have "\<dots> = map seq_of [n - q_len ?rb + j..<n]" by (simp add: n(3) drop_map)
  also have "\<dots> = map seq_of [n - q_len q..<n]"
    using n(1) len by (cases "j \<le> q_len ?rb") simp_all
  finally have w: "map rbe_seq (queue_list q) = map seq_of [n - q_len q..<n]" .
  have "q_len q \<le> n" using n(1) len by simp
  with w n(2) have "tx_window (e\<lparr>retransmit_buffer := q\<rparr>)" by (auto simp: tx_window_def)
  moreover have "\<forall>el \<in> set (queue_list q). rbe_ok el"
    using inv by (auto simp: ep_inv_def l dest: in_set_dropD)
  ultimately show ?thesis using inv q by (simp add: ep_inv_def fabric_up_def)
qed

text \<open>The buffer elements an acknowledgement of \<open>ack\<close> releases form a prefix.\<close>

abbreviation unacked :: "u32 \<Rightarrow> RetransmitBufferElement list \<Rightarrow> RetransmitBufferElement list" where
  "unacked ack \<equiv> dropWhile (\<lambda>r. tloe_seqnum_cmp (rbe_seq r) ack \<le> 0)"

lemma dropWhile_drop: "\<exists>j. dropWhile P xs = drop j xs"
  by (metis dropWhile_eq_drop)

lemma serve_ack_ok:
  fixes e f
  defines "ack \<equiv> ucast (h_seq_num_ack (f_header f)) :: u32"
  assumes inv: "ep_inv e"
  shows "\<exists>q ps. serve_ack e f = Inr (e\<lparr>retransmit_buffer := q, fabric_sent := fabric_sent e @ ps,
      ack_cnt := ack_cnt e + 1\<rparr>) \<and> ep_inv (e\<lparr>retransmit_buffer := q\<rparr>) \<and>
    map rbe_key (queue_list q) = map rbe_key (unacked ack (queue_list (retransmit_buffer e))) \<and>
    ps = (if h_ack (f_header f) = 0
          then map (resend_packet e) (filter (resends (tloe_seqnum_next ack))
                 (unacked ack (queue_list (retransmit_buffer e))))
          else [])"
proof -
  let ?rb = "retransmit_buffer e"
  have rb: "q_inv ?rb" using inv by (simp add: ep_inv_def)
  obtain q where q: "slide_window e f = Inr (e\<lparr>retransmit_buffer := q\<rparr>)" "q_inv q" "q_cap q = q_cap ?rb"
    "queue_list q = unacked ack (queue_list ?rb)"
    using slide_window_spec [OF rb, of f] unfolding ack_def by blast
  let ?e = "e\<lparr>retransmit_buffer := q\<rparr>"
  have inv1: "ep_inv ?e" using ep_inv_suffix [OF inv q(2,3)] q(4) dropWhile_drop by metis
  have nak: "uint (h_ack (f_header f)) = 0 \<longleftrightarrow> h_ack (f_header f) = 0" by (simp add: uint_0_iff)
  show ?thesis
  proof (cases "h_ack (f_header f) = 0")
    case False
    then have "serve_ack e f = Inr (e\<lparr>retransmit_buffer := q, fabric_sent := fabric_sent e @ [],
        ack_cnt := ack_cnt e + 1\<rparr>)"
      using q(1) nak by (simp add: serve_ack_def)
    then show ?thesis using False inv1 q(4) by (intro exI [of _ q] exI [of _ "[]"]) simp
  next
    case True
    have pre: "q_inv (retransmit_buffer ?e)" "\<forall>el \<in> set (queue_list (retransmit_buffer ?e)). rbe_ok el" "fabric_up ?e"
      using inv1 by (simp_all add: ep_inv_def)
    have rp: "resend_packet ?e = resend_packet e"
      by (simp add: fun_eq_iff resend_packet_def tloe_seqnum_set_seq_num_ack_def)
    let ?ps = "map (resend_packet e) (filter (resends (tloe_seqnum_next ack)) (queue_list q))"
    obtain q' where q': "retransmit ?e (tloe_seqnum_next ack) =
        Inr (e\<lparr>retransmit_buffer := q', fabric_sent := fabric_sent e @ ?ps\<rparr>)"
      "q_inv q'" "q_cap q' = q_cap q"
      "queue_list q' = map (mark_resent ?e (tloe_seqnum_next ack)) (queue_list q)"
      using retransmit_spec [OF pre, of "tloe_seqnum_next ack"] rp by auto
    have keys: "map rbe_key (queue_list q') = map rbe_key (queue_list q)" by (simp add: q'(4))
    have "ep_inv (?e\<lparr>retransmit_buffer := q', fabric_sent := fabric_sent e\<rparr>)"
      using ep_inv_requeue [OF inv1, of q' "fabric_sent e"] q'(2,3) keys by simp
    then have "ep_inv (e\<lparr>retransmit_buffer := q'\<rparr>)" by simp
    moreover have "serve_ack e f = Inr (e\<lparr>retransmit_buffer := q', fabric_sent := fabric_sent e @ ?ps,
        ack_cnt := ack_cnt e + 1\<rparr>)"
      using True q(1) q'(1) nak by (simp add: serve_ack_def ack_def)
    ultimately show ?thesis
      using True keys q(4) by (intro exI [of _ q'] exI [of _ ?ps]) simp
  qed
qed

section \<open>The effect of a frame\<close>

text \<open>A frame whose mask can be read and whose credit field names an existing channel.\<close>

definition frame_ok :: "tloe_frame_t \<Rightarrow> int \<Rightarrow> bool" where
  "frame_ok f n \<longleftrightarrow> mask_index n < length (flits f) \<and> unat (h_chan (f_header f)) < CHANNEL_NUM"

lemma fc_credit_inc_ok:
  assumes "fc_wf F" "unat (h_chan (f_header f)) < CHANNEL_NUM"
  obtains r F' where "fc_credit_inc F f = Inr (r, F')" "fc_wf F'"
  using assms by (auto simp: fc_credit_inc_def fc_wf_def Let_def)

text \<open>What a receive never touches.\<close>

definition rx_untouched :: "tloe_endpoint_t \<Rightarrow> _" where
  "rx_untouched e = (fabric_ops e, message_buffer e, response_buffer e, iteration_ts e, next_tx_seq e,
     master e, connection e, is_done e)"

text \<open>The state after the acknowledgement part of a receive.\<close>

definition rx_acked :: "tloe_endpoint_t \<Rightarrow> tloe_frame_t \<Rightarrow> tloe_endpoint_t \<Rightarrow> bool" where
  "rx_acked e f e1 \<longleftrightarrow> (\<exists>e0. serve_ack e f = Inr e0 \<and> e1 = e0\<lparr>ackonly_frame_sent := False\<rparr>) \<and>
     ep_inv e1 \<and> rx_untouched e1 = rx_untouched e \<and>
     ack_buffer e1 = ack_buffer e \<and> tl_msg_buffer e1 = tl_msg_buffer e \<and> fc e1 = fc e \<and>
     next_rx_seq e1 = next_rx_seq e \<and> acked_seq e1 = acked_seq e \<and>
     should_send_ackonly_frame e1 = should_send_ackonly_frame e \<and>
     (h_ack (f_header f) \<noteq> 0 \<longrightarrow> fabric_sent e1 = fabric_sent e) \<and>
     map rbe_key (queue_list (retransmit_buffer e1)) =
       map rbe_key (unacked (ucast (h_seq_num_ack (f_header f))) (queue_list (retransmit_buffer e)))"

lemma rx_acked_ex:
  assumes "ep_inv e"
  obtains e1 where "rx_acked e f e1"
proof -
  obtain q ps where q: "serve_ack e f = Inr (e\<lparr>retransmit_buffer := q, fabric_sent := fabric_sent e @ ps,
      ack_cnt := ack_cnt e + 1\<rparr>)" "ep_inv (e\<lparr>retransmit_buffer := q\<rparr>)"
    "map rbe_key (queue_list q) =
       map rbe_key (unacked (ucast (h_seq_num_ack (f_header f))) (queue_list (retransmit_buffer e)))"
    "h_ack (f_header f) \<noteq> 0 \<Longrightarrow> ps = []"
    using serve_ack_ok [OF assms, of f] by (elim exE conjE) (rule that, assumption+, simp)
  let ?e1 = "e\<lparr>retransmit_buffer := q, fabric_sent := fabric_sent e @ ps, ack_cnt := ack_cnt e + 1,
    ackonly_frame_sent := False\<rparr>"
  have "ep_inv ?e1" using q(2) by (simp add: ep_inv_def tx_window_def fabric_up_def)
  then have "rx_acked e f ?e1" using q(1,3,4) by (simp add: rx_acked_def rx_untouched_def)
  then show thesis by (rule that)
qed

lemma RX_frame_acked:
  assumes "rx_acked e f e1"
  shows "RX_frame e f n =
    (if is_ackonly_frame f then Inr (tloe_seqnum_update_acked_seq e1 f)
     else case tloe_rx_get_req_type e1 f of
            REQ_NORMAL \<Rightarrow> bind_run (is_zero_tl_frame f n) (\<lambda>z.
                if \<not> z then serve_normal_request e1 f n else serve_zero_tlmsg_request e1 f)
          | REQ_DUPLICATE \<Rightarrow> serve_duplicate_request e1 f n
          | REQ_OOS \<Rightarrow> serve_oos_request e1 f n (tloe_seqnum_prev (next_rx_seq e1)))"
  using assms
  by (auto simp: rx_acked_def RX_frame_def Let_def handle_normal_frame_drop_def
      handle_single_normal_frame_drop_def)

lemma req_type_cases:
  assumes "seq_wf (next_rx_seq e)"
  shows "tloe_rx_get_req_type e f = REQ_NORMAL \<longleftrightarrow> ucast (h_seq_num (f_header f)) = next_rx_seq e"
    "tloe_rx_get_req_type e f = REQ_DUPLICATE \<longleftrightarrow>
      tloe_seqnum_cmp (ucast (h_seq_num (f_header f))) (next_rx_seq e) < 0"
  using cmp_eq_0_iff [of "ucast (h_seq_num (f_header f))", OF seq_wf_ucast assms]
  by (auto simp: tloe_rx_get_req_type_def Let_def)

lemma ep_inv_rx:
  assumes "ep_inv e" "q_inv q" "fc_wf F" "seq_wf nr" "seq_wf ak"
  shows "ep_inv (e\<lparr>tl_msg_buffer := q, fc := F, next_rx_seq := nr, acked_seq := ak,
    should_send_ackonly_frame := s\<rparr>)"
  using assms by (simp add: ep_inv_def tx_window_def fabric_up_def)

lemma update_acked_seq_eq:
  "tloe_seqnum_update_acked_seq e f =
     e\<lparr>acked_seq := (if tloe_seqnum_cmp (ucast (h_seq_num_ack (f_header f))) (acked_seq e) > 0
       then ucast (h_seq_num_ack (f_header f)) else acked_seq e)\<rparr>"
  by (simp add: tloe_seqnum_update_acked_seq_def)

text \<open>An acknowledgement-only frame: only the window and the acknowledged sequence number move.\<close>

lemma RX_frame_ackonly:
  assumes inv: "ep_inv e" and f: "is_ackonly_frame f"
  shows "\<exists>e'. RX_frame e f n = Inr e' \<and> ep_inv e' \<and> rx_untouched e' = rx_untouched e \<and>
    ack_buffer e' = ack_buffer e \<and> tl_msg_buffer e' = tl_msg_buffer e \<and> fc e' = fc e \<and>
    next_rx_seq e' = next_rx_seq e \<and> (h_ack (f_header f) \<noteq> 0 \<longrightarrow> fabric_sent e' = fabric_sent e) \<and>
    map rbe_key (queue_list (retransmit_buffer e')) =
      map rbe_key (unacked (ucast (h_seq_num_ack (f_header f))) (queue_list (retransmit_buffer e)))"
proof -
  obtain e1 where e1: "rx_acked e f e1" using rx_acked_ex [OF inv] .
  have "ep_inv e1" using e1 by (simp add: rx_acked_def)
  then have "ep_inv (tloe_seqnum_update_acked_seq e1 f)"
    by (simp add: update_acked_seq_eq ep_inv_def tx_window_def fabric_up_def)
  then show ?thesis
    using e1 f by (simp add: RX_frame_acked [OF e1] rx_acked_def rx_untouched_def update_acked_seq_eq)
qed

text \<open>A frame in sequence.\<close>

lemma RX_frame_in_order:
  assumes inv: "ep_inv e" and ok: "frame_ok f n" and type: "\<not> is_ackonly_frame f"
    and seq: "ucast (h_seq_num (f_header f)) = next_rx_seq e" and msk: "tloe_get_mask f n = Inr msk"
    and dec: "\<forall>i \<in> set (mask_bits msk). \<exists>m. tloe_get_tlmsg f i = Inr m"
    and room: "q_len (tl_msg_buffer e) + length (frame_msgs f msk) \<le> q_cap (tl_msg_buffer e)"
  shows "\<exists>e'. RX_frame e f n = Inr e' \<and> ep_inv e' \<and> rx_untouched e' = rx_untouched e \<and>
    next_rx_seq e' = tloe_seqnum_next (next_rx_seq e) \<and>
    queue_list (tl_msg_buffer e') = queue_list (tl_msg_buffer e) @ frame_msgs f msk \<and>
    ack_buffer e' = ack_buffer e \<and> (\<exists>r. fc_credit_inc (fc e) f = Inr (r, fc e')) \<and>
    should_send_ackonly_frame e' = (msk = 0 \<or> should_send_ackonly_frame e) \<and>
    (h_ack (f_header f) \<noteq> 0 \<longrightarrow> fabric_sent e' = fabric_sent e) \<and>
    q_cap (tl_msg_buffer e') = q_cap (tl_msg_buffer e) \<and>
    map rbe_key (queue_list (retransmit_buffer e')) =
      map rbe_key (unacked (ucast (h_seq_num_ack (f_header f))) (queue_list (retransmit_buffer e)))"
proof -
  obtain e1 where e1: "rx_acked e f e1" using rx_acked_ex [OF inv] .
  note s = e1 [unfolded rx_acked_def]
  have wf: "fc_wf (fc e)" "seq_wf (next_rx_seq e)" "seq_wf (acked_seq e)" "q_inv (tl_msg_buffer e)"
    using inv by (simp_all add: ep_inv_def)
  obtain r F where F: "fc_credit_inc (fc e) f = Inr (r, F)" "fc_wf F"
    using fc_credit_inc_ok [OF wf(1)] ok by (auto simp: frame_ok_def)
  obtain q where q: "deliver_loop f msk 0 (tl_msg_buffer e) = Inr q" "q_inv q" "q_cap q = q_cap (tl_msg_buffer e)"
    "queue_list q = queue_list (tl_msg_buffer e) @ frame_msgs f msk"
    using deliver_loop_spec [OF wf(4) dec] room by auto
  define ak where "ak = (if tloe_seqnum_cmp (ucast (h_seq_num_ack (f_header f))) (acked_seq e) > 0
       then ucast (h_seq_num_ack (f_header f)) else acked_seq e)"
  have ak: "seq_wf ak" using wf(3) by (simp add: ak_def)
  define e' where "e' = e1\<lparr>tl_msg_buffer := q, fc := F, next_rx_seq := tloe_seqnum_next (next_rx_seq e),
    acked_seq := ak, should_send_ackonly_frame := (msk = 0 \<or> should_send_ackonly_frame e)\<rparr>"
  have type1: "tloe_rx_get_req_type e1 f = REQ_NORMAL"
    using req_type_cases(1) [of e1 f] seq wf(2) s by simp
  have q0: "msk = 0 \<Longrightarrow> q = tl_msg_buffer e" using q(1) by (simp add: deliver_loop.simps)
  have "serve_normal_request e1 f n = Inr e'" if "msk \<noteq> 0"
    using that s seq F q(1) msk
    by (simp add: serve_normal_request_def Let_def tloe_seqnum_update_next_rx_seq_def update_acked_seq_eq
        e'_def ak_def)
  moreover have "serve_zero_tlmsg_request e1 f = Inr e'" if "msk = 0"
    using that s seq F q0
    by (simp add: serve_zero_tlmsg_request_def Let_def tloe_seqnum_update_next_rx_seq_def
        update_acked_seq_eq e'_def ak_def)
  ultimately have "RX_frame e f n = Inr e'"
    using type type1 msk by (simp add: RX_frame_acked [OF e1] is_zero_tl_frame_def)
  moreover have "ep_inv e'"
    unfolding e'_def using s F(2) q(2) ak wf(2) by (intro ep_inv_rx) simp_all
  ultimately show ?thesis
    using s F(1) q(3,4) by (simp add: e'_def rx_untouched_def)
qed

text \<open>An expected frame with more messages than the TileLink buffer has room for: the program exits.\<close>

lemma RX_frame_overflow:
  assumes inv: "ep_inv e" and type: "\<not> is_ackonly_frame f"
    and seq: "ucast (h_seq_num (f_header f)) = next_rx_seq e" and msk: "tloe_get_mask f n = Inr msk"
    and dec: "\<forall>i \<in> set (mask_bits msk). \<exists>m. tloe_get_tlmsg f i = Inr m"
    and room: "\<not> q_len (tl_msg_buffer e) + length (frame_msgs f msk) \<le> q_cap (tl_msg_buffer e)"
  shows "RX_frame e f n = Inl Exit_Failure"
proof -
  obtain e1 where e1: "rx_acked e f e1" using rx_acked_ex [OF inv] .
  note s = e1 [unfolded rx_acked_def]
  have wf: "q_inv (tl_msg_buffer e)" "seq_wf (next_rx_seq e)" using inv by (simp_all add: ep_inv_def)
  have q: "deliver_loop f msk 0 (tl_msg_buffer e) = Inl Exit_Failure" using deliver_loop_spec [OF wf(1) dec] room by simp
  then have "msk \<noteq> 0" by (auto simp: deliver_loop.simps)
  moreover have "tloe_rx_get_req_type e1 f = REQ_NORMAL" using req_type_cases(1) [of e1 f] seq wf(2) s by simp
  moreover have "serve_normal_request e1 f n = Inl Exit_Failure"
    using s seq q msk by (simp add: serve_normal_request_def Let_def tloe_seqnum_update_next_rx_seq_def update_acked_seq_eq)
  ultimately show ?thesis using type msk by (simp add: RX_frame_acked [OF e1] is_zero_tl_frame_def)
qed

text \<open>A frame out of sequence: it is dropped and an acknowledgement is queued for it.\<close>

definition reply_seq :: "tloe_endpoint_t \<Rightarrow> tloe_frame_t \<Rightarrow> 22 word" where
  "reply_seq e f = (if tloe_seqnum_cmp (ucast (h_seq_num (f_header f))) (next_rx_seq e) < 0
     then h_seq_num (f_header f) else ucast (tloe_seqnum_prev (next_rx_seq e)))"

definition reply_frame :: "tloe_endpoint_t \<Rightarrow> tloe_frame_t \<Rightarrow> int \<Rightarrow> tloe_frame_t" where
  "reply_frame e f n = f\<lparr>f_header := (f_header f)\<lparr>h_seq_num_ack := reply_seq e f,
       h_ack := (if tloe_seqnum_cmp (ucast (h_seq_num (f_header f))) (next_rx_seq e) < 0 then 1 else 0),
       h_chan := 0, h_credit := 0\<rparr>,
     flits := (flits f)[mask_index n := 0]\<rparr>"

lemma RX_frame_out_of_order:
  assumes inv: "ep_inv e" and ok: "frame_ok f n" and type: "\<not> is_ackonly_frame f"
    and seq: "ucast (h_seq_num (f_header f)) \<noteq> next_rx_seq e"
  shows "if is_queue_full (ack_buffer e) then RX_frame e f n = Inl Bug_On
    else \<exists>e'. RX_frame e f n = Inr e' \<and> ep_inv e' \<and> rx_untouched e' = rx_untouched e \<and>
      next_rx_seq e' = next_rx_seq e \<and> acked_seq e' = acked_seq e \<and> fc e' = fc e \<and>
      tl_msg_buffer e' = tl_msg_buffer e \<and>
      queue_list (ack_buffer e') = queue_list (ack_buffer e) @ [reply_frame e f n] \<and>
      (h_ack (f_header f) \<noteq> 0 \<longrightarrow> fabric_sent e' = fabric_sent e) \<and>
      q_cap (ack_buffer e') = q_cap (ack_buffer e) \<and>
      map rbe_key (queue_list (retransmit_buffer e')) =
        map rbe_key (unacked (ucast (h_seq_num_ack (f_header f))) (queue_list (retransmit_buffer e)))"
proof -
  obtain e1 where e1: "rx_acked e f e1" using rx_acked_ex [OF inv] .
  note s = e1 [unfolded rx_acked_def]
  have nr: "seq_wf (next_rx_seq e)" and ab: "q_inv (ack_buffer e)" using inv by (simp_all add: ep_inv_def)
  let ?dup = "tloe_seqnum_cmp (ucast (h_seq_num (f_header f))) (next_rx_seq e) < 0"
  let ?q = "snd (enqueue (ack_buffer e) (reply_frame e f n))"
  have idx: "mask_index n < length (flits f)" using ok by (simp add: frame_ok_def)
  have type1: "tloe_rx_get_req_type e1 f = (if ?dup then REQ_DUPLICATE else REQ_OOS)"
    using req_type_cases [of e1 f] seq nr s
    by (cases "tloe_rx_get_req_type e1 f") auto
  have inv1: "ep_inv e1" using s by simp
  have swap: "f\<lparr>flits := a, f_header := h\<rparr> = f\<lparr>f_header := h, flits := a\<rparr>" for a h by simp
  have rx: "RX_frame e f n = bug_on (is_queue_full (ack_buffer e))
      (if ?dup then e1\<lparr>ack_buffer := ?q, dup_cnt := dup_cnt e1 + 1\<rparr>
       else e1\<lparr>ack_buffer := ?q, oos_cnt := oos_cnt e1 + 1\<rparr>)"
    using type type1 s idx
    by (simp add: RX_frame_acked [OF e1] serve_duplicate_request_def serve_oos_request_def Let_def
        tloe_set_mask_def tloe_seqnum_set_frame_seq_num_ack_def reply_frame_def reply_seq_def enqueue_def swap)
  have "ep_inv (e1\<lparr>ack_buffer := ?q, dup_cnt := c\<rparr>)" "ep_inv (e1\<lparr>ack_buffer := ?q, oos_cnt := c\<rparr>)" for c
    using inv1 cq.enq_inv [OF ab] by (simp_all add: ep_inv_def tx_window_def fabric_up_def)
  then show ?thesis
    using s rx cq.enq_contents [OF ab] cq.enq_cap [of "ack_buffer e"] by (auto simp: rx_untouched_def)
qed

section \<open>Packets\<close>

lemma RX_packet:
  assumes "ep_inv e" "0 \<le> n" "packet_to_tloe_frame buf n (zero_frame MAX_SIZE_FLIT) = Inr f"
  shows "RX True (n, buf) e = RX_frame e f n"
proof -
  have "fabric_up e" using assms(1) by (simp add: ep_inv_def)
  then show ?thesis using assms(2,3) by (simp add: RX_def tloe_fabric_recv_up)
qed

lemma tloe_get_mask_append:
  "tloe_get_mask f n = Inr msk \<Longrightarrow> tloe_get_mask (f\<lparr>flits := flits f @ zs\<rparr>) n = Inr msk"
  by (auto simp: tloe_get_mask_def Let_def nth_append split: if_splits)

lemma tloe_get_tlmsg_append:
  "tloe_get_tlmsg f i = Inr m \<Longrightarrow> tloe_get_tlmsg (f\<lparr>flits := flits f @ zs\<rparr>) i = Inr m"
  by (auto simp: tloe_get_tlmsg_def Let_def nth_append split: if_splits)

section \<open>Properties\<close>

text \<open>
  C14: a packet that carries the expected sequence number is accepted: \<open>RX\<close> returns, the expected sequence number
  advances by one, the messages named by the mask are appended to the TileLink buffer in order,
  the announced credit is added, acknowledged frames leave the retransmit buffer, and the endpoint
  invariant holds again. A frame without messages asks for an acknowledgement-only frame. Nothing is sent
  unless the frame carries a negative acknowledgement.
\<close>

theorem RX_accepts_in_order:
  assumes "ep_inv e" "0 \<le> n" "packet_to_tloe_frame buf n (zero_frame MAX_SIZE_FLIT) = Inr f"
    and "frame_ok f n" "\<not> is_ackonly_frame f" "ucast (h_seq_num (f_header f)) = next_rx_seq e"
    and "tloe_get_mask f n = Inr msk" "\<forall>i \<in> set (mask_bits msk). \<exists>m. tloe_get_tlmsg f i = Inr m"
    and "q_len (tl_msg_buffer e) + length (frame_msgs f msk) \<le> q_cap (tl_msg_buffer e)"
  shows "\<exists>e'. RX True (n, buf) e = Inr e' \<and> ep_inv e' \<and> rx_untouched e' = rx_untouched e \<and>
    next_rx_seq e' = tloe_seqnum_next (next_rx_seq e) \<and>
    queue_list (tl_msg_buffer e') = queue_list (tl_msg_buffer e) @ frame_msgs f msk \<and>
    ack_buffer e' = ack_buffer e \<and> (\<exists>r. fc_credit_inc (fc e) f = Inr (r, fc e')) \<and>
    should_send_ackonly_frame e' = (msk = 0 \<or> should_send_ackonly_frame e) \<and>
    (h_ack (f_header f) \<noteq> 0 \<longrightarrow> fabric_sent e' = fabric_sent e) \<and>
    map rbe_key (queue_list (retransmit_buffer e')) =
      map rbe_key (unacked (ucast (h_seq_num_ack (f_header f))) (queue_list (retransmit_buffer e)))"
  unfolding RX_packet [OF assms(1-3)] using RX_frame_in_order [OF assms(1,4-9)] by blast

text \<open>A packet with one read request, as a peer would send it first.\<close>

lemma sample_packet:
  obtains p f where "packet_to_tloe_frame p 56 (zero_frame MAX_SIZE_FLIT) = Inr f" "frame_ok f 56"
    "\<not> is_ackonly_frame f" "h_seq_num (f_header f) = s" "h_seq_num_ack (f_header f) = 4194303"
    "tloe_get_mask f 56 = Inr 1" "tloe_get_tlmsg f 0 = Inr (sample_get a)"
proof -
  let ?f0 = "\<lparr>f_header = zero_header\<lparr>h_seq_num := s, h_seq_num_ack := 4194303, h_ack := 1\<rparr>, flits = replicate 6 0\<rparr>"
  obtain f1 f2 where f: "tloe_set_mask f1 1 56 = Inr (word_of_int 1, f2)" "f_header f2 = f_header ?f0"
    "length (flits f2) = 6" "tloe_get_mask f2 56 = Inr 1" "tloe_get_tlmsg f2 0 = Inr (sample_get a)"
    using set_tlmsg_mask_get [of "sample_get a" 56 ?f0 1] by auto
  let ?p = "be_bytes (tloe_header_to_u64 (f_header f2)) @ concat (map be_bytes (flits f2)) @ []"
  let ?f = "f2\<lparr>flits := flits f2 @ replicate 59 0\<rparr>"
  have "packet_to_tloe_frame ?p 56 (zero_frame 65) = Inr ?f"
    using packet_to_tloe_frame_eq [of "flits f2" 6 "zero_frame 65" "tloe_header_to_u64 (f_header f2)" "[]"] f(3)
    by (simp add: zero_frame_def)
  moreover have "frame_ok ?f 56" "\<not> is_ackonly_frame ?f" "h_seq_num (f_header ?f) = s"
    "h_seq_num_ack (f_header ?f) = 4194303"
    using f(2,3) by (simp_all add: frame_ok_def is_ackonly_frame_def zero_header_def)
  ultimately show thesis
    using tloe_get_mask_append [OF f(4)] tloe_get_tlmsg_append [OF f(5)] by (rule that)
qed

lemma fresh_rx:
  "next_rx_seq (fresh_endpoint h) = 0" "q_len (tl_msg_buffer (fresh_endpoint h)) = 0"
  "q_cap (tl_msg_buffer (fresh_endpoint h)) = 9999" "queue_list (tl_msg_buffer (fresh_endpoint h)) = []"
  "queue_list (ack_buffer (fresh_endpoint h)) = []" "\<not> is_queue_full (ack_buffer (fresh_endpoint h))"
  "queue_list (retransmit_buffer (fresh_endpoint h)) = []"
  by (simp_all add: fresh_endpoint_def zero_endpoint_def)
     (simp add: is_queue_full_def create_queue_def init_queue_def)

lemma frame_msgs_1: "tloe_get_tlmsg f 0 = Inr m \<Longrightarrow> frame_msgs f 1 = [m]"
  by (simp add: frame_msgs_def)

theorem RX_accepts_in_order_witness:
  "\<exists>p e'. RX True (56, p) (fresh_endpoint mq_fabric) = Inr e' \<and> ep_inv e' \<and> next_rx_seq e' = 1 \<and>
    queue_list (tl_msg_buffer e') = [sample_get 8]"
proof -
  obtain p f where f: "packet_to_tloe_frame p 56 (zero_frame MAX_SIZE_FLIT) = Inr f" "frame_ok f 56"
    "\<not> is_ackonly_frame f" "h_seq_num (f_header f) = 0" "h_seq_num_ack (f_header f) = 4194303"
    "tloe_get_mask f 56 = Inr 1" "tloe_get_tlmsg f 0 = Inr (sample_get 8)"
    using sample_packet [of 0 8] .
  from RX_accepts_in_order [OF ep_inv_fresh_mq _ f(1-3) _ f(6)] f(4,7) frame_msgs_1 [OF f(7)]
  show ?thesis by (auto simp: fresh_rx tloe_seqnum_next_def)
qed

text \<open>
  C15: a data frame with any other sequence number is never delivered: the expected sequence number, the TileLink
  buffer and the credits stay as they are. \<open>RX\<close> queues one reply, positive and with the frame's own
  number for a duplicate, negative and with the last number received in order for a gap. Only when
  the acknowledgement buffer is full does the program stop.
\<close>

theorem RX_rejects_out_of_order:
  assumes "ep_inv e" "0 \<le> n" "packet_to_tloe_frame buf n (zero_frame MAX_SIZE_FLIT) = Inr f"
    and "frame_ok f n" "\<not> is_ackonly_frame f" "ucast (h_seq_num (f_header f)) \<noteq> next_rx_seq e"
  shows "if is_queue_full (ack_buffer e) then RX True (n, buf) e = Inl Bug_On
    else \<exists>e'. RX True (n, buf) e = Inr e' \<and> ep_inv e' \<and> rx_untouched e' = rx_untouched e \<and>
      next_rx_seq e' = next_rx_seq e \<and> acked_seq e' = acked_seq e \<and> fc e' = fc e \<and>
      tl_msg_buffer e' = tl_msg_buffer e \<and>
      queue_list (ack_buffer e') = queue_list (ack_buffer e) @ [reply_frame e f n] \<and>
      (h_ack (f_header f) \<noteq> 0 \<longrightarrow> fabric_sent e' = fabric_sent e)"
  unfolding RX_packet [OF assms(1-3)] using RX_frame_out_of_order [OF assms(1,4-6)] by metis

theorem RX_rejects_out_of_order_witness:
  "\<exists>p f e'. RX True (56, p) (fresh_endpoint mq_fabric) = Inr e' \<and> next_rx_seq e' = 0 \<and>
    tl_msg_buffer e' = tl_msg_buffer (fresh_endpoint mq_fabric) \<and> queue_list (ack_buffer e') = [f] \<and>
    h_ack (f_header f) = 0 \<and> h_seq_num_ack (f_header f) = 4194303"
proof -
  obtain p f where f: "packet_to_tloe_frame p 56 (zero_frame MAX_SIZE_FLIT) = Inr f" "frame_ok f 56"
    "\<not> is_ackonly_frame f" "h_seq_num (f_header f) = 3"
    using sample_packet [of 3 8] by blast
  have rep: "h_ack (f_header (reply_frame (fresh_endpoint mq_fabric) f 56)) = 0"
    "h_seq_num_ack (f_header (reply_frame (fresh_endpoint mq_fabric) f 56)) = 4194303"
    using f(4) by (simp_all add: reply_frame_def reply_seq_def fresh_rx tloe_seqnum_cmp_def tloe_seqnum_prev_def)
  from RX_rejects_out_of_order [OF ep_inv_fresh_mq _ f(1-3)] f(4) rep
  show ?thesis by (auto simp: fresh_rx)
qed

text \<open>
  An acknowledgement-only frame moves the retransmit window and nothing else of the protocol state: no
  message is delivered, the expected sequence number and the credits stay.
\<close>

theorem RX_ackonly_moves_window_only:
  assumes "ep_inv e" "0 \<le> n" "packet_to_tloe_frame buf n (zero_frame MAX_SIZE_FLIT) = Inr f" "is_ackonly_frame f"
  shows "\<exists>e'. RX True (n, buf) e = Inr e' \<and> ep_inv e' \<and> rx_untouched e' = rx_untouched e \<and>
    ack_buffer e' = ack_buffer e \<and> tl_msg_buffer e' = tl_msg_buffer e \<and> fc e' = fc e \<and>
    next_rx_seq e' = next_rx_seq e \<and> (h_ack (f_header f) \<noteq> 0 \<longrightarrow> fabric_sent e' = fabric_sent e) \<and>
    map rbe_key (queue_list (retransmit_buffer e')) =
      map rbe_key (unacked (ucast (h_seq_num_ack (f_header f))) (queue_list (retransmit_buffer e)))"
  unfolding RX_packet [OF assms(1-3)] using assms(1,4) by (rule RX_frame_ackonly)

theorem RX_ackonly_moves_window_only_witness:
  "\<exists>p e'. RX True (56, p) one_in_flight = Inr e' \<and> ep_inv e' \<and> queue_list (retransmit_buffer e') = [] \<and>
    next_rx_seq e' = next_rx_seq one_in_flight"
proof -
  let ?h = "zero_header\<lparr>h_type := 1, h_ack := 1\<rparr>"
  let ?p = "be_bytes (tloe_header_to_u64 ?h) @ concat (map be_bytes (replicate 6 0)) @ []"
  let ?f = "\<lparr>f_header = ?h, flits = replicate 6 0 @ replicate 59 0\<rparr>"
  have "packet_to_tloe_frame ?p 56 (zero_frame 65) = Inr ?f"
    using packet_to_tloe_frame_eq [of "replicate 6 0" 6 "zero_frame 65" "tloe_header_to_u64 ?h" "[]"]
    by (simp add: zero_frame_def)
  from RX_ackonly_moves_window_only [OF ep_inv_one_in_flight _ this]
  obtain e' where "RX True (56, ?p) one_in_flight = Inr e'" "ep_inv e'"
    "next_rx_seq e' = next_rx_seq one_in_flight"
    "map rbe_key (queue_list (retransmit_buffer e')) = map rbe_key (unacked 0 [sample_rbe])"
    by (auto simp: is_ackonly_frame_def one_in_flight_queue zero_header_def)
  moreover have "unacked 0 [sample_rbe] = []"
    by (simp add: sample_rbe_def tloe_seqnum_cmp_def zero_frame_def zero_header_def)
  ultimately show ?thesis by auto
qed

text \<open>
  C31: the loop of \<open>serve_normal_request\<close> over the mask ends for every mask and visits exactly the set bits,
  lowest first; when the messages fit into the TileLink buffer they are appended in that order, and
  when they do not the program exits.
\<close>

theorem mask_loop_delivers:
  assumes "q_inv q" "\<forall>i \<in> set (mask_bits msk). \<exists>m. tloe_get_tlmsg frame i = Inr m"
  shows "if q_len q + length (frame_msgs frame msk) \<le> q_cap q
    then \<exists>q'. deliver_loop frame msk 0 q = Inr q' \<and> q_inv q' \<and>
      queue_list q' = queue_list q @ frame_msgs frame msk
    else deliver_loop frame msk 0 q = Inl Exit_Failure"
  using deliver_loop_spec [OF assms] by metis

theorem mask_loop_delivers_witness:
  "\<exists>f q'. deliver_loop f 1 0 (create_queue 4) = Inr q' \<and> queue_list q' = [sample_get 8]"
proof -
  obtain f where f: "tloe_get_tlmsg f 0 = Inr (sample_get 8)" using sample_packet [of 0 8] by metis
  then show ?thesis
    using mask_loop_delivers [of "create_queue 4" 1 f] frame_msgs_1 [OF f] by (auto simp: create_queue_inv)
qed

end
