(* ===== verification/Tilelink_Handler.thy ===== *)
theory Tilelink_Handler
  imports Endpoint_State
begin

text \<open>
  The TileLink endpoint behind the protocol (\<^verbatim>\<open>tilelink_handler.c\<close>): a memory that serves
  \<open>PutFullData\<close> and \<open>Get\<close> requests and counts the responses to its own requests.
\<close>

section \<open>State\<close>

text \<open>\<^verbatim>\<open>mem_storage\<close> is a global pointer: null, or an array of \<^verbatim>\<open>MEM_SIZE\<close> bytes.\<close>

abbreviation (input) MEM_SIZE :: nat where "MEM_SIZE \<equiv> 4294967296"

type_synonym mem_storage = "(nat \<Rightarrow> byte) option"

section \<open>Operations\<close>

text \<open>\<open>alloc\<close> says whether the allocation of the memory succeeds. The function returns 0 on every path.\<close>

definition tl_handler_init :: "bool \<Rightarrow> mem_storage \<Rightarrow> int \<times> mem_storage" where
  "tl_handler_init alloc mem =
     (if mem \<noteq> None then (0, mem)
      else if \<not> alloc then (0, None)
      else (0, Some (\<lambda>_. 0)))"

definition tl_handler_close :: "mem_storage \<Rightarrow> mem_storage" where
  "tl_handler_close mem = (if mem \<noteq> None then None else mem)"

text \<open>\<^verbatim>\<open>tl->data[k]\<close>: eight bytes at offset \<open>8 + 8 * k\<close> of the object.\<close>

definition tl_data :: "tl_msg_t \<Rightarrow> nat \<Rightarrow> u64 run" where
  "tl_data tlm k =
     (if 16 + 8 * k \<le> length tlm then Inr (le_u64 (take 8 (drop (8 + 8 * k) tlm))) else Inl Undefined)"

definition mem_read :: "(nat \<Rightarrow> byte) \<Rightarrow> nat \<Rightarrow> nat \<Rightarrow> byte list" where
  "mem_read mem off n = map (\<lambda>k. mem (off + k)) [0..<n]"

definition mem_write :: "(nat \<Rightarrow> byte) \<Rightarrow> nat \<Rightarrow> byte list \<Rightarrow> nat \<Rightarrow> byte" where
  "mem_write mem off bs = (\<lambda>a. if off \<le> a \<and> a < off + length bs then bs ! (a - off) else mem a)"

text \<open>Both handlers end by queueing their response, or dropping and counting it when the queue is full.\<close>

definition put_response :: "tloe_endpoint_t \<Rightarrow> tl_msg_t \<Rightarrow> tloe_endpoint_t" where
  "put_response e tlmsg =
     (case enqueue (response_buffer e) tlmsg of
        (True, q) \<Rightarrow> e\<lparr>response_buffer := q\<rparr>
      | (False, _) \<Rightarrow> e\<lparr>drop_response_cnt := drop_response_cnt e + 1\<rparr>)"

type_synonym tl_handler_fn = "tl_msg_t \<Rightarrow> mem_storage \<times> tloe_endpoint_t \<Rightarrow> (mem_storage \<times> tloe_endpoint_t) run"

definition handle_A_PUTFULLDATA_opcode :: tl_handler_fn where
  "handle_A_PUTFULLDATA_opcode tlm = (\<lambda>(mem_storage, e).
     let data_size = 2 ^ unat (tl_size (tl_header tlm)) in
     bind_run (tl_data tlm 0) (\<lambda>addr.
     let mem_offset = unat addr mod MEM_SIZE in
     bind_run (bug_on (mem_offset + data_size > MEM_SIZE) ()) (\<lambda>_.
     case mem_storage of
       None \<Rightarrow> Inl Undefined
     | Some mem \<Rightarrow>
         if 16 + data_size \<le> length tlm then
           let mem = mem_write mem mem_offset (take data_size (drop 16 tlm));
               tlmsg = mk_msg (zero_tl_header\<lparr>tl_chan := word_of_int CHANNEL_D,
                 tl_opcode := word_of_int D_ACCESSACK_OPCODE, tl_size := 0,
                 tl_source := tl_source (tl_header tlm)\<rparr>) []
           in Inr (Some mem, put_response e tlmsg)
         else Inl Undefined)))"

definition handle_A_GET_opcode :: tl_handler_fn where
  "handle_A_GET_opcode tlm = (\<lambda>(mem_storage, e).
     let data_size = 2 ^ unat (tl_size (tl_header tlm)) in
     bind_run (tl_data tlm 0) (\<lambda>addr.
     let mem_offset = unat addr mod MEM_SIZE in
     bind_run (bug_on (mem_offset + data_size > MEM_SIZE) ()) (\<lambda>_.
     case mem_storage of
       None \<Rightarrow> Inl Undefined
     | Some mem \<Rightarrow>
         let tlmsg = mk_msg (zero_tl_header\<lparr>tl_chan := word_of_int CHANNEL_D,
               tl_opcode := word_of_int D_ACCESSACKDATA_OPCODE, tl_size := tl_size (tl_header tlm),
               tl_source := tl_source (tl_header tlm)\<rparr>) (mem_read mem mem_offset data_size)
         in Inr (Some mem, put_response e tlmsg))))"

definition handle_D_ACCESSACK_opcode :: tl_handler_fn where
  "handle_D_ACCESSACK_opcode tlm = (\<lambda>(mem_storage, e).
     Inr (mem_storage, e\<lparr>accessack_cnt := accessack_cnt e + 1\<rparr>))"

text \<open>The handler prints the first eight data bytes, so it reads them.\<close>

definition handle_D_ACCESSACKDATA_opcode :: tl_handler_fn where
  "handle_D_ACCESSACKDATA_opcode tlm = (\<lambda>(mem_storage, e).
     bind_run (tl_data tlm 0) (\<lambda>_.
     Inr (mem_storage, e\<lparr>accessackdata_cnt := accessackdata_cnt e + 1\<rparr>)))"

definition handle_null_opcode :: tl_handler_fn where
  "handle_null_opcode tlm = (\<lambda>(mem_storage, e). Inr (mem_storage, e))"

definition handle_debug_opcode :: tl_handler_fn where
  "handle_debug_opcode tlm = (\<lambda>(mem_storage, e). Inr (mem_storage, e))"

definition tl_handler_table :: "tl_handler_fn list list" where
  "tl_handler_table =
     [replicate 8 handle_debug_opcode,
      [handle_A_PUTFULLDATA_opcode, handle_debug_opcode, handle_debug_opcode, handle_debug_opcode,
       handle_A_GET_opcode, handle_debug_opcode, handle_debug_opcode, handle_debug_opcode],
      replicate 8 handle_debug_opcode,
      replicate 8 handle_debug_opcode,
      [handle_D_ACCESSACK_opcode, handle_D_ACCESSACKDATA_opcode, handle_debug_opcode,
       handle_debug_opcode, handle_debug_opcode, handle_debug_opcode, handle_debug_opcode,
       handle_debug_opcode],
      replicate 8 handle_debug_opcode]"

text \<open>
  \<open>tl_handler\<close> returns whether it served a message and, if so, stores the message's channel and flit
  count through its pointer arguments: the second component of the result.
\<close>

definition tl_handler ::
  "mem_storage \<Rightarrow> tloe_endpoint_t \<Rightarrow> (int \<times> (int \<times> int) option \<times> mem_storage \<times> tloe_endpoint_t) run" where
  "tl_handler mem_storage e =
     (if is_queue_empty (tl_msg_buffer e) \<or> is_queue_full (response_buffer e)
      then Inr (0, None, mem_storage, e)
      else
        case dequeue (tl_msg_buffer e) of
          (None, _) \<Rightarrow> Inl Undefined
        | (Some tlmsg, q) \<Rightarrow>
            let e = e\<lparr>tl_msg_buffer := q\<rparr> in
            if length tlmsg < 8 then Inl Undefined
            else
              let tl_chan = tl_chan (tl_header tlmsg);
                  tl_opcode = tl_opcode (tl_header tlmsg);
                  chan = uint tl_chan;
                  credit = tlmsg_get_flits_cnt tlmsg
              in if unat tl_chan < CHANNEL_NUM
                 then bind_run ((tl_handler_table ! unat tl_chan ! unat tl_opcode) tlmsg (mem_storage, e))
                        (\<lambda>(mem_storage, e). Inr (1, Some (chan, credit), mem_storage, e))
                 else Inl Undefined)"

section \<open>Memory\<close>

lemma length_mem_read [simp]: "length (mem_read mem off n) = n"
  by (simp add: mem_read_def)

lemma mem_read_write: "mem_read (mem_write mem off bs) off (length bs) = bs"
  by (rule nth_equalityI) (simp_all add: mem_read_def mem_write_def)

lemma mem_read_write_other:
  "off + length bs \<le> off' \<or> off' + n \<le> off \<Longrightarrow> mem_read (mem_write mem off bs) off' n = mem_read mem off' n"
  by (auto simp: mem_read_def mem_write_def)

section \<open>Requests\<close>

text \<open>The request messages of the protocol: header, address and, for a write, the data.\<close>

definition put_msg :: "26 word \<Rightarrow> 4 word \<Rightarrow> u64 \<Rightarrow> byte list \<Rightarrow> tl_msg_t" where
  "put_msg src sz addr bs = mk_msg (zero_tl_header\<lparr>tl_chan := 1, tl_opcode := 0, tl_size := sz,
     tl_source := src\<rparr>) (le_bytes addr @ bs)"

definition get_msg :: "26 word \<Rightarrow> 4 word \<Rightarrow> u64 \<Rightarrow> tl_msg_t" where
  "get_msg src sz addr = mk_msg (zero_tl_header\<lparr>tl_chan := 1, tl_opcode := 4, tl_size := sz,
     tl_source := src\<rparr>) (le_bytes addr)"

definition ack_msg :: "26 word \<Rightarrow> tl_msg_t" where
  "ack_msg src = mk_msg (zero_tl_header\<lparr>tl_chan := 4, tl_opcode := 0, tl_size := 0, tl_source := src\<rparr>) []"

definition ackdata_msg :: "26 word \<Rightarrow> 4 word \<Rightarrow> byte list \<Rightarrow> tl_msg_t" where
  "ackdata_msg src sz bs = mk_msg (zero_tl_header\<lparr>tl_chan := 4, tl_opcode := 1, tl_size := sz,
     tl_source := src\<rparr>) bs"

lemma drop_mk_msg [simp]: "drop 8 (mk_msg h body) = body" "drop 16 (mk_msg h body) = drop 8 body"
  by (simp_all add: mk_msg_def)

lemma tl_data_mk_msg [simp]: "tl_data (mk_msg h (le_bytes addr @ bs)) 0 = Inr addr"
  by (simp add: tl_data_def)

lemma tl_data_mk_msg_nil [simp]: "tl_data (mk_msg h (le_bytes addr)) 0 = Inr addr"
  using tl_data_mk_msg [of h addr "[]"] by simp

lemma handle_put:
  assumes "length bs = 2 ^ unat sz"
  shows "handle_A_PUTFULLDATA_opcode (put_msg src sz addr bs) (Some mem, e) =
    bug_on (unat addr mod MEM_SIZE + 2 ^ unat sz > MEM_SIZE)
      (Some (mem_write mem (unat addr mod MEM_SIZE) bs), put_response e (ack_msg src))"
  using assms
  by (auto simp: handle_A_PUTFULLDATA_opcode_def put_msg_def ack_msg_def zero_tl_header_def bug_on_def Let_def)

lemma handle_get:
  "handle_A_GET_opcode (get_msg src sz addr) (Some mem, e) =
    bug_on (unat addr mod MEM_SIZE + 2 ^ unat sz > MEM_SIZE)
      (Some mem, put_response e (ackdata_msg src sz (mem_read mem (unat addr mod MEM_SIZE) (2 ^ unat sz))))"
  by (auto simp: handle_A_GET_opcode_def get_msg_def ackdata_msg_def zero_tl_header_def bug_on_def Let_def)

lemma put_response_room:
  "\<not> is_queue_full (response_buffer e) \<Longrightarrow>
   put_response e m = e\<lparr>response_buffer := snd (enqueue (response_buffer e) m)\<rparr>"
  by (simp add: put_response_def enqueue_def)


section \<open>The memory server\<close>

text \<open>
  What the handler promises, without queues and counters: a message changes the memory and yields a
  list of responses.
\<close>

definition mem_offset :: "tl_msg_t \<Rightarrow> nat" where
  "mem_offset m = unat (le_u64 (take 8 (drop 8 m))) mod MEM_SIZE"

definition is_put :: "tl_msg_t \<Rightarrow> bool" where
  "is_put m \<longleftrightarrow> unat (tl_chan (tl_header m)) = 1 \<and> unat (tl_opcode (tl_header m)) = 0"

definition is_get :: "tl_msg_t \<Rightarrow> bool" where
  "is_get m \<longleftrightarrow> unat (tl_chan (tl_header m)) = 1 \<and> unat (tl_opcode (tl_header m)) = 4"

definition is_ackdata :: "tl_msg_t \<Rightarrow> bool" where
  "is_ackdata m \<longleftrightarrow> unat (tl_chan (tl_header m)) = 4 \<and> unat (tl_opcode (tl_header m)) = 1"

abbreviation access_size :: "tl_msg_t \<Rightarrow> nat" where
  "access_size m \<equiv> 2 ^ unat (tl_size (tl_header m))"

definition tl_serve :: "tl_msg_t \<Rightarrow> (nat \<Rightarrow> byte) \<Rightarrow> (nat \<Rightarrow> byte) \<times> tl_msg_t list" where
  "tl_serve m mem =
     (if is_put m then (mem_write mem (mem_offset m) (take (access_size m) (drop 16 m)),
                        [ack_msg (tl_source (tl_header m))])
      else if is_get m then (mem, [ackdata_msg (tl_source (tl_header m)) (tl_size (tl_header m))
                                     (mem_read mem (mem_offset m) (access_size m))])
      else (mem, []))"

text \<open>Serving messages one after the other.\<close>

fun serve_all :: "tl_msg_t list \<Rightarrow> (nat \<Rightarrow> byte) \<Rightarrow> (nat \<Rightarrow> byte) \<times> tl_msg_t list" where
  "serve_all [] mem = (mem, [])"
| "serve_all (m # ms) mem =
     (let (mem1, rs) = tl_serve m mem; (mem2, rs') = serve_all ms mem1 in (mem2, rs @ rs'))"

lemma serve_all_append:
  "serve_all (ms @ ms') mem = (fst (serve_all ms' (fst (serve_all ms mem))),
     snd (serve_all ms mem) @ snd (serve_all ms' (fst (serve_all ms mem))))"
  by (induction ms arbitrary: mem) (auto split: prod.splits)

text \<open>The messages that can be served: long enough for what the handler reads, and within the memory.\<close>

definition servable :: "tl_msg_t \<Rightarrow> bool" where
  "servable m \<longleftrightarrow> 8 \<le> length m \<and> unat (tl_chan (tl_header m)) < CHANNEL_NUM \<and>
     (is_put m \<longrightarrow> 16 + access_size m \<le> length m) \<and>
     (is_get m \<or> is_ackdata m \<longrightarrow> 16 \<le> length m) \<and>
     (is_put m \<or> is_get m \<longrightarrow> mem_offset m + access_size m \<le> MEM_SIZE)"

lemma tl_handler_table_lookup:
  assumes "c < 6" "p < 8"
  shows "tl_handler_table ! c ! p =
    (if c = 1 \<and> p = 0 then handle_A_PUTFULLDATA_opcode
     else if c = 1 \<and> p = 4 then handle_A_GET_opcode
     else if c = 4 \<and> p = 0 then handle_D_ACCESSACK_opcode
     else if c = 4 \<and> p = 1 then handle_D_ACCESSACKDATA_opcode
     else handle_debug_opcode)"
proof -
  have "c \<in> set [0..<6]" "p \<in> set [0..<8]" using assms by simp_all
  then show ?thesis
    by (auto simp: upt_conv_Cons tl_handler_table_def numeral_eq_Suc)
qed

text \<open>One handler call refines one step of the server, leaving queues and counters alone.\<close>

definition answered :: "tloe_endpoint_t \<Rightarrow> tl_msg_t list \<Rightarrow> tloe_endpoint_t \<Rightarrow> bool" where
  "answered e rs e' \<longleftrightarrow> response_buffer e' = fold (\<lambda>r q. snd (enqueue q r)) rs (response_buffer e) \<and>
     tl_msg_buffer e' = tl_msg_buffer e \<and> message_buffer e' = message_buffer e \<and>
     ack_buffer e' = ack_buffer e \<and> retransmit_buffer e' = retransmit_buffer e \<and> fc e' = fc e \<and>
     fabric_ops e' = fabric_ops e \<and> next_tx_seq e' = next_tx_seq e \<and> next_rx_seq e' = next_rx_seq e \<and>
     acked_seq e' = acked_seq e \<and> drop_response_cnt e' = drop_response_cnt e \<and> fabric_sent e' = fabric_sent e"

lemma handler_serves:
  assumes "servable m" "\<not> is_queue_full (response_buffer e)"
  shows "\<exists>e'. (tl_handler_table ! unat (tl_chan (tl_header m)) ! unat (tl_opcode (tl_header m))) m (Some mem, e)
      = Inr (Some (fst (tl_serve m mem)), e') \<and> answered e (snd (tl_serve m mem)) e'"
proof -
  have c: "unat (tl_chan (tl_header m)) < 6" "unat (tl_opcode (tl_header m)) < 8"
    using assms(1) unsigned_less [of "tl_opcode (tl_header m)", where 'a = nat]
    by (simp_all add: servable_def)
  note lookup = tl_handler_table_lookup [OF c]
  consider "is_put m" | "is_get m" | "is_ackdata m" |
    (ack) "unat (tl_chan (tl_header m)) = 4" "unat (tl_opcode (tl_header m)) = 0" "\<not> is_put m" "\<not> is_get m" |
    (other) "tl_handler_table ! unat (tl_chan (tl_header m)) ! unat (tl_opcode (tl_header m)) = handle_debug_opcode"
      "\<not> is_put m" "\<not> is_get m"
    unfolding lookup is_put_def is_get_def is_ackdata_def by fastforce
  then show ?thesis
  proof cases
    case 1
    then show ?thesis
      unfolding lookup using assms by (simp add: is_put_def servable_def handle_A_PUTFULLDATA_opcode_def tl_data_def
          mem_offset_def tl_serve_def ack_msg_def zero_tl_header_def put_response_room answered_def Let_def)
  next
    case 2
    then show ?thesis
      unfolding lookup using assms by (simp add: is_put_def is_get_def servable_def handle_A_GET_opcode_def tl_data_def
          mem_offset_def tl_serve_def ackdata_msg_def zero_tl_header_def put_response_room answered_def Let_def)
  next
    case 3
    then show ?thesis
      unfolding lookup using assms by (simp add: is_ackdata_def is_put_def is_get_def servable_def tl_data_def
          handle_D_ACCESSACKDATA_opcode_def tl_serve_def answered_def)
  next
    case ack
    then show ?thesis
      unfolding lookup by (simp add: handle_D_ACCESSACK_opcode_def tl_serve_def answered_def)
  next
    case other
    then show ?thesis by (simp add: handle_debug_opcode_def tl_serve_def answered_def)
  qed
qed

lemma tl_handler_spec:
  assumes inv: "q_inv (tl_msg_buffer e)" "q_inv (response_buffer e)"
    and room: "\<not> is_queue_full (response_buffer e)"
    and m: "queue_list (tl_msg_buffer e) = m # ms" "servable m"
  shows "\<exists>e'. tl_handler (Some mem) e =
      Inr (1, Some (tlmsg_get_chan m, tlmsg_get_flits_cnt m), Some (fst (tl_serve m mem)), e') \<and>
    answered (e\<lparr>tl_msg_buffer := snd (dequeue (tl_msg_buffer e))\<rparr>) (snd (tl_serve m mem)) e' \<and>
    q_inv (tl_msg_buffer e') \<and> q_inv (response_buffer e') \<and> queue_list (tl_msg_buffer e') = ms \<and>
    queue_list (response_buffer e') = queue_list (response_buffer e) @ snd (tl_serve m mem)"
proof -
  let ?e = "e\<lparr>tl_msg_buffer := snd (dequeue (tl_msg_buffer e))\<rparr>"
  have dq: "fst (dequeue (tl_msg_buffer e)) = Some m" "q_inv (snd (dequeue (tl_msg_buffer e)))"
    "queue_list (snd (dequeue (tl_msg_buffer e))) = ms" "\<not> is_queue_empty (tl_msg_buffer e)"
    using inv(1) m(1) cq.empty_iff [OF inv(1)]
    by (simp_all add: cq.deq_fst cq.peek_contents cq.deq_inv cq.deq_contents)
  obtain e' where e': "(tl_handler_table ! unat (tl_chan (tl_header m)) ! unat (tl_opcode (tl_header m))) m
      (Some mem, ?e) = Inr (Some (fst (tl_serve m mem)), e')" "answered ?e (snd (tl_serve m mem)) e'"
    using handler_serves [OF m(2), of ?e mem] room by auto
  have h: "tl_handler (Some mem) e =
      Inr (1, Some (tlmsg_get_chan m, tlmsg_get_flits_cnt m), Some (fst (tl_serve m mem)), e')"
    using dq(1,4) room m(2) e'(1)
    by (cases "dequeue (tl_msg_buffer e)")
       (auto simp: tl_handler_def Let_def servable_def tlmsg_get_chan_def)
  have "snd (tl_serve m mem) = [] \<or> (\<exists>r. snd (tl_serve m mem) = [r])" by (auto simp: tl_serve_def)
  then have "q_inv (response_buffer e')"
    "queue_list (response_buffer e') = queue_list (response_buffer e) @ snd (tl_serve m mem)"
    using e'(2) inv(2) room by (auto simp: answered_def cq.enq_inv cq.enq_contents)
  then show ?thesis using h e'(2) dq(2,3) by (simp add: answered_def)
qed

lemma put_msg_serve:
  assumes "length bs = 2 ^ unat sz"
  shows "tl_serve (put_msg src sz a bs) mem = (mem_write mem (unat a mod MEM_SIZE) bs, [ack_msg src])"
    "is_put (put_msg src sz a bs)" "mem_offset (put_msg src sz a bs) = unat a mod MEM_SIZE"
    "unat a mod MEM_SIZE + 2 ^ unat sz \<le> MEM_SIZE \<Longrightarrow> servable (put_msg src sz a bs)"
  using assms
  by (simp_all add: tl_serve_def put_msg_def is_put_def is_get_def is_ackdata_def mem_offset_def servable_def
      zero_tl_header_def)

lemma get_msg_serve:
  shows "tl_serve (get_msg src sz a) mem = (mem, [ackdata_msg src sz (mem_read mem (unat a mod MEM_SIZE) (2 ^ unat sz))])"
    "unat a mod MEM_SIZE + 2 ^ unat sz \<le> MEM_SIZE \<Longrightarrow> servable (get_msg src sz a)"
  by (simp_all add: tl_serve_def get_msg_def is_put_def is_get_def is_ackdata_def mem_offset_def servable_def
      zero_tl_header_def)

section \<open>Properties\<close>

text \<open>
  C20: \<open>tl_handler\<close> serves the oldest message of the TileLink buffer exactly as the memory server \<open>tl_serve\<close> does:
  the memory changes as the message says, the responses are appended to the response buffer (none is ever
  dropped), the message leaves its buffer, and the caller learns its channel and flit count. With
  nothing to serve or no room for a response nothing happens.
\<close>

theorem tl_handler_refines_server:
  assumes "q_inv (tl_msg_buffer e)" "q_inv (response_buffer e)" "\<forall>m \<in> set (queue_list (tl_msg_buffer e)). servable m"
  shows "\<exists>e'. (case queue_list (tl_msg_buffer e) of
      m # ms \<Rightarrow>
        if is_queue_full (response_buffer e) then tl_handler (Some mem) e = Inr (0, None, Some mem, e) \<and> e' = e
        else tl_handler (Some mem) e =
              Inr (1, Some (tlmsg_get_chan m, tlmsg_get_flits_cnt m), Some (fst (tl_serve m mem)), e') \<and>
            queue_list (tl_msg_buffer e') = ms \<and>
            queue_list (response_buffer e') = queue_list (response_buffer e) @ snd (tl_serve m mem) \<and>
            drop_response_cnt e' = drop_response_cnt e
    | [] \<Rightarrow> tl_handler (Some mem) e = Inr (0, None, Some mem, e) \<and> e' = e)"
proof (cases "queue_list (tl_msg_buffer e)")
  case Nil
  then show ?thesis using cq.empty_iff [OF assms(1)] by (simp add: tl_handler_def)
next
  case (Cons m ms)
  show ?thesis
  proof (cases "is_queue_full (response_buffer e)")
    case True
    then show ?thesis using Cons by (simp add: tl_handler_def)
  next
    case False
    have "servable m" using assms(3) Cons by simp
    from tl_handler_spec [OF assms(1,2) False Cons this] Cons False show ?thesis
      by (auto simp: answered_def)
  qed
qed

lemma is_queue_full_create: "1 < n \<Longrightarrow> \<not> is_queue_full (create_queue n)"
  by (simp add: is_queue_full_def create_queue_def init_queue_def)

text \<open>An endpoint with given messages waiting for the handler.\<close>

definition serving :: "tl_msg_t list \<Rightarrow> tloe_endpoint_t" where
  "serving ms = zero_endpoint\<lparr>tl_msg_buffer := fold (\<lambda>m q. snd (enqueue q m)) ms (create_queue 10),
     response_buffer := create_queue 10\<rparr>"

lemma serving_two:
  "q_inv (tl_msg_buffer (serving [m1, m2]))" "queue_list (tl_msg_buffer (serving [m1, m2])) = [m1, m2]"
  "q_inv (response_buffer (serving [m1, m2]))" "queue_list (response_buffer (serving [m1, m2])) = []"
  "q_cap (response_buffer (serving [m1, m2])) = 9"
proof -
  have i: "q_inv (create_queue 10 :: tl_msg_t CircularQueue)" "\<not> is_queue_full (create_queue 10 :: tl_msg_t CircularQueue)"
    by (simp_all add: create_queue_inv is_queue_full_create)
  let ?q1 = "snd (enqueue (create_queue 10) m1)"
  have 1: "q_inv ?q1" "queue_list ?q1 = [m1]" "q_cap ?q1 = 9"
    using cq.enq_inv [OF i(1)] cq.enq_contents [OF i] by (simp_all add: cq.enq_cap)
  then have "\<not> is_queue_full ?q1" using cq.full_iff [OF 1(1)] by simp
  then show "q_inv (tl_msg_buffer (serving [m1, m2]))" "queue_list (tl_msg_buffer (serving [m1, m2])) = [m1, m2]"
    using cq.enq_inv [OF 1(1)] cq.enq_contents [OF 1(1)] 1(2) by (simp_all add: serving_def)
qed (simp_all add: serving_def create_queue_inv)

theorem tl_handler_refines_server_witness:
  "\<exists>e'. tl_handler (Some (\<lambda>_. 0)) (serving [put_msg 1 0 5 [9], get_msg 2 0 5]) =
      Inr (1, Some (1, 3), Some (mem_write (\<lambda>_. 0) 5 [9]), e') \<and>
    queue_list (tl_msg_buffer e') = [get_msg 2 0 5] \<and> queue_list (response_buffer e') = [ack_msg 1]"
proof -
  let ?ms = "[put_msg 1 0 5 [9], get_msg 2 0 5]"
  have nf: "\<not> is_queue_full (response_buffer (serving ?ms))"
    using cq.full_iff [OF serving_two(3)] serving_two(4,5) by simp
  have "tlmsg_get_chan (put_msg 1 0 5 [9]) = 1" "tlmsg_get_flits_cnt (put_msg 1 0 5 [9]) = 3"
    by (simp_all add: put_msg_def tlmsg_get_flits_cnt_def tlmsg_get_header_size_def tlmsg_get_data_size_def
        tlmsg_get_chan_def tlmsg_get_opcode_def tlmsg_get_size_def header_log_def data_log_def int_of_shl_log
        zero_tl_header_def convert_size_to_flits_def)
  moreover have "servable (put_msg 1 0 5 [9])" "servable (get_msg 2 0 5)"
    by (rule put_msg_serve(4), simp, simp) (rule get_msg_serve(2), simp)
  ultimately show ?thesis
    using tl_handler_refines_server [OF serving_two(1,3), of "put_msg 1 0 5 [9]" "get_msg 2 0 5" "\<lambda>_. 0"]
      nf serving_two(2,4) put_msg_serve(1) [of "[9]" 0 1 5] by auto
qed

text \<open>
  C21: a write followed by a read of the same size at the same address returns the data written: two calls of
  \<open>tl_handler\<close> answer an acknowledgement and then the data, for every size and every address whose access stays
  within the memory.
\<close>

theorem write_then_read:
  assumes inv: "q_inv (tl_msg_buffer e)" "q_inv (response_buffer e)"
    and q: "queue_list (tl_msg_buffer e) = put_msg s1 sz a bs # get_msg s2 sz a # ms"
    and len: "length bs = 2 ^ unat sz" and bound: "unat a mod MEM_SIZE + 2 ^ unat sz \<le> MEM_SIZE"
    and room: "length (queue_list (response_buffer e)) + 2 \<le> q_cap (response_buffer e)"
  shows "\<exists>out mem' e'. bind_run (tl_handler (Some mem) e) (\<lambda>(_, _, mem, e). tl_handler mem e) = Inr (1, out, mem', e') \<and>
    queue_list (response_buffer e') = queue_list (response_buffer e) @ [ack_msg s1, ackdata_msg s2 sz bs] \<and>
    queue_list (tl_msg_buffer e') = ms"
proof -
  let ?m1 = "put_msg s1 sz a bs" and ?m2 = "get_msg s2 sz a"
  let ?mem = "mem_write mem (unat a mod MEM_SIZE) bs"
  have nf: "\<not> is_queue_full (response_buffer e)" using cq.full_iff [OF inv(2)] room by simp
  obtain e1 where e1: "tl_handler (Some mem) e =
      Inr (1, Some (tlmsg_get_chan ?m1, tlmsg_get_flits_cnt ?m1), Some ?mem, e1)"
    "answered (e\<lparr>tl_msg_buffer := snd (dequeue (tl_msg_buffer e))\<rparr>) [ack_msg s1] e1"
    "q_inv (tl_msg_buffer e1)" "q_inv (response_buffer e1)" "queue_list (tl_msg_buffer e1) = ?m2 # ms"
    "queue_list (response_buffer e1) = queue_list (response_buffer e) @ [ack_msg s1]"
    using tl_handler_spec [OF inv nf q put_msg_serve(4) [OF len bound], of mem]
    unfolding put_msg_serve(1) [OF len] fst_conv snd_conv by (elim exE conjE) (rule that)
  have "q_cap (response_buffer e1) = q_cap (response_buffer e)"
    using e1(2) by (simp add: answered_def cq.enq_cap)
  then have nf1: "\<not> is_queue_full (response_buffer e1)"
    using cq.full_iff [OF e1(4)] e1(6) room by simp
  have rd: "mem_read ?mem (unat a mod MEM_SIZE) (2 ^ unat sz) = bs" using mem_read_write [of mem _ bs] len by simp
  obtain e2 where "tl_handler (Some ?mem) e1 =
      Inr (1, Some (tlmsg_get_chan ?m2, tlmsg_get_flits_cnt ?m2), Some ?mem, e2)"
    "queue_list (tl_msg_buffer e2) = ms"
    "queue_list (response_buffer e2) = queue_list (response_buffer e1) @ [ackdata_msg s2 sz bs]"
    using tl_handler_spec [OF e1(3,4) nf1 e1(5) get_msg_serve(2) [OF bound], of ?mem]
    unfolding get_msg_serve(1) fst_conv snd_conv rd by (elim exE conjE) (rule that)
  then show ?thesis using e1(1,6) by simp
qed

theorem write_then_read_witness:
  "\<exists>out mem' e'. bind_run (tl_handler (Some (\<lambda>_. 0)) (serving [put_msg 1 1 6 [8, 9], get_msg 2 1 6]))
      (\<lambda>(_, _, mem, e). tl_handler mem e) = Inr (1, out, mem', e') \<and>
    queue_list (response_buffer e') = [ack_msg 1, ackdata_msg 2 1 [8, 9]]"
  using write_then_read [of "serving [put_msg 1 1 6 [8, 9], get_msg 2 1 6]" 1 1 6 "[8, 9]" 2 "[]" "\<lambda>_. 0"] serving_two
  by auto



end
