(* ===== verification/Connection.thy ===== *)
theory Connection
  imports Seq_Mgr
begin

text \<open>
  Opening and closing a connection (\<^verbatim>\<open>tloe_connection.c\<close>). The loops wait for the peer: a loop takes a
  list of events, one for each pass, that says what the fabric delivers and what the clock shows.
  A loop whose events run out has not returned; its value is \<open>Inl Diverge\<close>.
\<close>

abbreviation (input) CONN_PACKET_SIZE :: int where "CONN_PACKET_SIZE \<equiv> 56"

section \<open>Frames\<close>

definition send_frame ::
  "tloe_endpoint_t \<Rightarrow> int \<Rightarrow> u32 \<Rightarrow> u32 \<Rightarrow> int \<Rightarrow> int \<Rightarrow> tloe_endpoint_t run" where
  "send_frame e type seq_num seq_num_ack chan credit =
     (let f = zero_frame MAX_SIZE_FLIT;
          f = f\<lparr>f_header := (f_header f)\<lparr>h_type := word_of_int type, h_seq_num := ucast seq_num,
                h_seq_num_ack := ucast seq_num_ack, h_ack := word_of_int TLOE_ACK\<rparr>\<rparr>
      in bind_run (tloe_set_mask f 0 CONN_PACKET_SIZE) (\<lambda>(_, f).
         let f = f\<lparr>f_header := (f_header f)\<lparr>h_chan := word_of_int chan, h_credit := word_of_int credit\<rparr>\<rparr> in
         bind_run (tloe_frame_to_packet f CONN_PACKET_SIZE) (\<lambda>send_buffer.
         Inr (tloe_fabric_send e send_buffer))))"

text \<open>
  The receive functions convert into a frame on the stack and read only its header, which the
  conversion always sets.
\<close>

definition recv_conn_master :: "recv_result \<Rightarrow> tloe_endpoint_t \<Rightarrow> tloe_endpoint_t run" where
  "recv_conn_master rx ep =
     (let (n, recv_buffer) = tloe_fabric_recv ep rx in
      if n \<ge> 0 then
        bind_run (packet_to_tloe_frame recv_buffer n (zero_frame MAX_SIZE_FLIT)) (\<lambda>f.
        if tloe_seqnum_cmp (ucast (h_seq_num (f_header f))) (next_rx_seq ep) = 0 then
          bind_run (set_credit (fc ep) (unat (h_chan (f_header f))) (unat (h_credit (f_header f)))) (\<lambda>fc'.
          let ep = ep\<lparr>fc := fc'\<rparr>;
              ep = tloe_seqnum_update_next_rx_seq ep f
          in Inr (tloe_seqnum_update_acked_seq ep f))
        else Inr ep)
      else Inr ep)"

definition recv_conn_slave :: "recv_result \<Rightarrow> tloe_endpoint_t \<Rightarrow> int \<Rightarrow> (int \<times> tloe_endpoint_t) run" where
  "recv_conn_slave rx ep conn_flag =
     (let (n, recv_buffer) = tloe_fabric_recv ep rx in
      if n \<ge> 0 then
        bind_run (packet_to_tloe_frame recv_buffer n (zero_frame MAX_SIZE_FLIT)) (\<lambda>f.
        let conn_flag = (if uint (h_type (f_header f)) = TYPE_OPEN_CONNECTION then 1 else conn_flag) in
        if conn_flag \<noteq> 0 then
          bind_run (set_credit (fc ep) (unat (h_chan (f_header f))) (unat (h_credit (f_header f)))) (\<lambda>fc'.
          let ep = ep\<lparr>fc := fc'\<rparr>;
              ep = tloe_seqnum_update_next_rx_seq ep f
          in Inr (conn_flag, tloe_seqnum_update_acked_seq ep f))
        else Inr (conn_flag, ep))
      else Inr (conn_flag, ep))"

definition serve_conn_master :: "tloe_endpoint_t \<Rightarrow> tloe_endpoint_t run" where
  "serve_conn_master ep =
     fold_run (\<lambda>i ep.
       bind_run (send_frame ep (if int i = CHANNEL_A then TYPE_OPEN_CONNECTION else TYPE_NORMAL)
                   (of_nat (i - 1)) (tloe_seqnum_prev (next_rx_seq ep)) (int i) (int CREDIT_DEFAULT))
         (\<lambda>ep. Inr (ep\<lparr>next_tx_seq := of_nat i\<rparr>)))
       [1..<CHANNEL_NUM] ep"

definition serve_conn_slave :: "tloe_endpoint_t \<Rightarrow> tloe_endpoint_t run" where
  "serve_conn_slave ep =
     fold_run (\<lambda>i ep.
       bind_run (send_frame ep TYPE_NORMAL
                   (of_nat (i - 1)) (tloe_seqnum_prev (next_rx_seq ep)) (int i) (int CREDIT_DEFAULT))
         (\<lambda>ep. Inr (ep\<lparr>next_tx_seq := of_nat i\<rparr>)))
       [1..<CHANNEL_NUM] ep"

section \<open>Opening\<close>

text \<open>
  One pass of a loop: what the fabric delivers, the clock when frames were sent in this pass (read
  only then) and the clock at the end of the pass. \<open>wde\<close> is the build switch \<^verbatim>\<open>WDE\<close>.
\<close>

record conn_event =
  ev_rx :: recv_result
  ev_start :: timespec
  ev_now :: timespec

fun open_conn_master_loop ::
  "bool \<Rightarrow> conn_event list \<Rightarrow> timespec \<Rightarrow> int \<Rightarrow> tloe_endpoint_t \<Rightarrow> tloe_endpoint_t run" where
  "open_conn_master_loop wde [] start timer ep = Inl Diverge"
| "open_conn_master_loop wde (ev # evs) start timer ep =
     bind_run (if timer = 1 then serve_conn_master ep else Inr ep) (\<lambda>ep.
     let start = (if timer = 1 then ev_start ev else start) in
     bind_run (recv_conn_master (ev_rx ev) ep) (\<lambda>ep.
     if check_all_channels wde (fc ep) then Inr ep
     else open_conn_master_loop wde evs start (check_timer (ev_now ev) start) ep))"

definition open_conn_master ::
  "bool \<Rightarrow> conn_event list \<Rightarrow> timespec \<Rightarrow> tloe_endpoint_t \<Rightarrow> (int \<times> tloe_endpoint_t) run" where
  "open_conn_master wde evs start ep =
     bind_run (open_conn_master_loop wde evs start 1 ep) (\<lambda>ep.
     bind_run (send_frame ep TYPE_NORMAL (next_tx_seq ep) (tloe_seqnum_prev (next_rx_seq ep)) 0 0) (\<lambda>ep.
     Inr (1, tloe_seqnum_next_tx_seq_inc ep)))"

text \<open>
  The slave tests \<open>check_timer\<close> against a \<^verbatim>\<open>start\<close> that is not initialised until it has served the
  first time: the argument \<open>start\<close>.
\<close>

fun open_conn_slave_loop ::
  "bool \<Rightarrow> conn_event list \<Rightarrow> timespec \<Rightarrow> int \<Rightarrow> int \<Rightarrow> tloe_endpoint_t \<Rightarrow> tloe_endpoint_t run" where
  "open_conn_slave_loop wde [] start timer conn_flag ep = Inl Diverge"
| "open_conn_slave_loop wde (ev # evs) start timer conn_flag ep =
     (let serve = (conn_flag \<noteq> 0 \<and> timer = 1) in
      bind_run (if serve then serve_conn_slave ep else Inr ep) (\<lambda>ep.
      let start = (if serve then ev_start ev else start) in
      bind_run (recv_conn_slave (ev_rx ev) ep conn_flag) (\<lambda>(conn_flag, ep).
      if check_all_channels wde (fc ep) then Inr ep
      else open_conn_slave_loop wde evs start (check_timer (ev_now ev) start) conn_flag ep)))"

definition open_conn_slave ::
  "bool \<Rightarrow> conn_event list \<Rightarrow> timespec \<Rightarrow> tloe_endpoint_t \<Rightarrow> (int \<times> tloe_endpoint_t) run" where
  "open_conn_slave wde evs start ep =
     bind_run (open_conn_slave_loop wde evs start 1 0 ep) (\<lambda>ep.
     bind_run (send_frame ep TYPE_ACKONLY (next_tx_seq ep) (tloe_seqnum_prev (next_rx_seq ep)) 0 0) (\<lambda>ep.
     Inr (1, ep)))"

section \<open>Closing\<close>

definition serve_close_conn :: "tloe_endpoint_t \<Rightarrow> tloe_endpoint_t run" where
  "serve_close_conn ep =
     send_frame ep TYPE_CLOSE_CONNECTION (next_tx_seq ep) (tloe_seqnum_prev (next_rx_seq ep)) 0 0"

definition recv_close_conn_master :: "recv_result \<Rightarrow> tloe_endpoint_t \<Rightarrow> (int \<times> tloe_endpoint_t) run" where
  "recv_close_conn_master rx ep =
     (let (n, recv_buffer) = tloe_fabric_recv ep rx in
      if n \<ge> 0 then
        bind_run (packet_to_tloe_frame recv_buffer n (zero_frame MAX_SIZE_FLIT)) (\<lambda>f.
        if uint (h_type (f_header f)) = TYPE_CLOSE_CONNECTION
        then Inr (1, ep\<lparr>next_rx_seq := tloe_seqnum_next (ucast (h_seq_num (f_header f))),
                        acked_seq := ucast (h_seq_num_ack (f_header f))\<rparr>)
        else Inr (0, ep))
      else Inr (0, ep))"

definition recv_close_conn_slave ::
  "recv_result \<Rightarrow> tloe_endpoint_t \<Rightarrow> int \<Rightarrow> (int \<times> tloe_endpoint_t) run" where
  "recv_close_conn_slave rx ep conn_flag =
     (let (n, recv_buffer) = tloe_fabric_recv ep rx in
      if n \<ge> 0 then
        bind_run (packet_to_tloe_frame recv_buffer n (zero_frame MAX_SIZE_FLIT)) (\<lambda>f.
        if uint (h_type (f_header f)) = TYPE_CLOSE_CONNECTION
        then Inr (1, ep\<lparr>next_rx_seq := tloe_seqnum_next (ucast (h_seq_num (f_header f))),
                        acked_seq := ucast (h_seq_num_ack (f_header f))\<rparr>)
        else Inr (conn_flag, ep))
      else Inr (conn_flag, ep))"

fun close_conn_master ::
  "conn_event list \<Rightarrow> timespec \<Rightarrow> int \<Rightarrow> tloe_endpoint_t \<Rightarrow> (int \<times> tloe_endpoint_t) run" where
  "close_conn_master [] start timer ep = Inl Diverge"
| "close_conn_master (ev # evs) start timer ep =
     bind_run (if timer = 1 then serve_close_conn ep else Inr ep) (\<lambda>ep.
     let start = (if timer = 1 then ev_start ev else start) in
     bind_run (recv_close_conn_master (ev_rx ev) ep) (\<lambda>(is_done, ep).
     if is_done \<noteq> 0 then Inr (is_done, ep)
     else close_conn_master evs start (check_timer (ev_now ev) start) ep))"

fun close_conn_slave ::
  "conn_event list \<Rightarrow> int \<Rightarrow> tloe_endpoint_t \<Rightarrow> (int \<times> tloe_endpoint_t) run" where
  "close_conn_slave [] conn_flag ep = Inl Diverge"
| "close_conn_slave (ev # evs) conn_flag ep =
     bind_run (if conn_flag \<noteq> 0 then serve_close_conn ep else Inr ep) (\<lambda>ep.
     let is_done = (if conn_flag \<noteq> 0 then 1 else 0) in
     bind_run (recv_close_conn_slave (ev_rx ev) ep conn_flag) (\<lambda>(conn_flag, ep).
     if is_done \<noteq> 0 then Inr (is_done, ep) else close_conn_slave evs conn_flag ep))"

definition is_conn :: "tloe_endpoint_t \<Rightarrow> int" where
  "is_conn e = (if connection e = 0 then 0 else 1)"

section \<open>What the functions do\<close>

definition conn_header :: "int \<Rightarrow> u32 \<Rightarrow> u32 \<Rightarrow> int \<Rightarrow> int \<Rightarrow> tloe_header_t" where
  "conn_header type seq ack chan credit = zero_header\<lparr>h_type := word_of_int type, h_seq_num := ucast seq,
     h_seq_num_ack := ucast ack, h_ack := 1, h_chan := word_of_int chan, h_credit := word_of_int credit\<rparr>"

definition conn_packet :: "tloe_header_t \<Rightarrow> byte list" where
  "conn_packet h = be_bytes (tloe_header_to_u64 h) @ concat (map be_bytes (replicate 6 0))"

lemma send_frame_eq:
  "send_frame e type seq ack chan credit = Inr (tloe_fabric_send e (conn_packet (conn_header type seq ack chan credit)))"
proof -
  let ?f = "\<lparr>f_header = conn_header type seq ack chan credit, flits = replicate 65 0\<rparr>"
  have "tloe_frame_to_packet ?f (8 + 8 * int 6) = Inr (conn_packet (conn_header type seq ack chan credit))"
    by (subst tloe_frame_to_packet_eq) (simp_all add: conn_packet_def)
  moreover have "(replicate 65 (0 :: u64))[5 := 0] = replicate 65 0" by (simp add: list_update_same_conv)
  ultimately show ?thesis
    by (simp add: send_frame_def tloe_set_mask_def zero_frame_def conn_header_def Let_def zero_header_def)
qed

lemma send_frame_up:
  "fabric_up e \<Longrightarrow> send_frame e type seq ack chan credit =
     Inr (e\<lparr>fabric_sent := fabric_sent e @ [conn_packet (conn_header type seq ack chan credit)]\<rparr>)"
  by (simp add: send_frame_eq tloe_fabric_send_up)

lemma conn_packet_decode:
  "\<exists>f. packet_to_tloe_frame (conn_packet h @ rest) 56 (zero_frame 65) = Inr f \<and> f_header f = h"
  using packet_to_tloe_frame_eq [of "replicate 6 0" 6 "zero_frame 65" "tloe_header_to_u64 h" rest]
  by (simp add: conn_packet_def zero_frame_def)

text \<open>An event in which a connection frame arrives, and one in which nothing does.\<close>

definition delivers :: "conn_event \<Rightarrow> tloe_header_t \<Rightarrow> bool" where
  "delivers ev h \<longleftrightarrow> (\<exists>rest. ev_rx ev = (56, conn_packet h @ rest))"

definition quiet :: "conn_event \<Rightarrow> bool" where
  "quiet ev \<longleftrightarrow> fst (ev_rx ev) < 0"

lemma serve_loop_ok:
  assumes "fabric_up ep"
  shows "\<exists>ps. fold_run (\<lambda>i ep.
       bind_run (send_frame ep (ty i) (of_nat (i - 1)) (tloe_seqnum_prev (next_rx_seq ep)) (int i) (int CREDIT_DEFAULT))
         (\<lambda>ep. Inr (ep\<lparr>next_tx_seq := of_nat i\<rparr>))) [1..<Suc n] ep =
     Inr (ep\<lparr>fabric_sent := fabric_sent ep @ map (\<lambda>i. conn_packet (conn_header (ty i) (of_nat (i - 1))
            (tloe_seqnum_prev (next_rx_seq ep)) (int i) 10)) [1..<Suc n],
          next_tx_seq := (if n = 0 then next_tx_seq ep else of_nat n)\<rparr>)"
proof (induction n)
  case 0
  then show ?case by simp
next
  case (Suc n)
  then show ?case
    using assms by (simp add: fold_run_append send_frame_up fabric_up_def)
qed

lemma serve_conn_ok:
  assumes "fabric_up ep"
  shows "serve_conn_master ep = Inr (ep\<lparr>fabric_sent := fabric_sent ep @
       map (\<lambda>i. conn_packet (conn_header (if int i = CHANNEL_A then TYPE_OPEN_CONNECTION else TYPE_NORMAL) (of_nat (i - 1))
            (tloe_seqnum_prev (next_rx_seq ep)) (int i) 10)) [1..<6], next_tx_seq := 5\<rparr>)"
    "serve_conn_slave ep = Inr (ep\<lparr>fabric_sent := fabric_sent ep @
       map (\<lambda>i. conn_packet (conn_header TYPE_NORMAL (of_nat (i - 1))
            (tloe_seqnum_prev (next_rx_seq ep)) (int i) 10)) [1..<6], next_tx_seq := 5\<rparr>)"
  using serve_loop_ok [OF assms, of "\<lambda>i. if int i = 1 then 2 else 0" 5] serve_loop_ok [OF assms, of "\<lambda>_. 0" 5]
  unfolding serve_conn_master_def serve_conn_slave_def by simp_all

text \<open>The credit state after the channels \<open>1..i\<close> have been announced with \<open>2 ^ 10\<close> credits each.\<close>

definition announced :: "nat \<Rightarrow> u32 list" where
  "announced i = map (\<lambda>c. if 1 \<le> c \<and> c \<le> i then 1024 else 128) [0..<6]"

lemma announced_Suc: "i < 5 \<Longrightarrow> (announced i)[Suc i := 1024] = announced (Suc i)"
  by (rule nth_equalityI) (auto simp: announced_def nth_list_update)

lemma announced_0: "announced 0 = replicate 6 128"
  by (rule nth_equalityI) (auto simp: announced_def)

lemma check_announced:
  assumes "credits F = announced i" "i \<le> 5"
  shows "check_all_channels False F \<longleftrightarrow> i = 5"
proof -
  have "i \<in> {0, 1, 2, 3, 4, 5}" using assms(2) by auto
  then show ?thesis
    by (auto simp: check_all_channels_def assms(1) announced_def Let_def upt_conv_Cons)
qed

definition conn_progress :: "nat \<Rightarrow> tloe_endpoint_t \<Rightarrow> bool" where
  "conn_progress i ep \<longleftrightarrow> fabric_up ep \<and> next_rx_seq ep = of_nat i \<and> credits (fc ep) = announced i \<and>
     length (tx_flow_credits (fc ep)) = 6"

lemma of_nat_small_seq: "i \<le> 5 \<Longrightarrow> of_nat i = seq_of i"
  by (simp add: seq_of_def)

text \<open>The frame that announces channel \<open>i + 1\<close>, whatever it acknowledges.\<close>

definition announces :: "nat \<Rightarrow> tloe_header_t \<Rightarrow> bool" where
  "announces i h \<longleftrightarrow> h_seq_num h = of_nat i \<and> h_chan h = of_nat (Suc i) \<and> h_credit h = 10"

lemma announce_fields:
  assumes "announces i h" "i < 5"
  shows "ucast (h_seq_num h) = seq_of i" "unat (h_chan h) = Suc i" "unat (h_credit h) = 10"
proof -
  have i: "i \<in> {0, 1, 2, 3, 4}" using assms(2) by auto
  then show "ucast (h_seq_num h) = seq_of i" "unat (h_chan h) = Suc i"
    using assms(1) by (auto simp: announces_def seq_of_def)
  show "unat (h_credit h) = 10" using assms(1) by (simp add: announces_def)
qed

lemma accept_announce:
  assumes p: "conn_progress i ep" and h: "announces i (f_header f)" and i: "i < 5"
  shows "set_credit (fc ep) (unat (h_chan (f_header f))) (unat (h_credit (f_header f))) =
      Inr ((fc ep)\<lparr>credits := announced (Suc i), tx_flow_credits := (tx_flow_credits (fc ep))[Suc i := 0]\<rparr>)"
    "conn_progress (Suc i) (tloe_seqnum_update_acked_seq (tloe_seqnum_update_next_rx_seq
       (ep\<lparr>fc := (fc ep)\<lparr>credits := announced (Suc i), tx_flow_credits := (tx_flow_credits (fc ep))[Suc i := 0]\<rparr>\<rparr>) f) f)"
proof -
  note a = announce_fields [OF h i]
  show "set_credit (fc ep) (unat (h_chan (f_header f))) (unat (h_credit (f_header f))) =
      Inr ((fc ep)\<lparr>credits := announced (Suc i), tx_flow_credits := (tx_flow_credits (fc ep))[Suc i := 0]\<rparr>)"
    using p i a announced_Suc [OF i] by (simp add: set_credit_def conn_progress_def)
  have "tloe_seqnum_next (seq_of i) = of_nat (Suc i)"
    using i of_nat_small_seq [of "Suc i"] by (simp only: seqnum_next_seq_of)
  then show "conn_progress (Suc i) (tloe_seqnum_update_acked_seq (tloe_seqnum_update_next_rx_seq
       (ep\<lparr>fc := (fc ep)\<lparr>credits := announced (Suc i), tx_flow_credits := (tx_flow_credits (fc ep))[Suc i := 0]\<rparr>\<rparr>) f) f)"
    using p a by (simp add: conn_progress_def tloe_seqnum_update_acked_seq_def tloe_seqnum_update_next_rx_seq_def
        fabric_up_def)
qed

lemma recv_conn_master_announce:
  assumes p: "conn_progress i ep" and ev: "delivers ev h" "announces i h" and i: "i < 5"
  shows "\<exists>ep'. recv_conn_master (ev_rx ev) ep = Inr ep' \<and> conn_progress (Suc i) ep' \<and> next_tx_seq ep' = next_tx_seq ep"
proof -
  obtain rest where rx: "ev_rx ev = (56, conn_packet h @ rest)" using ev(1) by (auto simp: delivers_def)
  obtain f where f: "packet_to_tloe_frame (conn_packet h @ rest) 56 (zero_frame 65) = Inr f" "f_header f = h"
    using conn_packet_decode by blast
  have up: "fabric_up ep" "next_rx_seq ep = seq_of i" using p i of_nat_small_seq [of i] by (simp_all add: conn_progress_def)
  have "tloe_seqnum_cmp (ucast (h_seq_num h)) (next_rx_seq ep) = 0"
    using announce_fields(1) [OF ev(2) i] up(2) by (simp add: cmp_eq_0_iff)
  then show ?thesis
    using accept_announce [OF p _ i, of f] ev(2) f rx up(1)
    by (simp add: recv_conn_master_def tloe_fabric_recv_up Let_def tloe_seqnum_update_acked_seq_def
        tloe_seqnum_update_next_rx_seq_def)
qed

lemma recv_conn_slave_announce:
  assumes p: "conn_progress i ep" and ev: "delivers ev h" "announces i h" and i: "i < 5"
    and fl: "cf \<noteq> 0 \<or> uint (h_type h) = TYPE_OPEN_CONNECTION"
  shows "\<exists>ep' cf'. recv_conn_slave (ev_rx ev) ep cf = Inr (cf', ep') \<and> conn_progress (Suc i) ep' \<and> cf' \<noteq> 0 \<and>
    next_tx_seq ep' = next_tx_seq ep"
proof -
  obtain rest where rx: "ev_rx ev = (56, conn_packet h @ rest)" using ev(1) by (auto simp: delivers_def)
  obtain f where f: "packet_to_tloe_frame (conn_packet h @ rest) 56 (zero_frame 65) = Inr f" "f_header f = h"
    using conn_packet_decode by blast
  have up: "fabric_up ep" using p by (simp add: conn_progress_def)
  show ?thesis
    using accept_announce [OF p _ i, of f] ev(2) f rx up fl
    by (auto simp: recv_conn_slave_def tloe_fabric_recv_up Let_def tloe_seqnum_update_acked_seq_def
        tloe_seqnum_update_next_rx_seq_def)
qed

lemma recv_quiet:
  assumes "fabric_up ep" "quiet ev"
  shows "recv_conn_master (ev_rx ev) ep = Inr ep" "recv_conn_slave (ev_rx ev) ep cf = Inr (cf, ep)"
  using assms by (cases "ev_rx ev"; simp add: recv_conn_master_def recv_conn_slave_def tloe_fabric_recv_up quiet_def)+

section \<open>The handshake\<close>

text \<open>
  Event lists in which exactly the frames for the channels after \<open>i\<close> arrive, in order, with any number of
  events in between in which nothing arrives.
\<close>

fun arrivals :: "nat \<Rightarrow> conn_event list \<Rightarrow> bool" where
  "arrivals i [] \<longleftrightarrow> i = 5"
| "arrivals i (ev # evs) \<longleftrightarrow> quiet ev \<and> arrivals i evs \<or> i < 5 \<and> (\<exists>h. delivers ev h \<and> announces i h) \<and> arrivals (Suc i) evs"

lemma serve_progress:
  assumes "conn_progress i ep"
  shows "\<exists>ep'. serve_conn_master ep = Inr ep' \<and> conn_progress i ep' \<and> next_tx_seq ep' = 5"
    "\<exists>ep'. serve_conn_slave ep = Inr ep' \<and> conn_progress i ep' \<and> next_tx_seq ep' = 5"
  using assms serve_conn_ok [of ep] by (simp_all add: conn_progress_def fabric_up_def)

lemma master_loop_completes:
  assumes "conn_progress i ep" "i < 5" "arrivals i evs" "timer = 1 \<or> next_tx_seq ep = 5"
  shows "\<exists>ep'. open_conn_master_loop False evs start timer ep = Inr ep' \<and> conn_progress 5 ep' \<and> next_tx_seq ep' = 5"
  using assms
proof (induction evs arbitrary: i ep timer start)
  case Nil
  then show ?case by simp
next
  case (Cons ev evs)
  obtain ep1 where ep1: "(if timer = 1 then serve_conn_master ep else Inr ep) = Inr ep1" "conn_progress i ep1"
    "next_tx_seq ep1 = 5"
    using Cons.prems(1,4) serve_progress(1) [OF Cons.prems(1)] by (cases "timer = 1") auto
  have up: "fabric_up ep1" using ep1(2) by (simp add: conn_progress_def)
  let ?st = "if timer = 1 then ev_start ev else start"
  consider "quiet ev" "arrivals i evs" | h where "delivers ev h" "announces i h" "arrivals (Suc i) evs"
    using Cons.prems(3) by auto
  then show ?case
  proof cases
    case 1
    have "\<not> check_all_channels False (fc ep1)"
      using check_announced [of "fc ep1" i] ep1(2) Cons.prems(2) by (simp add: conn_progress_def)
    moreover obtain ep' where
      "open_conn_master_loop False evs ?st (check_timer (ev_now ev) ?st) ep1 = Inr ep'" "conn_progress 5 ep'" "next_tx_seq ep' = 5"
      using Cons.IH [OF ep1(2) Cons.prems(2) 1(2)] ep1(3) by blast
    ultimately show ?thesis using ep1(1) recv_quiet(1) [OF up 1(1)] by (simp add: Let_def)
  next
    case 2
    obtain ep2 where ep2: "recv_conn_master (ev_rx ev) ep1 = Inr ep2" "conn_progress (Suc i) ep2" "next_tx_seq ep2 = 5"
      using recv_conn_master_announce [OF ep1(2) 2(1,2) Cons.prems(2)] ep1(3) by auto
    show ?thesis
    proof (cases "Suc i = 5")
      case True
      then have "check_all_channels False (fc ep2)"
        using check_announced [of "fc ep2" "Suc i"] ep2(2) by (simp add: conn_progress_def)
      then show ?thesis using ep1(1) ep2 True by (simp add: Let_def)
    next
      case False
      then have i: "Suc i < 5" using Cons.prems(2) by simp
      have "\<not> check_all_channels False (fc ep2)"
        using check_announced [of "fc ep2" "Suc i"] ep2(2) i by (simp add: conn_progress_def)
      moreover obtain ep' where
        "open_conn_master_loop False evs ?st (check_timer (ev_now ev) ?st) ep2 = Inr ep'" "conn_progress 5 ep'" "next_tx_seq ep' = 5"
        using Cons.IH [OF ep2(2) i 2(3)] ep2(3) by blast
      ultimately show ?thesis using ep1(1) ep2(1) by (simp add: Let_def)
    qed
  qed
qed


text \<open>
  The slave has announced its credits by the end of the loop if it has already, or if the clock has run
  past the resend time from the \<open>start\<close> it compares with.
\<close>

definition will_serve :: "conn_event list \<Rightarrow> timespec \<Rightarrow> int \<Rightarrow> tloe_endpoint_t \<Rightarrow> bool" where
  "will_serve evs start timer ep \<longleftrightarrow>
     next_tx_seq ep = 5 \<or> timer = 1 \<and> (\<forall>ev \<in> set evs. check_timer (ev_now ev) start = 1)"

lemma slave_loop_completes:
  assumes "conn_progress i ep" "i < 5" "arrivals i evs" "cf \<noteq> 0 \<or> i = 0"
    and "i = 0 \<longrightarrow> (\<forall>ev \<in> set evs. \<forall>h. delivers ev h \<longrightarrow> announces 0 h \<longrightarrow> uint (h_type h) = TYPE_OPEN_CONNECTION)"
  shows "\<exists>ep'. open_conn_slave_loop False evs start timer cf ep = Inr ep' \<and> conn_progress 5 ep' \<and>
    (will_serve evs start timer ep \<longrightarrow> next_tx_seq ep' = 5)"
  using assms
proof (induction evs arbitrary: i ep timer start cf)
  case Nil
  then show ?case by simp
next
  case (Cons ev evs)
  obtain ep1 where ep1: "(if cf \<noteq> 0 \<and> timer = 1 then serve_conn_slave ep else Inr ep) = Inr ep1" "conn_progress i ep1"
    "if cf \<noteq> 0 \<and> timer = 1 then next_tx_seq ep1 = 5 else ep1 = ep"
    using Cons.prems(1) serve_progress(2) [OF Cons.prems(1)] by (cases "cf \<noteq> 0 \<and> timer = 1") auto
  have up: "fabric_up ep1" using ep1(2) by (simp add: conn_progress_def)
  let ?st = "if cf \<noteq> 0 \<and> timer = 1 then ev_start ev else start"
  have keep: "will_serve evs ?st (check_timer (ev_now ev) ?st) ep'" if "will_serve (ev # evs) start timer ep" "next_tx_seq ep' = next_tx_seq ep1" for ep'
    using that ep1(3) by (auto simp: will_serve_def split: if_splits)
  consider "quiet ev" "arrivals i evs" | h where "delivers ev h" "announces i h" "arrivals (Suc i) evs"
    using Cons.prems(3) by auto
  then show ?case
  proof cases
    case 1
    have "\<not> check_all_channels False (fc ep1)"
      using check_announced [of "fc ep1" i] ep1(2) Cons.prems(2) by (simp add: conn_progress_def)
    moreover have "i = 0 \<longrightarrow> (\<forall>ev \<in> set evs. \<forall>h. delivers ev h \<longrightarrow> announces 0 h \<longrightarrow> uint (h_type h) = TYPE_OPEN_CONNECTION)"
      using Cons.prems(5) by simp
    then obtain ep' where
      "open_conn_slave_loop False evs ?st (check_timer (ev_now ev) ?st) cf ep1 = Inr ep'" "conn_progress 5 ep'"
      "will_serve evs ?st (check_timer (ev_now ev) ?st) ep1 \<longrightarrow> next_tx_seq ep' = 5"
      using Cons.IH [OF ep1(2) Cons.prems(2) 1(2) Cons.prems(4)] by blast
    ultimately show ?thesis using ep1(1) recv_quiet(2) [OF up 1(1)] keep by (simp add: Let_def)
  next
    case 2
    have fl: "cf \<noteq> 0 \<or> uint (h_type h) = TYPE_OPEN_CONNECTION" using Cons.prems(4,5) 2(1,2) by auto
    obtain ep2 cf' where ep2: "recv_conn_slave (ev_rx ev) ep1 cf = Inr (cf', ep2)" "conn_progress (Suc i) ep2" "cf' \<noteq> 0"
      "next_tx_seq ep2 = next_tx_seq ep1"
      using recv_conn_slave_announce [OF ep1(2) 2(1,2) Cons.prems(2) fl] by blast
    show ?thesis
    proof (cases "Suc i = 5")
      case True
      then have "check_all_channels False (fc ep2)"
        using check_announced [of "fc ep2" "Suc i"] ep2(2) by (simp add: conn_progress_def)
      moreover have "cf \<noteq> 0" using Cons.prems(4) True by auto
      then have "will_serve (ev # evs) start timer ep \<longrightarrow> next_tx_seq ep2 = 5"
        using ep1(3) ep2(4) by (auto simp: will_serve_def split: if_splits)
      ultimately show ?thesis using ep1(1) ep2(1,2) True by (simp add: Let_def)
    next
      case False
      then have i: "Suc i < 5" using Cons.prems(2) by simp
      have "\<not> check_all_channels False (fc ep2)"
        using check_announced [of "fc ep2" "Suc i"] ep2(2) i by (simp add: conn_progress_def)
      moreover obtain ep' where
        "open_conn_slave_loop False evs ?st (check_timer (ev_now ev) ?st) cf' ep2 = Inr ep'" "conn_progress 5 ep'"
        "will_serve evs ?st (check_timer (ev_now ev) ?st) ep2 \<longrightarrow> next_tx_seq ep' = 5"
        using Cons.IH [OF ep2(2) i 2(3)] ep2(3) by blast
      ultimately show ?thesis using ep1(1) ep2(1) keep [OF _ ep2(4)] by (simp add: Let_def)
    qed
  qed
qed

section \<open>Properties\<close>

text \<open>
  The master's side of the handshake completes: when the slave's five announcement frames arrive in order, with any
  delays, clock values and repeated transmissions in between, \<open>open_conn_master\<close> returns 1 with 1024 credits on every
  channel, expects frame 5 next and has sent frames 0 to 5.
\<close>

theorem open_conn_master_completes:
  assumes "fabric_up ep" "next_rx_seq ep = 0" "fc_wf (fc ep)" "credits (fc ep) = replicate CHANNEL_NUM 128" "arrivals 0 evs"
  shows "\<exists>ep'. open_conn_master False evs start ep = Inr (1, ep') \<and>
    (\<forall>c \<in> {1..5}. credits (fc ep') ! c = 1024) \<and> next_rx_seq ep' = 5 \<and> next_tx_seq ep' = 6"
proof -
  have "conn_progress 0 ep" using assms by (simp add: conn_progress_def announced_0 fc_wf_def)
  then obtain ep1 where l: "open_conn_master_loop False evs start 1 ep = Inr ep1" "conn_progress 5 ep1" "next_tx_seq ep1 = 5"
    using master_loop_completes [of 0 ep evs 1 start] assms(5) by auto
  have "credits (fc ep1) ! c = 1024" if "c \<in> {1..5}" for c
    using l(2) that by (simp add: conn_progress_def announced_def)
  moreover have "tloe_seqnum_next 5 = 6" by (simp add: tloe_seqnum_next_def)
  ultimately show ?thesis
    using l by (simp add: open_conn_master_def send_frame_up conn_progress_def tloe_seqnum_next_tx_seq_inc_def)
qed

text \<open>Five events that deliver the announcements of the slave.\<close>

definition announce_event :: "int \<Rightarrow> nat \<Rightarrow> conn_event" where
  "announce_event ty i = \<lparr>ev_rx = (56, conn_packet (conn_header ty (of_nat i) 0 (int (Suc i)) 10)),
     ev_start = \<lparr>tv_sec = 1, tv_nsec = 0\<rparr>, ev_now = \<lparr>tv_sec = 9, tv_nsec = 0\<rparr>\<rparr>"

lemma announce_event_delivers:
  assumes "i < 5"
  shows "\<exists>h. delivers (announce_event ty i) h \<and> announces i h"
proof -
  have "delivers (announce_event ty i) (conn_header ty (of_nat i) 0 (int (Suc i)) 10)"
    unfolding delivers_def by (intro exI [of _ "[]"]) (simp add: announce_event_def)
  moreover have "i \<in> {0, 1, 2, 3, 4}" using assms by auto
  then have "announces i (conn_header ty (of_nat i) 0 (int (Suc i)) 10)"
    by (auto simp: announces_def conn_header_def)
  ultimately show ?thesis by blast
qed

lemma announce_events_arrive: "arrivals 0 (map (announce_event ty) [0..<5])"
  using announce_event_delivers [of _ ty] by (simp add: upt_conv_Cons)

definition connecting :: tloe_endpoint_t where
  "connecting = zero_endpoint\<lparr>fc := initial_fc,
     fabric_ops := zero_fabric_ops\<lparr>ops := Some TLOE_FABRIC_MQ, handle := Some (MQ \<lparr>mq_tx = 3, mq_rx = 4\<rparr>)\<rparr>\<rparr>"

lemma connecting_facts:
  "fabric_up connecting" "next_rx_seq connecting = 0" "fc_wf (fc connecting)"
  "credits (fc connecting) = replicate 6 128"
  by (simp_all add: connecting_def zero_endpoint_def fabric_up_def zero_fabric_ops_def)
     (simp add: initial_fc_def)

theorem open_conn_master_completes_witness:
  "\<exists>ep'. open_conn_master False (map (announce_event 0) [0..<5]) \<lparr>tv_sec = 0, tv_nsec = 0\<rparr> connecting = Inr (1, ep') \<and>
    (\<forall>c \<in> {1..5}. credits (fc ep') ! c = 1024) \<and> next_rx_seq ep' = 5 \<and> next_tx_seq ep' = 6"
  by (rule open_conn_master_completes [OF connecting_facts announce_events_arrive])

text \<open>
  The slave's side completes as well: it waits for the open request, and when that and the other four announcements
  arrive in order, \<open>open_conn_slave\<close> returns 1 with 1024 credits on every channel and expects frame 5 next;
  it has announced its own credits in frames 0 to 4 if the clock is past the resend time when the request arrives.
\<close>

theorem open_conn_slave_completes:
  assumes "fabric_up ep" "next_rx_seq ep = 0" "fc_wf (fc ep)" "credits (fc ep) = replicate CHANNEL_NUM 128" "arrivals 0 evs"
    and "\<forall>ev \<in> set evs. \<forall>h. delivers ev h \<longrightarrow> announces 0 h \<longrightarrow> uint (h_type h) = TYPE_OPEN_CONNECTION"
  shows "\<exists>ep'. open_conn_slave False evs start ep = Inr (1, ep') \<and>
    (\<forall>c \<in> {1..5}. credits (fc ep') ! c = 1024) \<and> next_rx_seq ep' = 5 \<and>
    ((\<forall>ev \<in> set evs. check_timer (ev_now ev) start = 1) \<longrightarrow> next_tx_seq ep' = 5)"
proof -
  have "conn_progress 0 ep" using assms by (simp add: conn_progress_def announced_0 fc_wf_def)
  then obtain ep1 where l: "open_conn_slave_loop False evs start 1 0 ep = Inr ep1" "conn_progress 5 ep1"
    "will_serve evs start 1 ep \<longrightarrow> next_tx_seq ep1 = 5"
    using slave_loop_completes [of 0 ep evs 0 start 1] assms(5,6) by auto
  have "credits (fc ep1) ! c = 1024" if "c \<in> {1..5}" for c
    using l(2) that by (simp add: conn_progress_def announced_def)
  then show ?thesis
    using l by (simp add: open_conn_slave_def send_frame_up conn_progress_def will_serve_def)
qed

lemma conn_packet_inject:
  assumes "conn_packet h = conn_packet h' @ rest"
  shows "h = h'"
proof -
  have "take 8 (conn_packet h) = take 8 (conn_packet h' @ rest)" using assms by simp
  then have "be_bytes (tloe_header_to_u64 h) = be_bytes (tloe_header_to_u64 h')" by (simp add: conn_packet_def)
  then have "tloe_header_to_u64 h = tloe_header_to_u64 h'" by (metis be_u64_be_bytes)
  then show ?thesis by (metis u64_to_tloe_header_inverse)
qed

lemma announce_events_open:
  "\<forall>ev \<in> set (map (announce_event 2) is). \<forall>h. delivers ev h \<longrightarrow> announces 0 h \<longrightarrow> uint (h_type h) = TYPE_OPEN_CONNECTION"
proof (intro ballI allI impI)
  fix ev h assume "ev \<in> set (map (announce_event 2) is)" "delivers ev h"
  then obtain i rest where "conn_packet (conn_header 2 (of_nat i) 0 (int (Suc i)) 10) = conn_packet h @ rest"
    by (auto simp: delivers_def announce_event_def)
  then have "h = conn_header 2 (of_nat i) 0 (int (Suc i)) 10" using conn_packet_inject by metis
  then show "uint (h_type h) = TYPE_OPEN_CONNECTION" by (simp add: conn_header_def)
qed

lemma announce_events_late: "\<forall>ev \<in> set (map (announce_event ty) is). check_timer (ev_now ev) \<lparr>tv_sec = 0, tv_nsec = 0\<rparr> = 1"
  by (simp add: announce_event_def check_timer_def trunc_div_def)

theorem open_conn_slave_completes_witness:
  "\<exists>ep'. open_conn_slave False (map (announce_event 2) [0..<5]) \<lparr>tv_sec = 0, tv_nsec = 0\<rparr> connecting = Inr (1, ep') \<and>
    (\<forall>c \<in> {1..5}. credits (fc ep') ! c = 1024) \<and> next_rx_seq ep' = 5 \<and> next_tx_seq ep' = 5"
  using open_conn_slave_completes [OF connecting_facts announce_events_arrive announce_events_open] announce_events_late
  by blast

section \<open>Closing\<close>

lemma recv_close_ok:
  assumes "fabric_up ep" "delivers ev h" "uint (h_type h) = TYPE_CLOSE_CONNECTION"
  shows "recv_close_conn_master (ev_rx ev) ep = Inr (1, ep\<lparr>next_rx_seq := tloe_seqnum_next (ucast (h_seq_num h)),
      acked_seq := ucast (h_seq_num_ack h)\<rparr>)"
    "recv_close_conn_slave (ev_rx ev) ep cf = Inr (1, ep\<lparr>next_rx_seq := tloe_seqnum_next (ucast (h_seq_num h)),
      acked_seq := ucast (h_seq_num_ack h)\<rparr>)"
proof -
  obtain rest where rx: "ev_rx ev = (56, conn_packet h @ rest)" using assms(2) by (auto simp: delivers_def)
  obtain f where f: "packet_to_tloe_frame (conn_packet h @ rest) 56 (zero_frame 65) = Inr f" "f_header f = h"
    using conn_packet_decode by blast
  show "recv_close_conn_master (ev_rx ev) ep = Inr (1, ep\<lparr>next_rx_seq := tloe_seqnum_next (ucast (h_seq_num h)),
      acked_seq := ucast (h_seq_num_ack h)\<rparr>)"
    "recv_close_conn_slave (ev_rx ev) ep cf = Inr (1, ep\<lparr>next_rx_seq := tloe_seqnum_next (ucast (h_seq_num h)),
      acked_seq := ucast (h_seq_num_ack h)\<rparr>)"
    using assms f rx by (simp_all add: recv_close_conn_master_def recv_close_conn_slave_def tloe_fabric_recv_up)
qed

lemma recv_close_quiet:
  assumes "fabric_up ep" "quiet ev"
  shows "recv_close_conn_master (ev_rx ev) ep = Inr (0, ep)" "recv_close_conn_slave (ev_rx ev) ep cf = Inr (cf, ep)"
  using assms by (cases "ev_rx ev"; simp add: recv_close_conn_master_def recv_close_conn_slave_def tloe_fabric_recv_up quiet_def)+

lemma close_slave_waits:
  assumes "fabric_up ep" "\<forall>ev \<in> set qs. quiet ev"
  shows "close_conn_slave (qs @ evs) 0 ep = close_conn_slave evs 0 ep"
  using assms by (induction qs) (simp_all add: recv_close_quiet Let_def)

lemma close_master_waits:
  assumes "\<forall>ev \<in> set qs. quiet ev" "fabric_up ep"
  shows "\<exists>start' timer' k. close_conn_master (qs @ evs) start timer ep =
    close_conn_master evs start' timer' (ep\<lparr>fabric_sent := fabric_sent ep @ replicate k
      (conn_packet (conn_header 3 (next_tx_seq ep) (tloe_seqnum_prev (next_rx_seq ep)) 0 0))\<rparr>) \<and>
    (timer = 1 \<longrightarrow> timer' = 1 \<and> k = 0 \<or> 0 < k)"
  using assms
proof (induction qs arbitrary: ep start timer)
  case Nil
  show ?case by (intro exI [of _ start] exI [of _ timer] exI [of _ 0]) simp
next
  case (Cons ev qs)
  let ?k = "if timer = 1 then 1 else 0 :: nat"
  let ?ps = "replicate ?k (conn_packet (conn_header 3 (next_tx_seq ep) (tloe_seqnum_prev (next_rx_seq ep)) 0 0))"
  let ?ep = "ep\<lparr>fabric_sent := fabric_sent ep @ ?ps\<rparr>"
  let ?st = "if timer = 1 then ev_start ev else start"
  have up: "fabric_up ?ep" using Cons.prems(2) by (simp add: fabric_up_def)
  have "(if timer = 1 then serve_close_conn ep else Inr ep) = Inr ?ep"
    using Cons.prems(2) by (simp add: serve_close_conn_def send_frame_up)
  then have "close_conn_master ((ev # qs) @ evs) start timer ep =
      close_conn_master (qs @ evs) ?st (check_timer (ev_now ev) ?st) ?ep"
    using recv_close_quiet(1) [OF up] Cons.prems(1) by (simp add: Let_def)
  moreover obtain start' timer' k where
    "close_conn_master (qs @ evs) ?st (check_timer (ev_now ev) ?st) ?ep =
      close_conn_master evs start' timer' (?ep\<lparr>fabric_sent := fabric_sent ?ep @ replicate k
        (conn_packet (conn_header 3 (next_tx_seq ep) (tloe_seqnum_prev (next_rx_seq ep)) 0 0))\<rparr>)"
    using Cons.IH [OF _ up, of ?st "check_timer (ev_now ev) ?st"] Cons.prems(1) by auto
  ultimately show ?case
    by (intro exI [of _ start'] exI [of _ timer'] exI [of _ "?k + k"]) (simp add: replicate_add)
qed

text \<open>
  C27: a close request is answered: after any wait, the slave that receives a close frame takes over its sequence
  numbers, sends one close frame of its own and returns 1; the master sends a close request at once (and again after each
  time-out) and returns 1 when a close frame arrives.
\<close>

theorem close_handshake_completes:
  assumes "fabric_up ep" "\<forall>ev \<in> set qs. quiet ev" "delivers ev h" "uint (h_type h) = TYPE_CLOSE_CONNECTION" "quiet ev'"
  shows "(\<exists>es. close_conn_slave (qs @ [ev, ev']) 0 ep = Inr (1, es) \<and>
      next_rx_seq es = tloe_seqnum_next (ucast (h_seq_num h)) \<and> acked_seq es = ucast (h_seq_num_ack h) \<and>
      fabric_sent es = fabric_sent ep @
        [conn_packet (conn_header TYPE_CLOSE_CONNECTION (next_tx_seq ep) (tloe_seqnum_prev (next_rx_seq es)) 0 0)]) \<and>
    (\<exists>em k. close_conn_master (qs @ [ev]) start 1 ep = Inr (1, em) \<and>
      next_rx_seq em = tloe_seqnum_next (ucast (h_seq_num h)) \<and> acked_seq em = ucast (h_seq_num_ack h) \<and> 0 < k \<and>
      fabric_sent em = fabric_sent ep @ replicate k
        (conn_packet (conn_header TYPE_CLOSE_CONNECTION (next_tx_seq ep) (tloe_seqnum_prev (next_rx_seq ep)) 0 0)))"
proof
  let ?e = "ep\<lparr>next_rx_seq := tloe_seqnum_next (ucast (h_seq_num h)), acked_seq := ucast (h_seq_num_ack h)\<rparr>"
  have upe: "fabric_up ?e" using assms(1) by (simp add: fabric_up_def)
  let ?es = "?e\<lparr>fabric_sent := fabric_sent ep @
    [conn_packet (conn_header 3 (next_tx_seq ep) (tloe_seqnum_prev (next_rx_seq ?e)) 0 0)]\<rparr>"
  have ups: "fabric_up ?es" using assms(1) by (simp add: fabric_up_def)
  have "serve_close_conn ?e = Inr ?es" using upe by (simp add: serve_close_conn_def send_frame_up)
  then have "close_conn_slave (qs @ [ev, ev']) 0 ep = Inr (1, ?es)"
    using close_slave_waits [OF assms(1,2)] recv_close_ok(2) [OF assms(1,3,4)] recv_close_quiet(2) [OF ups assms(5)]
    by (simp add: Let_def)
  then show "\<exists>es. close_conn_slave (qs @ [ev, ev']) 0 ep = Inr (1, es) \<and>
      next_rx_seq es = tloe_seqnum_next (ucast (h_seq_num h)) \<and> acked_seq es = ucast (h_seq_num_ack h) \<and>
      fabric_sent es = fabric_sent ep @
        [conn_packet (conn_header TYPE_CLOSE_CONNECTION (next_tx_seq ep) (tloe_seqnum_prev (next_rx_seq es)) 0 0)]"
    by (intro exI [of _ ?es]) simp
  let ?p = "conn_packet (conn_header 3 (next_tx_seq ep) (tloe_seqnum_prev (next_rx_seq ep)) 0 0)"
  obtain st t k where w: "close_conn_master (qs @ [ev]) start 1 ep =
      close_conn_master [ev] st t (ep\<lparr>fabric_sent := fabric_sent ep @ replicate k ?p\<rparr>)" "t = 1 \<and> k = 0 \<or> 0 < k"
    using close_master_waits [OF assms(2,1), of "[ev]" start 1] by auto
  let ?k = "k + (if t = 1 then 1 else 0)"
  let ?em = "ep\<lparr>fabric_sent := fabric_sent ep @ replicate ?k ?p\<rparr>"
  have "(if t = 1 then serve_close_conn (ep\<lparr>fabric_sent := fabric_sent ep @ replicate k ?p\<rparr>)
      else Inr (ep\<lparr>fabric_sent := fabric_sent ep @ replicate k ?p\<rparr>)) = Inr ?em"
    using assms(1) by (simp add: serve_close_conn_def send_frame_eq tloe_fabric_send_def fabric_up_def
        replicate_append_same [symmetric])
  moreover have "fabric_up ?em" using assms(1) by (simp add: fabric_up_def)
  ultimately have "close_conn_master (qs @ [ev]) start 1 ep =
      Inr (1, ?em\<lparr>next_rx_seq := tloe_seqnum_next (ucast (h_seq_num h)), acked_seq := ucast (h_seq_num_ack h)\<rparr>)"
    unfolding w(1) using recv_close_ok(1) [OF _ assms(3,4), of ?em] by (simp add: Let_def)
  moreover have "0 < ?k" using w(2) by auto
  ultimately show "\<exists>em k. close_conn_master (qs @ [ev]) start 1 ep = Inr (1, em) \<and>
      next_rx_seq em = tloe_seqnum_next (ucast (h_seq_num h)) \<and> acked_seq em = ucast (h_seq_num_ack h) \<and> 0 < k \<and>
      fabric_sent em = fabric_sent ep @ replicate k ?p"
    by (intro exI [of _ "?em\<lparr>next_rx_seq := tloe_seqnum_next (ucast (h_seq_num h)),
        acked_seq := ucast (h_seq_num_ack h)\<rparr>"] exI [of _ ?k]) simp
qed

theorem close_handshake_completes_witness:
  "\<exists>es. close_conn_slave [announce_event 3 2, \<lparr>ev_rx = (-1, []), ev_start = \<lparr>tv_sec = 1, tv_nsec = 0\<rparr>,
      ev_now = \<lparr>tv_sec = 1, tv_nsec = 0\<rparr>\<rparr>] 0 connecting = Inr (1, es) \<and> next_rx_seq es = 3"
proof -
  let ?h = "conn_header 3 2 0 3 10"
  let ?q = "\<lparr>ev_rx = (-1, []), ev_start = \<lparr>tv_sec = 1, tv_nsec = 0\<rparr>, ev_now = \<lparr>tv_sec = 1, tv_nsec = 0\<rparr>\<rparr> :: conn_event"
  have "delivers (announce_event 3 2) ?h"
    unfolding delivers_def by (intro exI [of _ "[]"]) (simp add: announce_event_def)
  moreover have "uint (h_type ?h) = 3" "quiet ?q" by (simp_all add: conn_header_def quiet_def)
  moreover have "tloe_seqnum_next (ucast (h_seq_num ?h)) = 3" by (simp add: conn_header_def tloe_seqnum_next_def)
  ultimately show ?thesis
    using close_handshake_completes [OF connecting_facts(1), of "[]" "announce_event 3 2" ?h ?q] by auto
qed

end
