(* ===== verification/Endpoint.thy ===== *)
theory Endpoint
  imports Receiver Tilelink_Handler Connection
begin

text \<open>
  The program \<^verbatim>\<open>tloe_endpoint\<close> (\<^verbatim>\<open>tloe_endpoint.c\<close>): initialisation, the loop of the endpoint thread,
  and the commands of the user interface.
\<close>

section \<open>Initialisation\<close>

definition tloe_endpoint_init :: "tloe_endpoint_t \<Rightarrow> int \<Rightarrow> int \<Rightarrow> tloe_endpoint_t run" where
  "tloe_endpoint_init e fabric_type' master_slave =
     (let e = e\<lparr>is_done := 0, connection := 0, master := master_slave, fabric_type := fabric_type',
                next_tx_seq := 0, next_rx_seq := 0, acked_seq := MAX_SEQ_NUM\<rparr>
      in bind_run (delete_queue (queue_ptr (retransmit_buffer e))) (\<lambda>_.
         bind_run (delete_queue (queue_ptr (message_buffer e))) (\<lambda>_.
         bind_run (delete_queue (queue_ptr (ack_buffer e))) (\<lambda>_.
         bind_run (delete_queue (queue_ptr (tl_msg_buffer e))) (\<lambda>_.
         bind_run (delete_queue (queue_ptr (response_buffer e))) (\<lambda>_.
         let e = e\<lparr>retransmit_buffer := create_queue (WINDOW_SIZE + 1),
                   message_buffer := create_queue 10000, ack_buffer := create_queue 2048,
                   tl_msg_buffer := create_queue 10000, response_buffer := create_queue 100,
                   should_send_ackonly_frame := False, ackonly_frame_sent := False\<rparr>
         in bind_run (init_flowcontrol (fc e)) (\<lambda>fc'.
         Inr (e\<lparr>fc := fc', ack_cnt := 0, dup_cnt := 0, oos_cnt := 0, drop_cnt := 0,
                accessack_cnt := 0, accessackdata_cnt := 0, ackonly_cnt := 0, drop_tlmsg_cnt := 0,
                drop_response_cnt := 0, drop_npacket_size := 0, drop_npacket_cnt := 0\<rparr>))))))))"

text \<open>
  \<open>tloe_endpoint_close\<close> runs after the thread has been joined. It returns the memory and endpoint;
  the queues are gone.
\<close>

definition tloe_endpoint_close ::
  "mem_storage \<Rightarrow> tloe_endpoint_t \<Rightarrow> (mem_storage \<times> tloe_endpoint_t) run" where
  "tloe_endpoint_close mem e =
     (let e = tloe_fabric_close e;
          mem = tl_handler_close mem
      in bind_run (delete_queue (queue_ptr (message_buffer e))) (\<lambda>_.
         bind_run (delete_queue (queue_ptr (retransmit_buffer e))) (\<lambda>_.
         bind_run (delete_queue (queue_ptr (ack_buffer e))) (\<lambda>_.
         bind_run (delete_queue (queue_ptr (tl_msg_buffer e))) (\<lambda>_.
         bind_run (delete_queue (queue_ptr (response_buffer e))) (\<lambda>_.
         Inr (mem, e)))))))"

section \<open>The endpoint thread\<close>

text \<open>
  \<^verbatim>\<open>buffer_select_counter\<close> is a static variable: it is passed in and out.
\<close>

definition select_buffer :: "int \<Rightarrow> tloe_endpoint_t \<Rightarrow> tl_msg_t option \<times> int \<times> tloe_endpoint_t" where
  "select_buffer buffer_select_counter e =
     (let c = buffer_select_counter - 1;
          (tlmsg, e) = (if c > 0
             then (let (m, q) = dequeue (response_buffer e) in (m, e\<lparr>response_buffer := q\<rparr>))
             else (None, e))
      in if c > 0 \<and> tlmsg \<noteq> None then (tlmsg, c, e)
         else let (m, q) = dequeue (message_buffer e) in (m, 4, e\<lparr>message_buffer := q\<rparr>))"

text \<open>
  What one pass of the loop takes from outside: the clock, the memory \<open>TX\<close> and \<open>RX\<close> get, and what the
  fabric delivers.
\<close>

record iter_env =
  it_now :: timespec
  it_tx :: tx_env
  it_alloc :: bool
  it_rx :: recv_result

text \<open>
  The thread: where it is in its two nested loops, the state it shares with the main thread, the
  memory behind the handler, and its local variable \<^verbatim>\<open>request_tlmsg\<close>.
\<close>

datatype ep_pc = Test_Done | Test_Connection | Body | Exited

record endpoint_thread =
  pc :: ep_pc
  ep :: tloe_endpoint_t
  mem :: mem_storage
  sel_counter :: int
  request_tlmsg :: "tl_msg_t option"

definition tloe_endpoint_body :: "iter_env \<Rightarrow> endpoint_thread \<Rightarrow> endpoint_thread run" where
  "tloe_endpoint_body env t =
     (let (request, counter, e) = (if request_tlmsg t = None then select_buffer (sel_counter t) (ep t)
                                   else (request_tlmsg t, sel_counter t, ep t));
          e = e\<lparr>iteration_ts := it_now env\<rparr>
      in bind_run (TX (it_tx env) e request) (\<lambda>(not_transmitted_tlmsg, e).
         let request = (case not_transmitted_tlmsg of Some m \<Rightarrow> Some m | None \<Rightarrow> None) in
         bind_run (RX (it_alloc env) (it_rx env) e) (\<lambda>e.
         bind_run (tl_handler (mem t) e) (\<lambda>(ret, out, mem', e).
         let t = t\<lparr>pc := Test_Done, ep := e, mem := mem', sel_counter := counter,
                   request_tlmsg := request\<rparr> in
         if ret = 0 then Inr t
         else case out of
                None \<Rightarrow> Inl Undefined
              | Some (chan, credit) \<Rightarrow>
                  bind_run (add_channel_flow_credits (fc e) (nat chan) credit) (\<lambda>fc'.
                  Inr (t\<lparr>ep := e\<lparr>fc := fc'\<rparr>\<rparr>))))))"

definition tloe_endpoint_step :: "iter_env \<Rightarrow> endpoint_thread \<Rightarrow> endpoint_thread run" where
  "tloe_endpoint_step env t =
     (case pc t of
        Test_Done \<Rightarrow> Inr (t\<lparr>pc := (if is_done (ep t) \<noteq> 0 then Exited else Test_Connection)\<rparr>)
      | Test_Connection \<Rightarrow> Inr (if connection (ep t) = 0 then t else t\<lparr>pc := Body\<rparr>)
      | Body \<Rightarrow> tloe_endpoint_body env t
      | Exited \<Rightarrow> Inr t)"

section \<open>User commands\<close>

text \<open>
  The three functions that queue a request wait until \<^verbatim>\<open>message_buffer\<close> has room. The model describes
  the state in which the wait ends; while the buffer is full it has not ended.
\<close>

definition enqueue_message :: "tloe_endpoint_t \<Rightarrow> tl_msg_t \<Rightarrow> (int \<times> tloe_endpoint_t) run" where
  "enqueue_message e new_tlmsg =
     (if is_queue_full (message_buffer e) then Inl Diverge
      else case enqueue (message_buffer e) new_tlmsg of
             (True, q) \<Rightarrow> Inr (1, e\<lparr>message_buffer := q\<rparr>)
           | (False, _) \<Rightarrow> Inr (0, e))"

definition create_and_enqueue_message :: "bool \<Rightarrow> tloe_endpoint_t \<Rightarrow> (int \<times> tloe_endpoint_t) run" where
  "create_and_enqueue_message alloc e =
     (if \<not> alloc then Inr (0, e)
      else enqueue_message e (mk_msg (zero_tl_header\<lparr>tl_chan := word_of_int CHANNEL_A,
             tl_opcode := word_of_int A_GET_OPCODE\<rparr>) []))"

definition read_memory :: "tloe_endpoint_t \<Rightarrow> u64 \<Rightarrow> (int \<times> tloe_endpoint_t) run" where
  "read_memory e addr =
     enqueue_message e (mk_msg (zero_tl_header\<lparr>tl_chan := word_of_int CHANNEL_A,
       tl_opcode := word_of_int A_GET_OPCODE, tl_size := 3\<rparr>) (le_bytes addr))"

definition write_memory :: "tloe_endpoint_t \<Rightarrow> u64 \<Rightarrow> u64 \<Rightarrow> (int \<times> tloe_endpoint_t) run" where
  "write_memory e addr val =
     enqueue_message e (mk_msg (zero_tl_header\<lparr>tl_chan := word_of_int CHANNEL_A,
       tl_opcode := word_of_int A_PUTFULLDATA_OPCODE, tl_size := 3\<rparr>) (le_bytes addr @ le_bytes val))"

text \<open>The loop of command \<^verbatim>\<open>a\<close>, which stops at the first message that cannot be queued.\<close>

fun send_messages :: "bool list \<Rightarrow> nat \<Rightarrow> tloe_endpoint_t \<Rightarrow> tloe_endpoint_t run" where
  "send_messages allocs 0 e = Inr e"
| "send_messages [] (Suc n) e = Inl Diverge"
| "send_messages (alloc # allocs) (Suc n) e =
     bind_run (create_and_enqueue_message alloc e) (\<lambda>(r, e).
     if r = 0 then Inr e else send_messages allocs n e)"

text \<open>
  What a command takes from outside: the outcome of the allocations, the events of an open or close
  loop, the contents of the uninitialised timer and the build switch.
\<close>

record user_env =
  u_allocs :: "bool list"
  u_events :: "conn_event list"
  u_start :: timespec
  u_wde :: bool
  u_mem_alloc :: bool

abbreviation (input) TYPE_MASTER :: int where "TYPE_MASTER \<equiv> 1"
abbreviation (input) TYPE_SLAVE :: int where "TYPE_SLAVE \<equiv> 0"

definition user_open :: "user_env \<Rightarrow> tloe_endpoint_t \<Rightarrow> tloe_endpoint_t run" where
  "user_open env e =
     bind_run (if master e = TYPE_MASTER then open_conn_master (u_wde env) (u_events env) (u_start env) e
               else if master e = TYPE_SLAVE then open_conn_slave (u_wde env) (u_events env) (u_start env) e
               else Inr (0, e)) (\<lambda>(conn, e).
     Inr (if conn \<noteq> 0 then e\<lparr>connection := 1\<rparr> else e))"

definition user_close ::
  "user_env \<Rightarrow> int \<Rightarrow> int \<Rightarrow> mem_storage \<times> tloe_endpoint_t \<Rightarrow> (mem_storage \<times> tloe_endpoint_t) run" where
  "user_close env fabric_type' master' = (\<lambda>(mem, e).
     let e = e\<lparr>connection := 0\<rparr> in
     bind_run (if master e = TYPE_MASTER then close_conn_master (u_events env) (u_start env) 1 e
               else if master e = TYPE_SLAVE then close_conn_slave (u_events env) 0 e
               else Inr (0, e)) (\<lambda>(conn, e).
     if conn \<noteq> 0
     then bind_run (tloe_endpoint_init e fabric_type' master')
            (\<lambda>e. Inr (snd (tl_handler_init (u_mem_alloc env) mem), e))
     else Inr (mem, e)))"

text \<open>
  \<open>args2\<close> and \<open>args3\<close> are C \<^verbatim>\<open>int\<close>s; converting a negative one to \<^verbatim>\<open>uint64_t\<close> extends the sign. The address
  of command \<^verbatim>\<open>t\<close> is computed in \<^verbatim>\<open>int\<close>.
\<close>

definition handle_user_input ::
  "user_env \<Rightarrow> char \<Rightarrow> u64 \<Rightarrow> int \<Rightarrow> int \<Rightarrow> int \<Rightarrow> int \<Rightarrow> mem_storage \<times> tloe_endpoint_t \<Rightarrow>
   (int \<times> mem_storage \<times> tloe_endpoint_t) run" where
  "handle_user_input env input args1 args2 args3 fabric_type' master' = (\<lambda>(mem, e).
     if input = CHR ''s'' then Inr (0, mem, e)
     else if input = CHR ''a'' then
       (if is_conn e = 0 then Inr (0, mem, e)
        else bind_run (send_messages (u_allocs env) (unat args1) e) (\<lambda>e. Inr (0, mem, e)))
     else if input = CHR ''c'' then bind_run (user_open env e) (\<lambda>e. Inr (0, mem, e))
     else if input = CHR ''d'' then
       bind_run (user_close env fabric_type' master' (mem, e)) (\<lambda>(mem, e). Inr (0, mem, e))
     else if input = CHR ''r'' then
       (if is_conn e = 0 then Inr (0, mem, e)
        else if args1 = 0 then Inr (0, mem, e)
        else let n = (if args2 = 0 then 1 else args2) in
          bind_run (fold_run (\<lambda>_ e. bind_run (read_memory e args1) (\<lambda>(_, e). Inr e)) [0..<nat n] e)
            (\<lambda>e. Inr (0, mem, e)))
     else if input = CHR ''w'' then
       (if is_conn e = 0 then Inr (0, mem, e)
        else if args1 = 0 then Inr (0, mem, e)
        else if args2 = 0 then Inr (0, mem, e)
        else let n = (if args3 = 0 then 1 else args3) in
          bind_run (fold_run (\<lambda>_ e. bind_run (write_memory e args1 (word_of_int args2)) (\<lambda>(_, e). Inr e))
            [0..<nat n] e) (\<lambda>e. Inr (0, mem, e)))
     else if input = CHR ''t'' then
       (if is_conn e = 0 then Inr (0, mem, e)
        else
          bind_run (fold_run (\<lambda>i e.
              let addr = scast (of_nat (4096 + 4096 * i) :: u32) :: u64;
                  val = scast (of_nat (4096 + i) :: u32) :: u64
              in bind_run (write_memory e addr val) (\<lambda>(_, e).
                 bind_run (read_memory e addr) (\<lambda>(_, e). Inr e)))
            [0..<unat args1] e) (\<lambda>e. Inr (0, mem, e)))
     else if input = CHR ''q'' then Inr (1, mem, e\<lparr>is_done := 1\<rparr>)
     else Inr (0, mem, e))"

section \<open>Command line and start-up\<close>

text \<open>
  \<open>parse_arguments\<close> walks over what \<^verbatim>\<open>getopt\<close> returns for the option string \<^verbatim>\<open>i:d:p:ms\<close>: a list of option
  characters with their arguments. The two buffers hold 64 bytes, so \<^verbatim>\<open>strncpy\<close> keeps 63.
\<close>

record parsed =
  p_fabric :: int
  p_master :: int
  optarg_a :: string
  optarg_b :: string

definition parse_option :: "char \<times> string \<Rightarrow> parsed \<Rightarrow> parsed option" where
  "parse_option = (\<lambda>(opt, optarg) p.
     let conflict = (\<lambda>expected. p_fabric p \<noteq> -1 \<and> p_fabric p \<noteq> expected) in
     if opt = CHR ''i'' then
       (if conflict 0 then None else Some (p\<lparr>p_fabric := 0, optarg_a := take 63 optarg\<rparr>))
     else if opt = CHR ''d'' then
       (if conflict 0 then None else Some (p\<lparr>p_fabric := 0, optarg_b := take 63 optarg\<rparr>))
     else if opt = CHR ''p'' then
       (if conflict 1 then None else Some (p\<lparr>p_fabric := 1, optarg_a := take 63 optarg\<rparr>))
     else if opt = CHR ''m'' then Some (p\<lparr>p_master := 1\<rparr>)
     else if opt = CHR ''s'' then Some (p\<lparr>p_master := 0\<rparr>)
     else None)"

fun parse_options :: "(char \<times> string) list \<Rightarrow> parsed \<Rightarrow> parsed option" where
  "parse_options [] p = Some p"
| "parse_options (o1 # os) p = (case parse_option o1 p of None \<Rightarrow> None | Some p' \<Rightarrow> parse_options os p')"

definition parse_arguments :: "(char \<times> string) list \<Rightarrow> parsed option" where
  "parse_arguments os =
     (case parse_options os \<lparr>p_fabric = -1, p_master = -1, optarg_a = [], optarg_b = []\<rparr> of
        None \<Rightarrow> None
      | Some p \<Rightarrow>
          if p_fabric p = -1 then None
          else if p_fabric p = 0 \<and> (optarg_a p = [] \<or> optarg_b p = []) then None
          else if p_master p = -1 then None
          else if p_fabric p = 1
               then Some (p\<lparr>optarg_b := (if p_master p \<noteq> 0 then ''-master'' else ''-slave'')\<rparr>)
               else Some p)"

text \<open>What \<^verbatim>\<open>main\<close> does before it creates the thread.\<close>

definition main_setup ::
  "'w backend_open \<Rightarrow> bool \<Rightarrow> (char \<times> string) list \<Rightarrow> 'w \<Rightarrow> (mem_storage \<times> 'w \<times> tloe_endpoint_t) run" where
  "main_setup backend_open mem_alloc os w =
     (case parse_arguments os of
        None \<Rightarrow> Inl Exit_Failure
      | Some p \<Rightarrow>
          let mem = snd (tl_handler_init mem_alloc None) in
          bind_run (tloe_endpoint_init zero_endpoint (p_fabric p) (p_master p)) (\<lambda>e.
          let e = snd (tloe_fabric_init e (p_fabric p)) in
          bind_run (tloe_fabric_open backend_open w e (optarg_a p) (optarg_b p) 0) (\<lambda>(_, w, e).
          Inr (mem, w, e))))"

section \<open>Start-up\<close>

lemma delete_null [simp]: "delete_queue (queue_ptr null_queue) = Inr []"
  by (simp add: queue_ptr_def null_queue_def delete_queue_def)

lemma init_zero_endpoint:
  "tloe_endpoint_init zero_endpoint ft ms = Inr ((fresh_endpoint zero_fabric_ops)\<lparr>master := ms, fabric_type := ft\<rparr>)"
proof -
  have "init_flowcontrol zero_flowcontrol = Inr initial_fc"
    using init_flowcontrol_eq [of zero_flowcontrol] by (simp add: initial_fc_def)
  then show ?thesis
    by (simp add: tloe_endpoint_init_def Let_def zero_endpoint_def fresh_endpoint_def)
qed

section \<open>Requests of the user\<close>

definition read_msg :: "u64 \<Rightarrow> tl_msg_t" where
  "read_msg addr = get_msg 0 3 addr"

definition write_msg :: "u64 \<Rightarrow> u64 \<Rightarrow> tl_msg_t" where
  "write_msg addr val = put_msg 0 3 addr (le_bytes val)"

lemma user_msgs:
  "tlmsg_get_total_size (read_msg addr) = 16" "tlmsg_get_total_size (write_msg addr val) = 24"
  "req_ok (Some (read_msg addr))" "req_ok (Some (write_msg addr val))"
  by (simp_all add: read_msg_def write_msg_def get_msg_def put_msg_def req_ok_def msg_ok_def tloe_get_fsize_def
      tlmsg_get_total_size_def tlmsg_get_header_size_def tlmsg_get_data_size_def tlmsg_get_chan_def
      tlmsg_get_opcode_def tlmsg_get_size_def header_log_def data_log_def int_of_shl_log zero_tl_header_def)

lemma enqueue_message_room:
  "\<not> is_queue_full (message_buffer e) \<Longrightarrow>
   enqueue_message e m = Inr (1, e\<lparr>message_buffer := snd (enqueue (message_buffer e) m)\<rparr>)"
  by (simp add: enqueue_message_def enqueue_def)

lemma read_write_memory_eq:
  "read_memory e addr = enqueue_message e (read_msg addr)"
  "write_memory e addr val = enqueue_message e (write_msg addr val)"
  by (simp_all add: read_memory_def write_memory_def read_msg_def write_msg_def get_msg_def put_msg_def
      zero_tl_header_def)

section \<open>The selection of a buffer\<close>

lemma select_buffer_counter:
  assumes "select_buffer c e = (m, c', e')" "1 \<le> c" "c \<le> 4"
  shows "1 \<le> c'" "c' \<le> 4"
    "(m = fst (dequeue (message_buffer e)) \<and> c' = 4 \<and> message_buffer e' = snd (dequeue (message_buffer e))) \<or>
     (m = fst (dequeue (response_buffer e)) \<and> m \<noteq> None \<and> c' = c - 1 \<and> 1 \<le> c' \<and>
      response_buffer e' = snd (dequeue (response_buffer e)) \<and> message_buffer e' = message_buffer e)"
  using assms by (auto simp: select_buffer_def Let_def split: prod.splits if_splits)

text \<open>Calls of \<open>select_buffer\<close> in a row, each in a state that may have changed arbitrarily in between.\<close>

fun select_run :: "int \<Rightarrow> tloe_endpoint_t list \<Rightarrow> (tl_msg_t option \<times> tloe_endpoint_t) list" where
  "select_run c [] = []"
| "select_run c (e # es) = (let (m, c', e') = select_buffer c e in (m, e') # select_run c' es)"

definition takes_message :: "tloe_endpoint_t \<Rightarrow> tl_msg_t option \<times> tloe_endpoint_t \<Rightarrow> bool" where
  "takes_message e r \<longleftrightarrow> fst r = fst (dequeue (message_buffer e)) \<and>
     message_buffer (snd r) = snd (dequeue (message_buffer e))"

lemma select_run_takes:
  assumes "1 \<le> c" "c \<le> int (length es)" "c \<le> 4"
  shows "\<exists>i < length es. takes_message (es ! i) (select_run c es ! i)"
  using assms
proof (induction es arbitrary: c)
  case Nil
  then show ?case by simp
next
  case (Cons e es)
  obtain m c' e' where s: "select_buffer c e = (m, c', e')" by (cases "select_buffer c e")
  show ?case
  proof (cases "takes_message e (m, e')")
    case True
    then show ?thesis using s by (intro exI [of _ 0]) simp
  next
    case False
    then have "c' = c - 1" "1 \<le> c'"
      using select_buffer_counter(3) [OF s Cons.prems(1,3)] by (auto simp: takes_message_def)
    with Cons.IH [of c'] Cons.prems obtain i where "i < length es" "takes_message (es ! i) (select_run c' es ! i)"
      by auto
    then show ?thesis using s by (intro exI [of _ "Suc i"]) simp
  qed
qed

section \<open>Properties\<close>

text \<open>What \<open>parse_arguments\<close> accepts names one of the two fabrics.\<close>

lemma parse_options_fabric:
  "parse_options os p = Some p' \<Longrightarrow> p_fabric p \<in> {-1, 0, 1} \<Longrightarrow> p_fabric p' \<in> {-1, 0, 1}"
  by (induction os arbitrary: p) (fastforce simp: parse_option_def Let_def split: option.splits if_splits)+

lemma parse_arguments_fabric: "parse_arguments os = Some p \<Longrightarrow> p_fabric p = 0 \<or> p_fabric p = 1"
  using parse_options_fabric [of os "\<lparr>p_fabric = -1, p_master = -1, optarg_a = [], optarg_b = []\<rparr>"]
  by (auto simp: parse_arguments_def split: option.splits if_splits)

lemma parse_options_master:
  "parse_options os p = Some p' \<Longrightarrow> p_master p \<in> {-1, 0, 1} \<Longrightarrow> p_master p' \<in> {-1, 0, 1}"
  by (induction os arbitrary: p) (fastforce simp: parse_option_def Let_def split: option.splits if_splits)+

lemma parse_arguments_master: "parse_arguments os = Some p \<Longrightarrow> p_master p = 0 \<or> p_master p = 1"
  using parse_options_master [of os "\<lparr>p_fabric = -1, p_master = -1, optarg_a = [], optarg_b = []\<rparr>"]
  by (auto simp: parse_arguments_def split: option.splits if_splits)

definition fabric_of :: "parsed \<Rightarrow> tloe_fabric_type_t" where
  "fabric_of p = (if p_fabric p = 0 then TLOE_FABRIC_ETHER else TLOE_FABRIC_MQ)"

lemma main_setup_ok:
  assumes "parse_arguments os = Some p" "backend_open (fabric_of p) (optarg_a p) (optarg_b p) 0 w = Inr (Some hn, w')"
  shows "\<exists>e. main_setup backend_open True os w = Inr (Some (\<lambda>_. 0), w', e) \<and> ep_inv e \<and> connection e = 0 \<and>
    is_done e = 0 \<and> master e = p_master p \<and> fabric_type e = p_fabric p \<and> credits (fc e) = replicate CHANNEL_NUM 128 \<and>
    queue_list (message_buffer e) = [] \<and> queue_list (response_buffer e) = [] \<and>
    queue_list (retransmit_buffer e) = [] \<and> queue_list (tl_msg_buffer e) = [] \<and> handle (fabric_ops e) = Some hn"
proof -
  define h where "h = \<lparr>ops = Some (fabric_of p), handle = Some hn, dev_name = optarg_a p, dev_opt = optarg_b p\<rparr>"
  define e where "e = (fresh_endpoint h)\<lparr>master := p_master p, fabric_type := p_fabric p\<rparr>"
  have "main_setup backend_open True os w = Inr (Some (\<lambda>_. 0), w', e)"
    using assms parse_arguments_fabric [OF assms(1)]
    by (auto simp: main_setup_def tl_handler_init_def init_zero_endpoint tloe_fabric_init_def ether_ops_def mq_ops_def
        tloe_fabric_open_def Let_def zero_fabric_ops_def fresh_endpoint_def e_def h_def fabric_of_def)
  moreover have "ep_inv (fresh_endpoint h)" by (intro ep_inv_fresh) (simp_all add: h_def)
  then have "ep_inv e" by (simp add: e_def ep_inv_def tx_window_def fabric_up_def)
  ultimately show ?thesis
    by (simp add: e_def h_def fresh_endpoint_def zero_endpoint_def initial_fc_def)
qed

text \<open>
  After parsing valid arguments and opening the fabric, start-up leaves the endpoint in a state that satisfies the
  invariant of the protocol, unconnected, with empty buffers, 128 credits on every channel, the role, the
  fabric and the handle the command line asks for, and zeroed memory.
\<close>

theorem main_setup_ready:
  assumes "parse_arguments os = Some p" "backend_open (fabric_of p) (optarg_a p) (optarg_b p) 0 w = Inr (Some hn, w')"
  shows "\<exists>e. main_setup backend_open True os w = Inr (Some (\<lambda>_. 0), w', e) \<and> ep_inv e \<and> connection e = 0 \<and>
    is_done e = 0 \<and> master e = p_master p \<and> fabric_type e = p_fabric p \<and> credits (fc e) = replicate CHANNEL_NUM 128 \<and>
    queue_list (message_buffer e) = [] \<and> queue_list (response_buffer e) = [] \<and>
    queue_list (retransmit_buffer e) = [] \<and> queue_list (tl_msg_buffer e) = [] \<and> handle (fabric_ops e) = Some hn"
  using assms by (rule main_setup_ok)

theorem main_setup_ready_witness:
  "\<exists>e. main_setup (\<lambda>t n k q w. Inr (Some (MQ \<lparr>mq_tx = 3, mq_rx = 4\<rparr>), w)) True [(CHR ''p'', ''port''), (CHR ''m'', [])] () =
      Inr (Some (\<lambda>_. 0), (), e) \<and> ep_inv e \<and> master e = 1 \<and> fabric_type e = 1"
proof -
  let ?os = "[(CHR ''p'', ''port''), (CHR ''m'', [])]"
  have "parse_arguments ?os = Some \<lparr>p_fabric = 1, p_master = 1, optarg_a = ''port'', optarg_b = ''-master''\<rparr>"
    by (simp add: parse_arguments_def parse_option_def Let_def)
  from main_setup_ready [OF this, of "\<lambda>t n k q w. Inr (Some (MQ \<lparr>mq_tx = 3, mq_rx = 4\<rparr>), w)" "()"] show ?thesis by auto
qed

text \<open>
  C32: the user's requests cannot starve behind responses: among any four consecutive calls of \<open>select_buffer\<close>,
  whatever happens to the buffers in between, at least one takes the head of the message buffer.
\<close>

theorem select_buffer_no_starvation:
  assumes "1 \<le> c" "c \<le> 4"
  shows "\<exists>i < 4. takes_message ([e1, e2, e3, e4] ! i) (select_run c [e1, e2, e3, e4] ! i)"
  using select_run_takes [of c "[e1, e2, e3, e4]"] assms by (simp add: numeral_eq_Suc)

theorem select_buffer_no_starvation_witness:
  "\<exists>i < 4. takes_message ([zero_endpoint, zero_endpoint, serving [sample_get 1, sample_get 2], zero_endpoint] ! i)
     (select_run 4 [zero_endpoint, zero_endpoint, serving [sample_get 1, sample_get 2], zero_endpoint] ! i)"
  using select_buffer_no_starvation [of 4] by simp

text \<open>
  The \<^verbatim>\<open>r\<close> and \<^verbatim>\<open>w\<close> commands queue well-formed TileLink requests: \<open>read_memory\<close> a read of eight bytes and
  \<open>write_memory\<close> a write of the given eight bytes at the given address, both within what \<open>TX\<close> can send and small enough to leave room
  for the mask.
\<close>

lemma user_requests_well_formed:
  assumes "q_inv (message_buffer e)" "\<not> is_queue_full (message_buffer e)"
  shows "\<exists>er ew. read_memory e addr = Inr (1, er) \<and> write_memory e addr val = Inr (1, ew) \<and>
    queue_list (message_buffer er) = queue_list (message_buffer e) @ [get_msg 0 3 addr] \<and>
    queue_list (message_buffer ew) = queue_list (message_buffer e) @ [put_msg 0 3 addr (le_bytes val)] \<and>
    req_ok (Some (get_msg 0 3 addr)) \<and> req_ok (Some (put_msg 0 3 addr (le_bytes val))) \<and>
    tlmsg_get_total_size (get_msg 0 3 addr) \<le> 40 \<and> tlmsg_get_total_size (put_msg 0 3 addr (le_bytes val)) \<le> 40"
  using user_msgs(1,3) [of addr] user_msgs(2,4) [of addr val] enqueue_message_room [OF assms(2)] cq.enq_contents [OF assms]
  by (simp add: read_write_memory_eq) (simp add: read_msg_def write_msg_def)

text \<open>A thread that waits for a connection does nothing else.\<close>

lemma waiting_step:
  assumes "pc t = Test_Connection" "connection (ep t) = 0"
  shows "fold_run tloe_endpoint_step envs t = Inr t"
  using assms by (induction envs) (simp_all add: tloe_endpoint_step_def)

definition waiting_thread :: endpoint_thread where
  "waiting_thread = \<lparr>pc = Test_Connection, ep = fresh_endpoint mq_fabric, mem = Some (\<lambda>_. 0), sel_counter = 4,
     request_tlmsg = None\<rparr>"

section \<open>One pass of the endpoint loop\<close>

text \<open>
  Messages the endpoint can serve and answer: servable, and a read of at most 512 bytes, so that the
  response fits into a frame object.
\<close>

definition polite :: "tl_msg_t \<Rightarrow> bool" where
  "polite m \<longleftrightarrow> servable m \<and> (is_get m \<longrightarrow> unat (tl_size (tl_header m)) \<le> 9)"

definition ep_msgs_ok :: "tloe_endpoint_t \<Rightarrow> bool" where
  "ep_msgs_ok e \<longleftrightarrow> ep_inv e \<and> (\<forall>m \<in> set (queue_list (message_buffer e)). req_ok (Some m)) \<and>
     (\<forall>m \<in> set (queue_list (response_buffer e)). req_ok (Some m)) \<and>
     (\<forall>m \<in> set (queue_list (tl_msg_buffer e)). polite m)"

definition thread_inv :: "endpoint_thread \<Rightarrow> bool" where
  "thread_inv t \<longleftrightarrow> ep_msgs_ok (ep t) \<and> mem t \<noteq> None \<and> 1 \<le> sel_counter t \<and> sel_counter t \<le> 4 \<and>
     req_ok (request_tlmsg t)"

text \<open>What may arrive: nothing, an acknowledgement, or a decodable frame whose messages the endpoint can serve and store.\<close>

definition rx_fine :: "recv_result \<Rightarrow> bool" where
  "rx_fine rx \<longleftrightarrow> fst rx < 0 \<or> (\<exists>f msk. packet_to_tloe_frame (snd rx) (fst rx) (zero_frame MAX_SIZE_FLIT) = Inr f \<and>
     (is_ackonly_frame f \<or> frame_ok f (fst rx) \<and> tloe_get_mask f (fst rx) = Inr msk \<and>
       (\<forall>i \<in> set (mask_bits msk). \<exists>m. tloe_get_tlmsg f i = Inr m \<and> polite m)))"

text \<open>
  The part of an endpoint that only \<open>TX\<close> and \<open>RX\<close> change. Serving a message, choosing a request, adding a
  user's request, returning credit and reading the clock keep it.
\<close>

definition protocol_part :: "tloe_endpoint_t \<Rightarrow> _" where
  "protocol_part e = (retransmit_buffer e, ack_buffer e, next_tx_seq e, next_rx_seq e, fabric_sent e)"

text \<open>
  The work between \<open>TX\<close> and \<open>RX\<close>: it serves the messages \<open>ms\<close> from the TileLink buffer and owes their flits to the peer, and it changes nothing
  else that the protocol or the flow control depends on.
\<close>

definition flits_on :: "nat \<Rightarrow> tl_msg_t list \<Rightarrow> nat" where
  "flits_on k ms = sum_list (map (\<lambda>m. if nat (tlmsg_get_chan m) = k then nat (tlmsg_get_flits_cnt m) else 0) ms)"

definition local_work :: "tl_msg_t list \<Rightarrow> tloe_endpoint_t \<Rightarrow> tloe_endpoint_t \<Rightarrow> bool" where
  "local_work ms e e' \<longleftrightarrow> protocol_part e' = protocol_part e \<and> ep_inv e' \<and> credits (fc e') = credits (fc e) \<and>
     queue_list (tl_msg_buffer e) = ms @ queue_list (tl_msg_buffer e') \<and> q_cap (tl_msg_buffer e') = q_cap (tl_msg_buffer e) \<and>
     (\<forall>k < CHANNEL_NUM. tx_flow_credits (fc e') ! k = tx_flow_credits (fc e) ! k + of_nat (flits_on k ms))"

lemma local_work_idle:
  assumes "protocol_part e' = protocol_part e" "ep_inv e'" "fc e' = fc e" "tl_msg_buffer e' = tl_msg_buffer e"
  shows "local_work [] e e'"
  using assms by (simp add: local_work_def flits_on_def)

lemma response_ok:
  "req_ok (Some (ack_msg src))"
  "unat sz \<le> 9 \<Longrightarrow> length bs = 2 ^ unat sz \<Longrightarrow> req_ok (Some (ackdata_msg src sz bs))"
proof -
  show "req_ok (Some (ack_msg src))"
    by (simp add: ack_msg_def req_ok_def msg_ok_def tloe_get_fsize_def tlmsg_get_total_size_def
        tlmsg_get_header_size_def tlmsg_get_data_size_def tlmsg_get_chan_def tlmsg_get_opcode_def header_log_def
        data_log_def int_of_shl_log zero_tl_header_def)
  assume sz: "unat sz \<le> 9" and len: "length bs = 2 ^ unat sz"
  have "int (unat sz) \<le> 9" using sz by linarith
  then have "uint sz \<le> 9" by simp
  then have "int_of_u64 (shl_1ULL (uint sz)) = 2 ^ unat sz"
    using int_of_shl_log [of "uint sz"] by simp
  moreover have "(2::int) ^ unat sz \<le> 2 ^ 9" using sz by (intro power_increasing) auto
  ultimately show "req_ok (Some (ackdata_msg src sz bs))"
    using len by (simp add: ackdata_msg_def req_ok_def msg_ok_def tloe_get_fsize_def tlmsg_get_total_size_def
        tlmsg_get_header_size_def tlmsg_get_data_size_def tlmsg_get_chan_def tlmsg_get_opcode_def tlmsg_get_size_def
        header_log_def data_log_def int_of_shl_log zero_tl_header_def)
qed

lemma serve_response_ok:
  assumes "polite m" "r \<in> set (snd (tl_serve m mm))"
  shows "req_ok (Some r)"
  using assms response_ok by (auto simp: tl_serve_def polite_def split: if_splits)

lemma tail_subset: "x \<in> set (tl xs) \<Longrightarrow> x \<in> set xs"
  by (cases xs) auto

text \<open>
  The request a pass works on is the one in hand, or else the head of one of the two buffers, and nothing leaves the
  buffers otherwise.
\<close>

definition opt_list :: "'a option \<Rightarrow> 'a list" where
  "opt_list x = (case x of None \<Rightarrow> [] | Some y \<Rightarrow> [y])"

lemma opt_list_simps [simp]: "opt_list None = []" "opt_list (Some x) = [x]" "set (opt_list x') = set_option x'"
  by (simp_all add: opt_list_def) (cases x', simp_all)

definition chosen :: "tl_msg_t option \<Rightarrow> tloe_endpoint_t \<Rightarrow> tl_msg_t option \<Rightarrow> tloe_endpoint_t \<Rightarrow> bool" where
  "chosen old e req e' \<longleftrightarrow>
     (if old \<noteq> None then req = old \<and> message_buffer e' = message_buffer e \<and> response_buffer e' = response_buffer e
      else queue_list (message_buffer e) = opt_list req @ queue_list (message_buffer e') \<and> response_buffer e' = response_buffer e \<or>
        queue_list (response_buffer e) = opt_list req @ queue_list (response_buffer e') \<and> message_buffer e' = message_buffer e)"

lemma select_buffer_ok:
  assumes ok: "ep_msgs_ok e" and c: "1 \<le> c" "c \<le> 4" and s: "select_buffer c e = (m, c', e')"
  shows "ep_msgs_ok e'" "req_ok m" "1 \<le> c'" "c' \<le> 4" "ack_buffer e' = ack_buffer e" "tl_msg_buffer e' = tl_msg_buffer e"
    "protocol_part e' = protocol_part e" "fc e' = fc e" "chosen None e m e'"
    "set_option m \<subseteq> set (queue_list (message_buffer e)) \<union> set (queue_list (response_buffer e))"
proof -
  have q: "q_inv (message_buffer e)" "q_inv (response_buffer e)" using ok by (simp_all add: ep_msgs_ok_def ep_inv_def)
  have e': "e' = e\<lparr>response_buffer := response_buffer e', message_buffer := message_buffer e'\<rparr>"
    "response_buffer e' \<in> {response_buffer e, snd (dequeue (response_buffer e))}"
    "message_buffer e' \<in> {message_buffer e, snd (dequeue (message_buffer e))}"
    using s by (auto simp: select_buffer_def Let_def split: prod.splits if_splits)
  have sub: "set (queue_list (response_buffer e')) \<subseteq> set (queue_list (response_buffer e))"
    "set (queue_list (message_buffer e')) \<subseteq> set (queue_list (message_buffer e))"
    "q_inv (response_buffer e')" "q_inv (message_buffer e')"
    using e'(2,3) q by (auto simp: cq.deq_contents cq.deq_inv dest: tail_subset)
  have "ep_inv (e\<lparr>response_buffer := response_buffer e', message_buffer := message_buffer e'\<rparr>)"
    using ok sub(3,4) by (simp add: ep_msgs_ok_def ep_inv_def tx_window_def fabric_up_def)
  then have inv: "ep_inv e'" using e'(1) by simp
  show tl: "ack_buffer e' = ack_buffer e" "tl_msg_buffer e' = tl_msg_buffer e" "protocol_part e' = protocol_part e" "fc e' = fc e"
    by (subst e'(1), simp add: protocol_part_def)+
  show "ep_msgs_ok e'" using inv sub(1,2) tl ok by (auto simp: ep_msgs_ok_def)
  have dq: "queue_list q' = opt_list (fst (dequeue q')) @ queue_list (snd (dequeue q'))" if "q_inv q'" for q' :: "tl_msg_t CircularQueue"
    using that by (cases "queue_list q'") (simp_all add: cq.deq_fst cq.peek_contents cq.deq_contents)
  have "e' = e\<lparr>message_buffer := snd (dequeue (message_buffer e))\<rparr> \<and> m = fst (dequeue (message_buffer e)) \<or>
    e' = e\<lparr>response_buffer := snd (dequeue (response_buffer e))\<rparr> \<and> m = fst (dequeue (response_buffer e)) \<or>
    fst (dequeue (response_buffer e)) = None \<and> m = fst (dequeue (message_buffer e)) \<and>
    e' = e\<lparr>response_buffer := snd (dequeue (response_buffer e)), message_buffer := snd (dequeue (message_buffer e))\<rparr>"
    using s by (auto simp: select_buffer_def Let_def split: prod.splits if_splits)
  moreover have "response_buffer e = snd (dequeue (response_buffer e))" if "fst (dequeue (response_buffer e)) = None"
  proof -
    have "queue_list (response_buffer e) = []" using that q(2) by (auto simp: cq.deq_fst cq.peek_contents split: list.splits)
    then show ?thesis using cq.empty_iff [OF q(2)] by (simp add: dequeue_def)
  qed
  ultimately show "chosen None e m e'" using dq [OF q(1)] dq [OF q(2)] by (auto simp: chosen_def)
  show "1 \<le> c'" "c' \<le> 4" using select_buffer_counter(1,2) [OF s c] .
  have "m \<in> {fst (dequeue (message_buffer e)), fst (dequeue (response_buffer e))}"
    using select_buffer_counter(3) [OF s c] by auto
  then show mem: "set_option m \<subseteq> set (queue_list (message_buffer e)) \<union> set (queue_list (response_buffer e))"
    using q by (auto simp: cq.deq_fst cq.peek_contents split: list.splits)
  show "req_ok m" using mem ok by (cases m) (auto simp: ep_msgs_ok_def req_ok_def)
qed

lemma RX_keeps:
  assumes ok: "ep_msgs_ok e" and rx: "rx_fine rx"
  shows "(\<not> is_queue_full (ack_buffer e) \<and> q_len (tl_msg_buffer e) + 64 \<le> q_cap (tl_msg_buffer e) \<longrightarrow> (\<exists>e'. RX al rx e = Inr e')) \<and>
    (\<forall>e'. RX al rx e = Inr e' \<longrightarrow> ep_msgs_ok e' \<and> message_buffer e' = message_buffer e \<and> response_buffer e' = response_buffer e \<and>
      next_tx_seq e' = next_tx_seq e)"
proof (cases "al \<and> 0 \<le> fst rx")
  case False
  have "fabric_up e" using ok by (simp add: ep_msgs_ok_def ep_inv_def)
  then have "RX al rx e = Inr e" using False by (cases rx) (auto simp: RX_def tloe_fabric_recv_up)
  then show ?thesis using ok by simp
next
  case True
  obtain n buf where r: "rx = (n, buf)" by (cases rx)
  have inv: "ep_inv e" using ok by (simp add: ep_msgs_ok_def)
  obtain f msk where f: "packet_to_tloe_frame buf n (zero_frame MAX_SIZE_FLIT) = Inr f"
    "is_ackonly_frame f \<or> frame_ok f n \<and> tloe_get_mask f n = Inr msk \<and>
      (\<forall>i \<in> set (mask_bits msk). \<exists>m. tloe_get_tlmsg f i = Inr m \<and> polite m)"
    using rx True r by (auto simp: rx_fine_def)
  have rxf: "RX al rx e = RX_frame e f n" using RX_packet [OF inv _ f(1)] True r by simp
  consider (ackonly) "is_ackonly_frame f" | (inorder) "\<not> is_ackonly_frame f" "ucast (h_seq_num (f_header f)) = next_rx_seq e"
    | (other) "\<not> is_ackonly_frame f" "ucast (h_seq_num (f_header f)) \<noteq> next_rx_seq e" by blast
  then show ?thesis
  proof cases
    case ackonly
    from RX_frame_ackonly [OF inv this, of n] rxf ok show ?thesis
      by (auto simp: ep_msgs_ok_def rx_untouched_def)
  next
    case inorder
    with f(2) have g: "frame_ok f n" "tloe_get_mask f n = Inr msk"
      "\<forall>i \<in> set (mask_bits msk). \<exists>m. tloe_get_tlmsg f i = Inr m \<and> polite m" by auto
    have len: "length (frame_msgs f msk) \<le> 64"
      by (simp add: frame_msgs_def mask_bits_def) (metis length_filter_le length_upt diff_zero)
    have dec: "\<forall>i \<in> set (mask_bits msk). \<exists>m. tloe_get_tlmsg f i = Inr m" using g(3) by blast
    have pol: "\<forall>m \<in> set (frame_msgs f msk). polite m" using g(3) by (force simp: frame_msgs_def)
    show ?thesis
    proof (cases "q_len (tl_msg_buffer e) + length (frame_msgs f msk) \<le> q_cap (tl_msg_buffer e)")
      case True
      from RX_frame_in_order [OF inv g(1) inorder g(2) dec True] rxf ok pol show ?thesis
        by (auto simp: ep_msgs_ok_def rx_untouched_def)
    next
      case False
      from RX_frame_overflow [OF inv inorder g(2) dec this] rxf False len show ?thesis by simp
    qed
  next
    case other
    with f(2) have "frame_ok f n" by simp
    from RX_frame_out_of_order [OF inv this other] rxf ok show ?thesis
      by (auto simp: ep_msgs_ok_def rx_untouched_def split: if_splits)
  qed
qed

lemma ep_inv_answered:
  assumes "ep_inv e" "answered (e\<lparr>tl_msg_buffer := q\<rparr>) rs e'" "q_inv (tl_msg_buffer e')" "q_inv (response_buffer e')"
  shows "ep_inv e'"
  using assms by (simp add: answered_def ep_inv_def tx_window_def fabric_up_def)

text \<open>The message the handler serves when it is called in a state.\<close>

definition handled :: "tloe_endpoint_t \<Rightarrow> tl_msg_t list" where
  "handled e = (if is_queue_empty (tl_msg_buffer e) \<or> is_queue_full (response_buffer e) then []
     else opt_list (getfront (tl_msg_buffer e)))"

lemma handler_ok:
  assumes ok: "ep_msgs_ok e"
  shows "\<exists>ret out mem' e'. tl_handler (Some mm) e = Inr (ret, out, Some mem', e') \<and> ep_msgs_ok e' \<and>
    protocol_part e' = protocol_part e \<and> fc e' = fc e \<and>
    q_cap (tl_msg_buffer e') = q_cap (tl_msg_buffer e) \<and> message_buffer e' = message_buffer e \<and>
    (if ret = 0 then tl_msg_buffer e' = tl_msg_buffer e \<and> mem' = mm \<and> response_buffer e' = response_buffer e \<and> handled e = []
      else \<exists>m. handled e = [m] \<and> out = Some (tlmsg_get_chan m, tlmsg_get_flits_cnt m) \<and> nat (tlmsg_get_chan m) < CHANNEL_NUM \<and>
        queue_list (tl_msg_buffer e) = m # queue_list (tl_msg_buffer e') \<and> mem' = fst (tl_serve m mm) \<and>
        queue_list (response_buffer e') = queue_list (response_buffer e) @ snd (tl_serve m mm))"
proof -
  have q: "q_inv (tl_msg_buffer e)" "q_inv (response_buffer e)" "ep_inv e"
    using ok by (simp_all add: ep_msgs_ok_def ep_inv_def)
  show ?thesis
  proof (cases "is_queue_empty (tl_msg_buffer e) \<or> is_queue_full (response_buffer e)")
    case True
    then show ?thesis using ok by (simp add: tl_handler_def handled_def)
  next
    case False
    then have nf: "\<not> is_queue_full (response_buffer e)" by simp
    obtain m ms where m: "queue_list (tl_msg_buffer e) = m # ms"
      using False cq.empty_iff [OF q(1)] by (cases "queue_list (tl_msg_buffer e)") auto
    have pm: "polite m" using ok m by (simp add: ep_msgs_ok_def)
    then have sm: "servable m" by (simp add: polite_def)
    obtain e' where e': "tl_handler (Some mm) e =
        Inr (1, Some (tlmsg_get_chan m, tlmsg_get_flits_cnt m), Some (fst (tl_serve m mm)), e')"
      "answered (e\<lparr>tl_msg_buffer := snd (dequeue (tl_msg_buffer e))\<rparr>) (snd (tl_serve m mm)) e'"
      "q_inv (tl_msg_buffer e')" "q_inv (response_buffer e')" "queue_list (tl_msg_buffer e') = ms"
      "queue_list (response_buffer e') = queue_list (response_buffer e) @ snd (tl_serve m mm)"
      using tl_handler_spec [OF q(1,2) nf m sm, of mm] by blast
    have mb: "message_buffer e' = message_buffer e" using e'(2) by (simp add: answered_def)
    then have "ep_msgs_ok e'"
      using ep_inv_answered [OF q(3) e'(2-4)] e'(5,6) ok m serve_response_ok [OF pm]
      by (auto simp: ep_msgs_ok_def)
    moreover have "nat (tlmsg_get_chan m) < CHANNEL_NUM"
      using sm by (simp add: servable_def tlmsg_get_chan_def)
    moreover have "protocol_part e' = protocol_part e" "fc e' = fc e" "q_cap (tl_msg_buffer e') = q_cap (tl_msg_buffer e)"
      using e'(2) by (simp_all add: answered_def protocol_part_def cq.deq_cap)
    moreover have "handled e = [m]" using False cq.peek_contents [OF q(1)] m by (simp add: handled_def)
    ultimately show ?thesis using e'(1,5,6) m mb by auto
  qed
qed

text \<open>The last part of a pass, the handler and the return of credit, serves at most one message.\<close>

definition serves :: "endpoint_thread \<Rightarrow> tloe_endpoint_t \<Rightarrow> endpoint_thread \<Rightarrow> bool" where
  "serves t e t' \<longleftrightarrow> local_work (handled e) e (ep t') \<and> mem t' = map_option (\<lambda>mm. fst (serve_all (handled e) mm)) (mem t) \<and>
     queue_list (response_buffer (ep t')) = queue_list (response_buffer e) @ snd (serve_all (handled e) (the (mem t))) \<and>
     message_buffer (ep t') = message_buffer e"

lemma body_handler:
  assumes ok: "ep_msgs_ok e2" and mm: "mem t = Some mm"
    and sel: "(if request_tlmsg t = None then select_buffer (sel_counter t) (ep t)
      else (request_tlmsg t, sel_counter t, ep t)) = (req, c, e)" and c: "1 \<le> c" "c \<le> 4"
    and tx: "TX (it_tx env) (e\<lparr>iteration_ts := it_now env\<rparr>) req = Inr (ret, e1)" and rx: "RX (it_alloc env) (it_rx env) e1 = Inr e2"
    and ret: "req_ok ret"
  shows "\<exists>t'. tloe_endpoint_body env t = Inr t' \<and> thread_inv t' \<and> pc t' = Test_Done \<and> request_tlmsg t' = ret \<and> serves t e2 t'"
proof -
  obtain rt out mem' e3 where h: "tl_handler (Some mm) e2 = Inr (rt, out, Some mem', e3)" "ep_msgs_ok e3"
    "protocol_part e3 = protocol_part e2" "fc e3 = fc e2" "q_cap (tl_msg_buffer e3) = q_cap (tl_msg_buffer e2)"
    "message_buffer e3 = message_buffer e2"
    "if rt = 0 then tl_msg_buffer e3 = tl_msg_buffer e2 \<and> mem' = mm \<and> response_buffer e3 = response_buffer e2 \<and> handled e2 = []
      else \<exists>m. handled e2 = [m] \<and> out = Some (tlmsg_get_chan m, tlmsg_get_flits_cnt m) \<and> nat (tlmsg_get_chan m) < CHANNEL_NUM \<and>
        queue_list (tl_msg_buffer e2) = m # queue_list (tl_msg_buffer e3) \<and> mem' = fst (tl_serve m mm) \<and>
        queue_list (response_buffer e3) = queue_list (response_buffer e2) @ snd (tl_serve m mm)"
    using handler_ok [OF ok, of mm] by blast
  have inv: "ep_inv e3" and wf: "fc_wf (fc e3)" using h(2) by (simp_all add: ep_msgs_ok_def ep_inv_def)
  have idc: "(case ret of Some m \<Rightarrow> Some m | None \<Rightarrow> None) = ret" by (cases ret) auto
  let ?t = "t\<lparr>pc := Test_Done, ep := e3, mem := Some mem', sel_counter := c, request_tlmsg := ret\<rparr>"
  show ?thesis
  proof (cases "rt = 0")
    case True
    then have "local_work [] e2 e3" using h(3,4,7) inv by (intro local_work_idle) simp_all
    then have "serves t e2 ?t" using True h(6,7) mm by (simp add: serves_def)
    moreover have "tloe_endpoint_body env t = Inr ?t"
      using True sel tx rx mm h(1) idc by (simp add: tloe_endpoint_body_def)
    moreover have "thread_inv ?t" using h(2) c ret by (simp add: thread_inv_def)
    ultimately show ?thesis by (intro exI [of _ ?t]) simp
  next
    case False
    then obtain m where hm: "handled e2 = [m]" and m: "out = Some (tlmsg_get_chan m, tlmsg_get_flits_cnt m)" "nat (tlmsg_get_chan m) < CHANNEL_NUM"
      "queue_list (tl_msg_buffer e2) = m # queue_list (tl_msg_buffer e3)" "mem' = fst (tl_serve m mm)"
      "queue_list (response_buffer e3) = queue_list (response_buffer e2) @ snd (tl_serve m mm)" using h(7) by auto
    let ?k = "nat (tlmsg_get_chan m)"
    let ?F = "(fc e3)\<lparr>tx_flow_credits := (tx_flow_credits (fc e3))
      [?k := tx_flow_credits (fc e3) ! ?k + word_of_int (tlmsg_get_flits_cnt m)]\<rparr>"
    let ?t' = "?t\<lparr>ep := e3\<lparr>fc := ?F\<rparr>\<rparr>"
    have F: "add_channel_flow_credits (fc e3) ?k (tlmsg_get_flits_cnt m) = Inr ?F" "fc_wf ?F"
      using m(2) wf by (simp_all add: add_channel_flow_credits_def fc_wf_def)
    have fin: "ep_msgs_ok (e3\<lparr>fc := ?F\<rparr>)" using h(2) F(2) by (simp add: ep_msgs_ok_def ep_inv_fc)
    have "(word_of_int (tlmsg_get_flits_cnt m) :: u32) = of_nat (nat (tlmsg_get_flits_cnt m))"
      using flits_cnt_bounds(1) [of m] by simp
    then have "local_work [m] e2 (e3\<lparr>fc := ?F\<rparr>)"
      using h(3-5) m(2,3) fin wf
      by (auto simp: local_work_def flits_on_def ep_msgs_ok_def protocol_part_def fc_wf_def nth_list_update)
    then have "serves t e2 ?t'" using hm h(6) m(4,5) mm by (simp add: serves_def split: prod.splits)
    moreover have "tloe_endpoint_body env t = Inr ?t'"
      using False m(1) F(1) sel tx rx mm h(1) idc by (simp add: tloe_endpoint_body_def)
    moreover have "thread_inv ?t'" using fin c ret by (simp add: thread_inv_def)
    ultimately show ?thesis by (intro exI [of _ ?t']) simp
  qed
qed

text \<open>
  The pass in its parts: the request is chosen and the clock read, then \<open>TX\<close>, then \<open>RX\<close>, then the handler and the
  return of credit, where only \<open>TX\<close> and \<open>RX\<close> touch the protocol. \<open>served_by\<close> is the message that the handler of the pass serves.
\<close>

definition handler_state :: "iter_env \<Rightarrow> endpoint_thread \<Rightarrow> tloe_endpoint_t run" where
  "handler_state env t =
     (let (request, counter, e) = (if request_tlmsg t = None then select_buffer (sel_counter t) (ep t)
                                   else (request_tlmsg t, sel_counter t, ep t))
      in bind_run (TX (it_tx env) (e\<lparr>iteration_ts := it_now env\<rparr>) request) (\<lambda>(_, e). RX (it_alloc env) (it_rx env) e))"

definition served_by :: "iter_env \<Rightarrow> endpoint_thread \<Rightarrow> tl_msg_t list" where
  "served_by env t = (case handler_state env t of Inl _ \<Rightarrow> [] | Inr e \<Rightarrow> handled e)"

definition pass_parts :: "iter_env \<Rightarrow> endpoint_thread \<Rightarrow> endpoint_thread \<Rightarrow> bool" where
  "pass_parts env t t' \<longleftrightarrow> (\<exists>req ret e e1 e2. thread_inv t' \<and> pc t' = Test_Done \<and>
     local_work [] (ep t) e \<and> chosen (request_tlmsg t) (ep t) req e \<and> req_ok req \<and>
     TX (it_tx env) e req = Inr (ret, e1) \<and> request_tlmsg t' = ret \<and>
     message_buffer e2 = message_buffer e \<and> response_buffer e2 = response_buffer e \<and> next_tx_seq e2 = next_tx_seq e1 \<and>
     RX (it_alloc env) (it_rx env) e1 = Inr e2 \<and> served_by env t = handled e2 \<and> serves t e2 t')"

lemma body_parts:
  assumes t: "thread_inv t" and env: "env_ok (it_tx env)" "rbe_alloc (it_tx env)" and rx: "rx_fine (it_rx env)"
  shows "(\<not> is_queue_full (ack_buffer (ep t)) \<and> q_len (tl_msg_buffer (ep t)) + 64 \<le> q_cap (tl_msg_buffer (ep t)) \<longrightarrow> (\<exists>t'. tloe_endpoint_body env t = Inr t')) \<and>
    (\<forall>t'. tloe_endpoint_body env t = Inr t' \<longrightarrow> pass_parts env t t')"
proof -
  obtain req c e where sel: "(if request_tlmsg t = None then select_buffer (sel_counter t) (ep t)
      else (request_tlmsg t, sel_counter t, ep t)) = (req, c, e)" by (metis prod_cases3)
  have s: "ep_msgs_ok e" "req_ok req" "1 \<le> c" "c \<le> 4" "ack_buffer e = ack_buffer (ep t)"
    "tl_msg_buffer e = tl_msg_buffer (ep t)" "protocol_part e = protocol_part (ep t)" "fc e = fc (ep t)"
    "chosen (request_tlmsg t) (ep t) req e"
    using sel t select_buffer_ok [of "ep t" "sel_counter t" req c e]
    by (auto simp: thread_inv_def chosen_def split: if_splits)
  let ?e = "e\<lparr>iteration_ts := it_now env\<rparr>"
  have ok: "ep_msgs_ok ?e" and inv: "ep_inv ?e"
    using s(1) by (simp_all add: ep_msgs_ok_def ep_inv_def tx_window_def fabric_up_def)
  have l1: "local_work [] (ep t) ?e"
    using inv s(6-8) by (intro local_work_idle) (simp_all add: protocol_part_def)
  have ch: "chosen (request_tlmsg t) (ep t) req ?e" using s(9) by (simp add: chosen_def)
  obtain ret e1 where tx: "TX (it_tx env) ?e req = Inr (ret, e1)" "ep_inv e1" "untouched e1 = untouched ?e"
    "ret = None \<or> ret = req" "ack_buffer e1 = ack_buffer ?e \<or> ack_buffer e1 = snd (dequeue (ack_buffer ?e))"
    using TX_result [OF inv env s(2)] by blast
  have "q_inv (ack_buffer ?e)" using inv by (simp add: ep_inv_def)
  then have room1: "\<not> is_queue_full (ack_buffer e1)" if "\<not> is_queue_full (ack_buffer (ep t))"
    using tx(5) that s(5) cq.full_iff [of "ack_buffer ?e"] cq.bound [of "ack_buffer ?e"]
      cq.full_iff [of "snd (dequeue (ack_buffer ?e))"] by (auto simp: cq.deq_inv cq.deq_cap cq.deq_contents)
  have ok1: "ep_msgs_ok e1" using tx(2,3) ok by (simp add: ep_msgs_ok_def untouched_def)
  have sp: "tl_msg_buffer e1 = tl_msg_buffer (ep t)" using tx(3) s(6) by (simp add: untouched_def)
  note k = RX_keeps [OF ok1 rx, of "it_alloc env", unfolded sp]
  obtain mm where mm: "mem t = Some mm" using t by (auto simp: thread_inv_def)
  have ret: "req_ok ret" using tx(4) s(2) by (auto simp: req_ok_def)
  have fin: "\<exists>t'. tloe_endpoint_body env t = Inr t' \<and> pass_parts env t t'" if r: "RX (it_alloc env) (it_rx env) e1 = Inr e2" for e2
  proof -
    have e2: "ep_msgs_ok e2" "message_buffer e2 = message_buffer ?e" "response_buffer e2 = response_buffer ?e"
      "next_tx_seq e2 = next_tx_seq e1" using k r tx(3) by (auto simp: untouched_def)
    from body_handler [OF e2(1) mm sel s(3,4) tx(1) r ret] obtain t' where
      "tloe_endpoint_body env t = Inr t'" "thread_inv t'" "pc t' = Test_Done" "request_tlmsg t' = ret" "serves t e2 t'" by blast
    moreover have "served_by env t = handled e2" using sel tx(1) r by (simp add: served_by_def handler_state_def)
    ultimately show ?thesis using l1 ch s(2) tx(1) r e2(2-4) unfolding pass_parts_def by blast
  qed
  moreover have "\<exists>e2. RX (it_alloc env) (it_rx env) e1 = Inr e2" if "tloe_endpoint_body env t = Inr t'" for t'
    using that sel tx(1) by (auto simp: tloe_endpoint_body_def bind_run_eq_Inr)
  ultimately show ?thesis using k room1 by (metis Inr_inject)
qed

text \<open>
  C11: a pass of the endpoint loop returns and keeps the state of the thread well formed, for every clock value and every
  decodable packet: the protocol invariant holds, queued requests and responses stay sendable, the
  request in hand is still one that \<open>TX\<close> accepts. The conditions exclude the program's own stops: a full
  acknowledgement or TileLink buffer and failed allocations.
\<close>

theorem endpoint_pass_preserves_invariant:
  assumes "pc t = Body" "thread_inv t" "env_ok (it_tx env)" "rbe_alloc (it_tx env)" "rx_fine (it_rx env)"
    and "\<not> is_queue_full (ack_buffer (ep t))" "q_len (tl_msg_buffer (ep t)) + 64 \<le> q_cap (tl_msg_buffer (ep t))"
  shows "\<exists>t'. tloe_endpoint_step env t = Inr t' \<and> thread_inv t' \<and> pc t' = Test_Done"
  using body_parts [OF assms(2-5)] assms(1,6,7) by (fastforce simp: tloe_endpoint_step_def pass_parts_def)

theorem endpoint_pass_preserves_invariant_witness:
  "\<exists>t'. tloe_endpoint_step \<lparr>it_now = \<lparr>tv_sec = 1, tv_nsec = 2\<rparr>, it_tx = sample_env, it_alloc = True, it_rx = (-1, [])\<rparr>
      (waiting_thread\<lparr>pc := Body, request_tlmsg := Some (sample_get 8)\<rparr>) = Inr t' \<and> thread_inv t' \<and> pc t' = Test_Done"
proof (rule endpoint_pass_preserves_invariant)
  show "thread_inv (waiting_thread\<lparr>pc := Body, request_tlmsg := Some (sample_get 8)\<rparr>)"
    using sample_req_ok ep_inv_fresh_mq fresh_rx(4) [of mq_fabric]
    by (simp add: thread_inv_def waiting_thread_def ep_msgs_ok_def) (simp add: fresh_endpoint_def)
qed (use sample_env_ok fresh_rx [of mq_fabric] in \<open>simp_all add: waiting_thread_def rx_fine_def\<close>)

section \<open>Messages that break the program\<close>

text \<open>
  C37: the message queued by the \<^verbatim>\<open>a\<close> command is a read request without its address: \<open>create_and_enqueue_message\<close> allocates eight bytes for
  a request whose header announces sixteen, and as soon as \<open>TX\<close> may send it, it reads past the end of the
  object.
\<close>

theorem auto_request_overreads:
  assumes "q_inv (message_buffer e)" "\<not> is_queue_full (message_buffer e)"
  shows "\<exists>e' m. create_and_enqueue_message True e = Inr (1, e') \<and>
    queue_list (message_buffer e') = queue_list (message_buffer e) @ [m] \<and>
    length m = 8 \<and> tlmsg_get_total_size m = 16 \<and>
    (\<forall>env d. ep_inv d \<longrightarrow> env_ok env \<longrightarrow> \<not> is_queue_full (retransmit_buffer d) \<longrightarrow> \<not> dec_refused (fc d) m \<longrightarrow>
      TX env d (Some m) = Inl Undefined)"
proof -
  let ?m = "mk_msg (zero_tl_header\<lparr>tl_chan := 1, tl_opcode := 4\<rparr>) []"
  have m: "length ?m = 8" "tlmsg_get_total_size ?m = 16" "tlmsg_get_chan ?m = 1"
    by (simp_all add: tlmsg_get_total_size_def tlmsg_get_header_size_def tlmsg_get_data_size_def tlmsg_get_chan_def
        tlmsg_get_opcode_def header_log_def data_log_def int_of_shl_log zero_tl_header_def)
  moreover have "create_and_enqueue_message True e = Inr (1, e\<lparr>message_buffer := snd (enqueue (message_buffer e) ?m)\<rparr>)"
    using enqueue_message_room [OF assms(2)] by (simp add: create_and_enqueue_message_def)
  moreover have "TX env d (Some ?m) = Inl Undefined"
    if "ep_inv d" "env_ok env" "\<not> is_queue_full (retransmit_buffer d)" "\<not> dec_refused (fc d) ?m" for env d
    using TX_short_message [OF that(1,2) _ that(3,4)] m by simp
  ultimately show ?thesis using cq.enq_contents [OF assms, of ?m] by (intro exI conjI) (assumption | simp)+
qed

theorem auto_request_overreads_witness:
  "\<exists>e' m. create_and_enqueue_message True (fresh_endpoint mq_fabric) = Inr (1, e') \<and>
    queue_list (message_buffer e') = [m] \<and> length m = 8 \<and> tlmsg_get_total_size m = 16 \<and>
    TX sample_env (fresh_endpoint mq_fabric) (Some m) = Inl Undefined"
proof -
  let ?e = "fresh_endpoint mq_fabric"
  have q: "q_inv (message_buffer ?e)" "\<not> is_queue_full (message_buffer ?e)" "queue_list (message_buffer ?e) = []"
    by (simp_all add: fresh_endpoint_def create_queue_inv is_queue_full_create)
  from auto_request_overreads [OF q(1,2)] q(3) obtain e' m where m:
    "create_and_enqueue_message True ?e = Inr (1, e')" "queue_list (message_buffer e') = [m]" "length m = 8"
    "tlmsg_get_total_size m = 16"
    "\<And>env d. ep_inv d \<Longrightarrow> env_ok env \<Longrightarrow> \<not> is_queue_full (retransmit_buffer d) \<Longrightarrow> \<not> dec_refused (fc d) m \<Longrightarrow>
      TX env d (Some m) = Inl Undefined" by auto
  have "m = mk_msg (zero_tl_header\<lparr>tl_chan := 1, tl_opcode := 4\<rparr>) []"
    using m(1,2) enqueue_message_room [OF q(2)] cq.enq_contents [OF q(1,2)] q(3)
    by (auto simp: create_and_enqueue_message_def)
  then have "tlmsg_get_chan m = 1" by (simp add: tlmsg_get_chan_def zero_tl_header_def)
  then have "\<not> dec_refused (fc ?e) m"
    using m(4) by (simp add: dec_refused_def fresh_endpoint_def initial_fc_def tlmsg_get_flits_cnt_alt)
  then show ?thesis using m(1-4) m(5) [OF ep_inv_fresh_mq sample_env_ok(1) fresh_sends(1)] by blast
qed

text \<open>
  A read request of 1024 bytes or more makes the endpoint write past a heap object: the handler serves it, but when \<open>TX\<close>
  may send the response, copying the frame into the retransmit buffer element exceeds its 528 bytes.
\<close>

theorem large_read_response_overflows:
  assumes "10 \<le> unat sz" "length bs = 2 ^ unat sz"
    and "ep_inv e" "env_ok env" "rbe_alloc env" "\<not> is_queue_full (retransmit_buffer e)"
    and "\<not> dec_refused (fc e) (ackdata_msg src sz bs)"
  shows "snd (tl_serve (get_msg src sz a) mm) = [ackdata_msg src sz (mem_read mm (unat a mod MEM_SIZE) (2 ^ unat sz))] \<and>
    TX env e (Some (ackdata_msg src sz bs)) = Inl Undefined"
proof -
  have lt: "unat sz < 16" using unsigned_less [of sz, where 'a = nat] by simp
  have u: "uint sz < 16" using uint_lt2p [of sz] by simp
  then have "int_of_u64 (shl_1ULL (uint sz)) = 2 ^ unat sz" using int_of_shl_log [of "uint sz"] by simp
  then have t: "tlmsg_get_total_size (ackdata_msg src sz bs) = 8 + 2 ^ unat sz" "tlmsg_get_chan (ackdata_msg src sz bs) = 4"
    by (simp_all add: ackdata_msg_def tlmsg_get_total_size_def tlmsg_get_header_size_def tlmsg_get_data_size_def
        tlmsg_get_chan_def tlmsg_get_opcode_def tlmsg_get_size_def header_log_def data_log_def int_of_shl_log
        zero_tl_header_def)
  have "(2::int) ^ 10 \<le> 2 ^ unat sz" using assms(1) by (intro power_increasing) auto
  then have big: "528 < tloe_get_fsize (Some (ackdata_msg src sz bs))" using t by (simp add: tloe_get_fsize_def)
  have ok: "msg_ok (ackdata_msg src sz bs)" using t assms(2) by (simp add: msg_ok_def) (simp add: ackdata_msg_def)
  show ?thesis
    using TX_oversize_message [OF assms(3-5) _ assms(6,7) ok big] t(2) get_msg_serve(1) by simp
qed

theorem large_read_response_overflows_witness:
  "TX sample_env ((fresh_endpoint mq_fabric)\<lparr>fc := initial_fc\<lparr>credits := replicate 6 1024\<rparr>\<rparr>)
     (Some (ackdata_msg 7 10 (replicate 1024 0))) = Inl Undefined"
proof -
  let ?F = "initial_fc\<lparr>credits := replicate 6 1024\<rparr>"
  let ?e = "(fresh_endpoint mq_fabric)\<lparr>fc := ?F\<rparr>"
  let ?m = "ackdata_msg 7 10 (replicate 1024 0)"
  have "fc_wf ?F" by (simp add: fc_wf_def initial_fc_def zero_flowcontrol_def Let_def)
  then have inv: "ep_inv ?e" by (intro ep_inv_fc ep_inv_fresh_mq)
  have "tlmsg_get_flits_cnt ?m = 129" "tlmsg_get_chan ?m = 4"
    by (simp_all add: ackdata_msg_def tlmsg_get_flits_cnt_def tlmsg_get_header_size_def tlmsg_get_data_size_def
        tlmsg_get_chan_def tlmsg_get_opcode_def tlmsg_get_size_def header_log_def data_log_def int_of_shl_log
        zero_tl_header_def convert_size_to_flits_def)
  then have nr: "\<not> dec_refused (fc ?e) ?m" by (simp add: dec_refused_def)
  have nf: "\<not> is_queue_full (retransmit_buffer ?e)" using fresh_sends(1) by simp
  show ?thesis
    using large_read_response_overflows [OF _ _ inv sample_env_ok nf nr] by simp
qed

end
