(* ===== verification/Go_Back_N.thy ===== *)
theory Go_Back_N
  imports Seq_Mgr "HOL-Library.Sublist"
begin

text \<open>
  The abstract protocol that the retransmission, transmitter and receiver components implement: one
  direction of a link, with frames counted without wrap-around. The sender keeps a window of frames
  that are not acknowledged and sends them again at will; the receiver takes frames in order only;
  the channel is first-in first-out and may lose frames. The theory states the invariant of the
  protocol and the interface \<open>seq_window\<close> between the protocol and the sequence numbers on the
  wire: numbers that tell apart the frames which can meet at the receiver are as good as the counts.
\<close>

section \<open>The protocol\<close>

text \<open>
  \<open>g_sent\<close> is everything sent so far (frame \<open>i\<close> is \<open>g_sent ! i\<close>), \<open>g_base\<close> the oldest frame that is not
  acknowledged, \<open>g_rcvd\<close> the number of frames received in order, \<open>g_flight\<close> the frames in the channel.
\<close>

record 'm gbn =
  g_sent :: "'m list"
  g_base :: nat
  g_rcvd :: nat
  g_flight :: "nat list"

definition gbn_start :: "'m gbn" where
  "gbn_start = \<lparr>g_sent = [], g_base = 0, g_rcvd = 0, g_flight = []\<rparr>"

inductive gbn_step :: "nat \<Rightarrow> 'm gbn \<Rightarrow> 'm gbn \<Rightarrow> bool" for W where
  Send: "length (g_sent g) < g_base g + W \<Longrightarrow>
    gbn_step W g (g\<lparr>g_sent := g_sent g @ [x], g_flight := g_flight g @ [length (g_sent g)]\<rparr>)"
| Resend: "gbn_step W g (g\<lparr>g_flight := g_flight g @ [g_base g..<length (g_sent g)]\<rparr>)"
| Lose: "g_flight g = xs @ i # ys \<Longrightarrow> gbn_step W g (g\<lparr>g_flight := xs @ ys\<rparr>)"
| Accept: "g_flight g = g_rcvd g # ys \<Longrightarrow> gbn_step W g (g\<lparr>g_flight := ys, g_rcvd := Suc (g_rcvd g)\<rparr>)"
| Reject: "g_flight g = i # ys \<Longrightarrow> i \<noteq> g_rcvd g \<Longrightarrow> gbn_step W g (g\<lparr>g_flight := ys\<rparr>)"
| Acknowledge: "c \<le> g_rcvd g \<Longrightarrow> gbn_step W g (g\<lparr>g_base := max (g_base g) c\<rparr>)"

text \<open>What the receiver has handed on: the frames received in order.\<close>

definition g_delivered :: "'m gbn \<Rightarrow> 'm list" where
  "g_delivered g = take (g_rcvd g) (g_sent g)"

section \<open>The invariant\<close>

text \<open>
  A frame in the channel is never more than a window behind any frame sent before it, nor behind the
  receiver: it was sent when every frame before it was within a window of \<open>g_base\<close>.
\<close>

definition gbn_inv :: "nat \<Rightarrow> 'm gbn \<Rightarrow> bool" where
  "gbn_inv W g \<longleftrightarrow> g_base g \<le> g_rcvd g \<and> g_rcvd g \<le> length (g_sent g) \<and> length (g_sent g) \<le> g_base g + W \<and>
     (\<forall>i \<in> set (g_flight g). i < length (g_sent g) \<and> g_rcvd g \<le> i + W) \<and>
     sorted_wrt (\<lambda>i j. i < j + W) (g_flight g)"

lemma gbn_inv_start: "gbn_inv W gbn_start"
  by (simp add: gbn_inv_def gbn_start_def)

lemma gbn_inv_step:
  assumes "gbn_step W g g'" "gbn_inv W g"
  shows "gbn_inv W g'"
  using assms
proof (induction rule: gbn_step.induct)
  case (Resend g)
  have "sorted_wrt (\<lambda>i j. i < j + W) [g_base g..<length (g_sent g)]"
    by (rule sorted_wrt_mono_rel [OF _ sorted_wrt_upt]) auto
  then show ?case using Resend by (fastforce simp: gbn_inv_def sorted_wrt_append)
next
  case (Accept g ys)
  then show ?case by (fastforce simp: gbn_inv_def)
qed (auto simp: gbn_inv_def sorted_wrt_append less_Suc_eq intro: less_le_trans)

lemma gbn_inv_reachable: "(gbn_step W)\<^sup>*\<^sup>* g g' \<Longrightarrow> gbn_inv W g \<Longrightarrow> gbn_inv W g'"
  by (rule reachable_invariant [OF _ _ gbn_inv_step])

lemma gbn_sent_grows: "gbn_step W g g' \<Longrightarrow> prefix (g_sent g) (g_sent g')"
  by (induction rule: gbn_step.induct) auto

text \<open>Nothing is delivered twice, out of order or invented.\<close>

lemma gbn_delivered_prefix: "prefix (g_delivered g) (g_sent g)"
  by (simp add: g_delivered_def take_is_prefix)

lemma gbn_accept_delivers:
  assumes "g_rcvd g < length (g_sent g)"
  shows "g_delivered (g\<lparr>g_flight := ys, g_rcvd := Suc (g_rcvd g)\<rparr>) = g_delivered g @ [g_sent g ! g_rcvd g]"
  using assms by (simp add: g_delivered_def take_Suc_conv_app_nth)

text \<open>
  What an implementation of the protocol needs of an invariant: the frames that can meet at the
  receiver are within a window of it, and the steps keep it.
\<close>

definition gbn_ok :: "nat \<Rightarrow> 'm gbn \<Rightarrow> bool" where
  "gbn_ok W g \<longleftrightarrow> g_base g \<le> length (g_sent g) \<and> g_rcvd g \<le> length (g_sent g) \<and>
     (\<forall>i \<in> set (g_flight g). i < length (g_sent g) \<and> g_rcvd g \<le> i + W \<and> i \<le> g_rcvd g + W)"

definition gbn_safe :: "nat \<Rightarrow> ('m gbn \<Rightarrow> bool) \<Rightarrow> bool" where
  "gbn_safe W I \<longleftrightarrow> (\<forall>g. I g \<longrightarrow> gbn_ok W g) \<and> (\<forall>g g'. gbn_step W g g' \<longrightarrow> I g \<longrightarrow> I g')"

lemma gbn_safe_step: "gbn_safe W I \<Longrightarrow> gbn_step W g g' \<Longrightarrow> I g \<Longrightarrow> I g'"
  by (auto simp: gbn_safe_def)

lemma gbn_safe_reachable: "gbn_safe W I \<Longrightarrow> (gbn_step W)\<^sup>*\<^sup>* g g' \<Longrightarrow> I g \<Longrightarrow> I g'"
  by (rule reachable_invariant [OF _ _ gbn_safe_step])

lemma gbn_safe_inv: "gbn_safe W (gbn_inv W)"
  unfolding gbn_safe_def using gbn_inv_step by (auto simp: gbn_ok_def gbn_inv_def)

section \<open>A lost first frame\<close>

text \<open>
  A sender that has released its first frame although the receiver does not have it. It can never
  send that frame again, and the receiver accepts nothing else.
\<close>

definition gbn_stuck :: "nat \<Rightarrow> 'm gbn \<Rightarrow> bool" where
  "gbn_stuck W g \<longleftrightarrow> g_base g = 1 \<and> g_rcvd g = 0 \<and> 1 \<le> length (g_sent g) \<and> length (g_sent g) \<le> 1 + W \<and>
     (\<forall>i \<in> set (g_flight g). 1 \<le> i \<and> i < length (g_sent g))"

lemma gbn_stuck_step:
  assumes "gbn_step W g g'" "gbn_stuck W g"
  shows "gbn_stuck W g'"
  using assms by (induction rule: gbn_step.induct) (auto simp: gbn_stuck_def less_Suc_eq)

lemma gbn_safe_stuck: "gbn_safe W (gbn_stuck W)"
  unfolding gbn_safe_def using gbn_stuck_step by (auto simp: gbn_ok_def gbn_stuck_def)

section \<open>Sequence numbers\<close>

text \<open>
  What the protocol needs of the numbers on the wire: frames less than a window apart from the
  receiver, on either side, have different numbers.
\<close>

locale seq_window =
  fixes W :: nat and seq :: "nat \<Rightarrow> 's"
  assumes tell_apart: "seq i = seq j \<Longrightarrow> i \<le> j + W \<Longrightarrow> j \<le> i + W \<Longrightarrow> i = j"
begin

lemma accept_iff:
  assumes "gbn_ok W g" "i \<in> set (g_flight g)"
  shows "seq i = seq (g_rcvd g) \<longleftrightarrow> i = g_rcvd g"
proof
  assume "seq i = seq (g_rcvd g)"
  moreover have "i \<le> g_rcvd g + W" "g_rcvd g \<le> i + W" using assms by (auto simp: gbn_ok_def)
  ultimately show "i = g_rcvd g" by (rule tell_apart)
qed simp

text \<open>A receiver that looks at the numbers only takes the protocol's steps.\<close>

lemma receive_by_number:
  assumes "gbn_ok W g" "g_flight g = i # ys"
  shows "gbn_step W g (if seq i = seq (g_rcvd g) then g\<lparr>g_flight := ys, g_rcvd := Suc (g_rcvd g)\<rparr> else g\<lparr>g_flight := ys\<rparr>)"
proof -
  have "seq i = seq (g_rcvd g) \<longleftrightarrow> i = g_rcvd g" using assms by (intro accept_iff) auto
  then show ?thesis using assms(2) by (auto intro: gbn_step.intros)
qed

end

text \<open>The 22-bit sequence numbers of the code, counted from any frame, with the window of four.\<close>

interpretation wire: seq_window WINDOW_SIZE "\<lambda>k. seq_of (n0 + k)" for n0
proof
  fix i j
  assume e: "seq_of (n0 + i) = seq_of (n0 + j)" and b: "i \<le> j + 4" "j \<le> i + 4"
  have "tloe_seqnum_cmp (seq_of (n0 + i)) (seq_of (n0 + j)) = sgn (int (n0 + i) - int (n0 + j))"
    using b by (intro cmp_seq_of) auto
  moreover have "tloe_seqnum_cmp (seq_of (n0 + i)) (seq_of (n0 + j)) = 0"
    using e by (simp add: cmp_eq_0_iff)
  ultimately show "i = j" by (auto simp: sgn_if split: if_splits)
qed

end
