(* ===== verification/Link.thy ===== *)
theory Link
  imports Endpoint Go_Back_N
begin

text \<open>
  Two endpoints and the channels between them. The channels are first-in first-out and lose packets;
  the endpoints run \<open>TX\<close> and \<open>RX\<close> in any order, as often as they like. Every step of this system is
  shown to be a step of the abstract protocol of \<open>Go_Back_N\<close> in each direction, so that the messages an
  endpoint delivers are those its peer sent, in order, none lost and none repeated.
\<close>

section \<open>Packets and the frames they carry\<close>

definition carries :: "byte list \<Rightarrow> tloe_frame_t \<Rightarrow> bool" where
  "carries p f \<longleftrightarrow> 6 \<le> length (flits f) \<and> length (flits f) \<le> MAX_SIZE_FLIT \<and>
     tloe_frame_to_packet f (8 + 8 * int (length (flits f))) = Inr p"

lemma carries_decode:
  assumes "carries p f"
  shows "int (length p) = 8 + 8 * int (length (flits f))"
    "packet_to_tloe_frame (p @ rest) (int (length p)) (zero_frame MAX_SIZE_FLIT) = Inr (padded f)"
proof -
  have len: "length (flits f) \<le> MAX_SIZE_FLIT" using assms by (simp add: carries_def)
  from packet_decode [OF refl len] obtain q where
    q: "tloe_frame_to_packet f (8 + 8 * int (length (flits f))) = Inr q" "length q = 8 + 8 * length (flits f)"
    "\<And>rest. packet_to_tloe_frame (q @ rest) (8 + 8 * int (length (flits f))) (zero_frame MAX_SIZE_FLIT) =
      Inr (f\<lparr>flits := flits f @ replicate (MAX_SIZE_FLIT - length (flits f)) 0\<rparr>)" by blast
  have "q = p" using q(1) assms by (simp add: carries_def)
  with q(2) show l: "int (length p) = 8 + 8 * int (length (flits f))" by simp
  have "f\<lparr>flits := flits f @ replicate (MAX_SIZE_FLIT - length (flits f)) 0\<rparr> = padded f" by (simp add: padded_def)
  then show "packet_to_tloe_frame (p @ rest) (int (length p)) (zero_frame MAX_SIZE_FLIT) = Inr (padded f)"
    unfolding l using q(3) \<open>q = p\<close> by simp
qed

text \<open>Only the flits that fit into the packet matter.\<close>

lemma carries_take:
  assumes "tloe_frame_to_packet f (8 + 8 * int n) = Inr p" "6 \<le> n" "n \<le> length (flits f)" "n \<le> MAX_SIZE_FLIT"
  shows "carries p (f\<lparr>flits := take n (flits f)\<rparr>)"
  using assms tloe_frame_to_packet_eq [of n f] tloe_frame_to_packet_eq [of n "f\<lparr>flits := take n (flits f)\<rparr>"]
  by (simp add: carries_def min_absorb2)

section \<open>What frames say\<close>

text \<open>
  Frame \<open>i\<close> of a direction has sequence number \<open>n0 + i\<close>. An acknowledgement names the last of the first
  \<open>c\<close> frames, for some \<open>c\<close> not above the number \<open>r\<close> received so far.
\<close>

definition ack_num :: "nat \<Rightarrow> nat \<Rightarrow> 22 word \<Rightarrow> bool" where
  "ack_num n0 r w \<longleftrightarrow> (\<exists>c \<le> r. ucast w = seq_of (n0 + c - 1))"

definition acks :: "nat \<Rightarrow> nat \<Rightarrow> tloe_frame_t \<Rightarrow> bool" where
  "acks n0 r f \<longleftrightarrow> h_ack (f_header f) = 1 \<and> ack_num n0 r (h_seq_num_ack (f_header f))"

text \<open>
  What a frame says for the history of its sender: the message it carries, if any, and the credit it announces, as channel
  and exponent (channel 0 announces nothing).
\<close>

record frame_info =
  fr_msg :: "tl_msg_t option"
  fr_chan :: nat
  fr_credit :: nat

definition frame_of :: "nat \<Rightarrow> frame_info list \<Rightarrow> nat \<Rightarrow> tloe_frame_t \<Rightarrow> bool" where
  "frame_of n0 sent i f \<longleftrightarrow> i < length sent \<and> \<not> is_ackonly_frame f \<and> h_ack (f_header f) = 1 \<and>
     ucast (h_seq_num (f_header f)) = seq_of (n0 + i) \<and> unat (h_chan (f_header f)) = fr_chan (sent ! i) \<and>
     unat (h_credit (f_header f)) = fr_credit (sent ! i) \<and> fr_chan (sent ! i) < CHANNEL_NUM \<and>
     tloe_get_mask f (8 + 8 * int (length (flits f))) = Inr (if fr_msg (sent ! i) = None then 0 else 1) \<and>
     (\<forall>m. fr_msg (sent ! i) = Some m \<longrightarrow> tloe_get_tlmsg f 0 = Inr m)"

lemma ack_num_mono: "ack_num n0 r w \<Longrightarrow> r \<le> r' \<Longrightarrow> ack_num n0 r' w"
  unfolding ack_num_def using order_trans by blast

lemma acks_mono: "acks n0 r f \<Longrightarrow> r \<le> r' \<Longrightarrow> acks n0 r' f"
  by (auto simp: acks_def intro: ack_num_mono)

lemma frame_of_mono: "frame_of n0 sent i f \<Longrightarrow> frame_of n0 (sent @ xs) i f"
  by (simp add: frame_of_def nth_append)

lemma ack_num_prev: "0 < n0 \<Longrightarrow> ack_num n0 r (ucast (tloe_seqnum_prev (seq_of (n0 + r))))"
  unfolding ack_num_def using seqnum_prev_seq_of [of "n0 + r - 1"] by (intro exI [of _ r]) simp

lemma frame_of_ack [simp]:
  "frame_of n0 sent i (f\<lparr>f_header := (f_header f)\<lparr>h_seq_num_ack := w\<rparr>\<rparr>) = frame_of n0 sent i f"
  by (simp add: frame_of_def is_ackonly_frame_def tloe_get_mask_def tloe_get_tlmsg_def Let_def)

text \<open>What the receiver sees of a data frame after decoding.\<close>

lemma frame_of_padded:
  assumes "frame_of n0 sent i f" "6 \<le> length (flits f)" "length (flits f) \<le> MAX_SIZE_FLIT"
  shows "frame_ok (padded f) (8 + 8 * int (length (flits f)))" "\<not> is_ackonly_frame (padded f)"
    "tloe_get_mask (padded f) (8 + 8 * int (length (flits f))) = Inr (if fr_msg (sent ! i) = None then 0 else 1)"
    "fr_msg (sent ! i) = Some m \<Longrightarrow> tloe_get_tlmsg (padded f) 0 = Inr m"
proof -
  have p: "padded f = f\<lparr>flits := flits f @ replicate (MAX_SIZE_FLIT - length (flits f)) 0\<rparr>"
    by (simp add: padded_def)
  have "mask_index (8 + 8 * int (length (flits f))) < length (flits f)"
    using assms(1) by (auto simp: frame_of_def tloe_get_mask_def Let_def split: if_splits)
  then show "frame_ok (padded f) (8 + 8 * int (length (flits f)))"
    using assms(1) by (simp add: frame_ok_def frame_of_def padded_def)
  show "\<not> is_ackonly_frame (padded f)" using assms(1) by (simp add: frame_of_def is_ackonly_frame_def padded_def)
  show "tloe_get_mask (padded f) (8 + 8 * int (length (flits f))) = Inr (if fr_msg (sent ! i) = None then 0 else 1)"
    unfolding p by (rule tloe_get_mask_append) (use assms(1) in \<open>simp add: frame_of_def\<close>)
  show "fr_msg (sent ! i) = Some m \<Longrightarrow> tloe_get_tlmsg (padded f) 0 = Inr m"
    unfolding p by (rule tloe_get_tlmsg_append) (use assms(1) in \<open>simp add: frame_of_def\<close>)
qed

section \<open>Channels\<close>

text \<open>
  A channel that holds the packets \<open>ps\<close>: each acknowledges something (\<open>A\<close>), and those that are not
  acknowledgement-only are, in order, the data frames (\<open>D\<close>) with the given numbers.
\<close>

fun chan :: "(nat \<Rightarrow> tloe_frame_t \<Rightarrow> bool) \<Rightarrow> (tloe_frame_t \<Rightarrow> bool) \<Rightarrow> byte list list \<Rightarrow> nat list \<Rightarrow> bool" where
  "chan D A [] fl \<longleftrightarrow> fl = []"
| "chan D A (p # ps) fl \<longleftrightarrow> (\<exists>f. carries p f \<and> A f \<and>
     (is_ackonly_frame f \<and> chan D A ps fl \<or> (\<exists>i fl'. fl = i # fl' \<and> D i f \<and> chan D A ps fl')))"

lemma chan_mono:
  assumes "\<And>i f. D i f \<Longrightarrow> D' i f" "\<And>f. A f \<Longrightarrow> A' f"
  shows "chan D A ps fl \<Longrightarrow> chan D' A' ps fl"
proof (induction ps arbitrary: fl)
  case (Cons p ps)
  then obtain f where "carries p f" "A f"
    "is_ackonly_frame f \<and> chan D A ps fl \<or> (\<exists>i fl'. fl = i # fl' \<and> D i f \<and> chan D A ps fl')" by auto
  then show ?case using assms Cons.IH by (auto intro!: exI [of _ f])
qed simp

lemma chan_append: "chan D A ps fl \<Longrightarrow> chan D A qs fl' \<Longrightarrow> chan D A (ps @ qs) (fl @ fl')"
proof (induction ps arbitrary: fl)
  case (Cons p ps)
  from Cons.prems(1) obtain f where f: "carries p f" "A f"
    "is_ackonly_frame f \<and> chan D A ps fl \<or> (\<exists>i fl'. fl = i # fl' \<and> D i f \<and> chan D A ps fl')" by auto
  then show ?case using Cons.IH Cons.prems(2) by (auto intro!: exI [of _ f])
qed simp

lemma chan_lose:
  assumes "chan D A (ps @ p # qs) fl"
  shows "chan D A (ps @ qs) fl \<or> (\<exists>xs i ys. fl = xs @ i # ys \<and> chan D A (ps @ qs) (xs @ ys))"
  using assms
proof (induction ps arbitrary: fl)
  case Nil
  then show ?case by (auto intro: exI [of _ "[]"])
next
  case (Cons q ps)
  then obtain f where f: "carries q f" "A f"
    "is_ackonly_frame f \<and> chan D A (ps @ p # qs) fl \<or>
      (\<exists>i fl'. fl = i # fl' \<and> D i f \<and> chan D A (ps @ p # qs) fl')" by auto
  from f(3) show ?case
  proof
    assume "is_ackonly_frame f \<and> chan D A (ps @ p # qs) fl"
    with Cons.IH [of fl] f(1,2) show ?thesis by auto
  next
    assume "\<exists>i fl'. fl = i # fl' \<and> D i f \<and> chan D A (ps @ p # qs) fl'"
    then obtain i fl' where i: "fl = i # fl'" "D i f" "chan D A (ps @ p # qs) fl'" by blast
    from Cons.IH [OF i(3)] show ?thesis
    proof
      assume "chan D A (ps @ qs) fl'"
      then show ?thesis using f(1,2) i(1,2) by auto
    next
      assume "\<exists>xs j ys. fl' = xs @ j # ys \<and> chan D A (ps @ qs) (xs @ ys)"
      then obtain xs j ys where "fl' = xs @ j # ys" "chan D A (ps @ qs) (xs @ ys)" by blast
      then show ?thesis using f(1,2) i(1,2) by (intro disjI2 exI [of _ "i # xs"] exI [of _ j] exI [of _ ys]) auto
    qed
  qed
qed

lemma chan_ackonly: "(\<And>p. p \<in> set ps \<Longrightarrow> \<exists>f. carries p f \<and> A f \<and> is_ackonly_frame f) \<Longrightarrow> chan D A ps []"
  by (induction ps) auto

lemma chan_data:
  "list_all2 (\<lambda>p i. \<exists>f. carries p f \<and> A f \<and> D i f) ps fl \<Longrightarrow> chan D A ps fl"
  by (induction rule: list_all2_induct) auto

section \<open>The system\<close>

text \<open>
  An endpoint with three histories: what every frame of its own said, the messages it has put into its TileLink buffer,
  and the messages it has taken from there and served.
\<close>

record side =
  side_ep :: tloe_endpoint_t
  side_sent :: "frame_info list"
  side_got :: "tl_msg_t list"
  side_served :: "tl_msg_t list"

record link =
  left_side :: side
  right_side :: side
  l2r :: "byte list list"
  r2l :: "byte list list"

definition swap :: "link \<Rightarrow> link" where
  "swap s = \<lparr>left_side = right_side s, right_side = left_side s, l2r = r2l s, r2l = l2r s\<rparr>"

definition new_packets :: "tloe_endpoint_t \<Rightarrow> tloe_endpoint_t \<Rightarrow> byte list list" where
  "new_packets e e' = drop (length (fabric_sent e)) (fabric_sent e')"

definition new_msgs :: "tloe_endpoint_t \<Rightarrow> tloe_endpoint_t \<Rightarrow> tl_msg_t list" where
  "new_msgs e e' = drop (length (queue_list (tl_msg_buffer e))) (queue_list (tl_msg_buffer e'))"

definition info_of :: "tloe_endpoint_t \<Rightarrow> tl_msg_t option \<Rightarrow> frame_info" where
  "info_of e mo = \<lparr>fr_msg = mo, fr_chan = select_max_credit_channel (fc e), fr_credit = announcement (fc e)\<rparr>"

lemma info_of_simps [simp]:
  "fr_msg (info_of e mo) = mo" "fr_chan (info_of e mo) = select_max_credit_channel (fc e)"
  "fr_credit (info_of e mo) = announcement (fc e)"
  by (simp_all add: info_of_def)

definition new_frame ::
  "tl_msg_t option \<Rightarrow> tl_msg_t option \<Rightarrow> tloe_endpoint_t \<Rightarrow> tloe_endpoint_t \<Rightarrow> frame_info list" where
  "new_frame req ret e e' = (if next_tx_seq e' = next_tx_seq e then [] else [info_of e (if ret = None then req else None)])"

text \<open>The steps of the left endpoint and of the channel it writes to; the right one's are the same, seen from the other side.\<close>

inductive link_step :: "link \<Rightarrow> link \<Rightarrow> bool" where
  Transmit: "\<lbrakk> TX env (side_ep (left_side s)) req = Inr (ret, e'); env_ok env; rbe_alloc env; req_ok req;
      \<forall>m. req = Some m \<longrightarrow> tlmsg_get_total_size m \<le> 40 \<rbrakk> \<Longrightarrow>
    link_step s (s\<lparr>left_side := (left_side s)\<lparr>side_ep := e',
        side_sent := side_sent (left_side s) @ new_frame req ret (side_ep (left_side s)) e'\<rparr>,
      l2r := l2r s @ new_packets (side_ep (left_side s)) e'\<rparr>)"
| Receive: "\<lbrakk> r2l s = p # ps; RX True (int (length p), p @ rest) (side_ep (left_side s)) = Inr e' \<rbrakk> \<Longrightarrow>
    link_step s (s\<lparr>left_side := (left_side s)\<lparr>side_ep := e',
        side_got := side_got (left_side s) @ new_msgs (side_ep (left_side s)) e'\<rparr>,
      l2r := l2r s @ new_packets (side_ep (left_side s)) e', r2l := ps\<rparr>)"
| Lose: "l2r s = ps @ p # qs \<Longrightarrow> link_step s (s\<lparr>l2r := ps @ qs\<rparr>)"
| Local: "local_work ms (side_ep (left_side s)) e' \<Longrightarrow>
    link_step s (s\<lparr>left_side := (left_side s)\<lparr>side_ep := e', side_served := side_served (left_side s) @ ms\<rparr>\<rparr>)"
| Other_Side: "link_step (swap s) s' \<Longrightarrow> link_step s (swap s')"

lemma swap_swap [simp]: "swap (swap s) = s"
  by (simp add: swap_def)

lemma swap_simps [simp]:
  "left_side (swap s) = right_side s" "right_side (swap s) = left_side s" "l2r (swap s) = r2l s" "r2l (swap s) = l2r s"
  by (simp_all add: swap_def)

text \<open>The histories only grow.\<close>

lemma link_step_grows:
  "link_step s s' \<Longrightarrow> prefix (side_sent (left_side s)) (side_sent (left_side s')) \<and>
    prefix (side_sent (right_side s)) (side_sent (right_side s'))"
  by (induction rule: link_step.induct) auto

end
