(* ===== verification/Delivery.thy ===== *)
theory Delivery
  imports Link
begin

text \<open>
  The link of two endpoints refines the go-back-N protocol in both directions.
\<close>

section \<open>The simulation relation\<close>

text \<open>The messages among the frames sent.\<close>

definition msgs :: "frame_info list \<Rightarrow> tl_msg_t list" where
  "msgs fs = concat (map (\<lambda>x. case fr_msg x of None \<Rightarrow> [] | Some m \<Rightarrow> [m]) fs)"

lemma msgs_simps [simp]:
  "msgs [] = []" "msgs (x # fs) = (case fr_msg x of None \<Rightarrow> [] | Some m \<Rightarrow> [m]) @ msgs fs" "msgs (fs @ gs) = msgs fs @ msgs gs"
  by (simp_all add: msgs_def)

text \<open>An element of the retransmit buffer holds frame \<open>i\<close>.\<close>

definition buffered :: "nat \<Rightarrow> frame_info list \<Rightarrow> int \<times> tloe_frame_t \<Rightarrow> nat \<Rightarrow> bool" where
  "buffered n0 sent key i \<longleftrightarrow> (\<exists>f. key = (8 + 8 * int (length (flits f)), padded f) \<and> 6 \<le> length (flits f) \<and>
     length (flits f) \<le> MAX_SIZE_FLIT \<and> frame_of n0 sent i f)"

definition sender_rel :: "nat \<Rightarrow> frame_info gbn \<Rightarrow> tloe_endpoint_t \<Rightarrow> bool" where
  "sender_rel n0 g e \<longleftrightarrow> next_tx_seq e = seq_of (n0 + length (g_sent g)) \<and>
     list_all2 (buffered n0 (g_sent g)) (map rbe_key (queue_list (retransmit_buffer e))) [g_base g..<length (g_sent g)]"

definition receiver_rel :: "nat \<Rightarrow> frame_info gbn \<Rightarrow> tl_msg_t list \<Rightarrow> tloe_endpoint_t \<Rightarrow> bool" where
  "receiver_rel n0 g got e \<longleftrightarrow> next_rx_seq e = seq_of (n0 + g_rcvd g) \<and> got = msgs (g_delivered g) \<and>
     (\<forall>af \<in> set (queue_list (ack_buffer e)). ack_num n0 (g_rcvd g) (h_seq_num_ack (f_header af)))"

text \<open>One direction: its sender \<open>X\<close>, its receiver \<open>Y\<close>, the channel \<open>ch\<close>, whose packets also carry acknowledgements \<open>A\<close>.\<close>

definition half :: "(frame_info gbn \<Rightarrow> bool) \<Rightarrow> nat \<Rightarrow> side \<Rightarrow> side \<Rightarrow> (tloe_frame_t \<Rightarrow> bool) \<Rightarrow> byte list list \<Rightarrow> frame_info gbn \<Rightarrow> bool" where
  "half I n0 X Y A ch g \<longleftrightarrow> g_sent g = side_sent X \<and> I g \<and> sender_rel n0 g (side_ep X) \<and>
     receiver_rel n0 g (side_got Y) (side_ep Y) \<and> chan (frame_of n0 (g_sent g)) A ch (g_flight g)"

definition link_rel :: "(frame_info gbn \<Rightarrow> bool) \<Rightarrow> (frame_info gbn \<Rightarrow> bool) \<Rightarrow> nat \<Rightarrow> nat \<Rightarrow> link \<Rightarrow> frame_info gbn \<Rightarrow> frame_info gbn \<Rightarrow> bool" where
  "link_rel I J n0 m0 s g h \<longleftrightarrow> ep_inv (side_ep (left_side s)) \<and> ep_inv (side_ep (right_side s)) \<and>
     half I n0 (left_side s) (right_side s) (acks m0 (g_rcvd h)) (l2r s) g \<and>
     half J m0 (right_side s) (left_side s) (acks n0 (g_rcvd g)) (r2l s) h"

lemma link_rel_swap: "link_rel I J n0 m0 s g h \<longleftrightarrow> link_rel J I m0 n0 (swap s) h g"
  by (auto simp: link_rel_def)

section \<open>Transmitting\<close>

lemma frame_of_take_padded [simp]: "(padded f)\<lparr>flits := take (length (flits f)) (flits (padded f))\<rparr> = f"
  by (simp add: padded_def)

lemma ackonly_packets_chan:
  assumes "\<forall>p \<in> set ps. ackonly_packet e p" "next_rx_seq e = seq_of (m0 + r)" "0 < m0"
  shows "chan D (acks m0 r) ps []"
proof (rule chan_ackonly)
  fix p assume "p \<in> set ps"
  then obtain f where f: "tloe_frame_to_packet f 56 = Inr p" "length (flits f) = MAX_SIZE_FLIT" "is_ackonly_frame f"
    "h_ack (f_header f) = 1" "h_seq_num_ack (f_header f) = ucast (tloe_seqnum_prev (next_rx_seq e))"
    using assms(1) by (auto simp: ackonly_packet_def)
  have "carries p (f\<lparr>flits := take 6 (flits f)\<rparr>)" using f(1,2) by (intro carries_take) simp_all
  then show "\<exists>f. carries p f \<and> acks m0 r f \<and> is_ackonly_frame f"
    using f(3-5) ack_num_prev [OF assms(3), of r] assms(2)
    by (intro exI [of _ "f\<lparr>flits := take 6 (flits f)\<rparr>"]) (simp add: acks_def is_ackonly_frame_def)
qed

lemma resend_packet_carries:
  assumes b: "buffered n0 sent (rbe_key el) i" and ok: "rbe_ok el"
    and rx: "next_rx_seq e = seq_of (m0 + r)" "0 < m0"
  shows "\<exists>f. carries (resend_packet e el) f \<and> acks m0 r f \<and> frame_of n0 sent i f"
proof -
  obtain f where f: "f_size el = 8 + 8 * int (length (flits f))" "tloe_frame el = padded f" "6 \<le> length (flits f)"
    "length (flits f) \<le> MAX_SIZE_FLIT" "frame_of n0 sent i f"
    using b by (auto simp: buffered_def rbe_key_def)
  let ?g = "f\<lparr>f_header := (f_header f)\<lparr>h_seq_num_ack := ucast (tloe_seqnum_prev (next_rx_seq e))\<rparr>\<rparr>"
  let ?F = "tloe_seqnum_set_seq_num_ack (padded f) e"
  have "carries (resend_packet e el) (?F\<lparr>flits := take (length (flits f)) (flits ?F)\<rparr>)"
    using resend_packet_Inr [OF ok, of e] f
    by (intro carries_take) (simp_all add: padded_def tloe_seqnum_set_seq_num_ack_def)
  moreover have "?F\<lparr>flits := take (length (flits f)) (flits ?F)\<rparr> = ?g"
    by (simp add: padded_def tloe_seqnum_set_seq_num_ack_def)
  moreover have "h_ack (f_header f) = 1" using f(5) by (simp add: frame_of_def)
  ultimately show ?thesis
    using f(5) ack_num_prev [OF rx(2), of r] rx(1) by (intro exI [of _ ?g]) (simp add: acks_def)
qed

lemma resent_chan:
  assumes inv: "ep_inv e" and s: "sender_rel n0 g e" and r: "resent e ps"
    and rx: "next_rx_seq e = seq_of (m0 + r)" "0 < m0"
  shows "\<exists>fl. fl \<in> {[], [g_base g..<length (g_sent g)]} \<and> chan (frame_of n0 (g_sent g)) (acks m0 r) ps fl \<and>
    (ps = map (resend_packet e) (queue_list (retransmit_buffer e)) \<longrightarrow> fl = [g_base g..<length (g_sent g)])"
proof (cases "ps = []")
  case True
  then show ?thesis using s by (intro exI [of _ "[]"]) (auto simp: sender_rel_def list_all2_Nil)
next
  case False
  let ?xs = "queue_list (retransmit_buffer e)"
  have ok: "\<forall>el \<in> set ?xs. rbe_ok el" using inv by (simp add: ep_inv_def)
  have "list_all2 (\<lambda>p i. \<exists>f. carries p f \<and> acks m0 r f \<and> frame_of n0 (g_sent g) i f)
      (map (resend_packet e) ?xs) [g_base g..<length (g_sent g)]"
    using s ok resend_packet_carries [OF _ _ rx]
    by (auto simp: sender_rel_def list_all2_conv_all_nth)
  then show ?thesis using r False by (auto intro: chan_data)
qed

lemma tx_ack_num_ok:
  assumes "next_rx_seq e = seq_of (m0 + r)" "0 < m0" "q_inv (ack_buffer e)"
    and "\<forall>af \<in> set (queue_list (ack_buffer e)). ack_num m0 r (h_seq_num_ack (f_header af))"
  shows "ack_num m0 r (tx_ack_num e)"
  using assms ack_num_prev [of m0 r] cq.peek_contents [OF assms(3)]
  by (auto simp: tx_ack_num_def split: option.splits list.splits)

lemma next_tx_seq_moves: "tloe_seqnum_next (seq_of n) \<noteq> seq_of n"
  using wire.tell_apart [of n 1 0] by (auto simp: seqnum_next_seq_of)

lemma prefix_new_packets: "fabric_sent e' = fabric_sent e @ ps \<Longrightarrow> new_packets e e' = ps"
  by (simp add: new_packets_def)

text \<open>What the environment of a simulation step sees of an endpoint that transmits.\<close>

lemma resend_steps:
  assumes "fl \<in> {[], [g_base g..<length (g_sent g)]}"
  shows "(gbn_step W)\<^sup>*\<^sup>* g (g\<lparr>g_flight := g_flight g @ fl\<rparr>)"
  using assms gbn_step.Resend [of W g] by auto

lemma TX_simulates_idle:
  assumes inv: "ep_inv e" and s: "sender_rel n0 g e"
    and rx: "next_rx_seq e = seq_of (m0 + r)" "0 < m0" and env: "env_ok env" "req_ok req"
    and plan: "tx_plan e req = None" and tx: "TX env e req = Inr (ret, e')"
  shows "\<exists>fl. (gbn_step W)\<^sup>*\<^sup>* g (g\<lparr>g_flight := g_flight g @ fl\<rparr>) \<and> new_frame req ret e e' = [] \<and>
    sender_rel n0 g e' \<and> chan (frame_of n0 (g_sent g)) (acks m0 r) (new_packets e e') fl \<and>
    (timed_out e \<longrightarrow> fl = [g_base g..<length (g_sent g)]) \<and>
    ep_inv e' \<and> next_rx_seq e' = next_rx_seq e \<and> ack_buffer e' = ack_buffer e"
proof -
  obtain ps0 ps where t: "ep_inv e'" "untouched e' = untouched e" "ack_buffer e' = ack_buffer e"
    "next_tx_seq e' = next_tx_seq e" "fabric_sent e' = fabric_sent e @ ps0 @ ps"
    "map rbe_key (queue_list (retransmit_buffer e')) = map rbe_key (queue_list (retransmit_buffer e))"
    "\<forall>p \<in> set ps0. ackonly_packet e p" "resent e ps"
    "timed_out e \<longrightarrow> ps = map (resend_packet e) (queue_list (retransmit_buffer e))"
    using TX_idle [OF inv env plan] tx by auto
  obtain fl where fl: "fl \<in> {[], [g_base g..<length (g_sent g)]}" "chan (frame_of n0 (g_sent g)) (acks m0 r) ps fl"
    "ps = map (resend_packet e) (queue_list (retransmit_buffer e)) \<longrightarrow> fl = [g_base g..<length (g_sent g)]"
    using resent_chan [OF inv s t(8) rx] by blast
  have "chan (frame_of n0 (g_sent g)) (acks m0 r) (ps0 @ ps) ([] @ fl)"
    using ackonly_packets_chan [OF t(7) rx] fl(2) by (rule chan_append)
  then show ?thesis
    using t s resend_steps [OF fl(1)] fl(3) prefix_new_packets [OF t(5)]
    by (intro exI [of _ fl]) (simp add: sender_rel_def new_frame_def untouched_def)
qed

text \<open>The frame that \<open>TX\<close> builds is the next data frame.\<close>

lemma new_frame_of:
  assumes hd: "f_header f = (normal_header e)\<lparr>h_seq_num_ack := w, h_chan := of_nat (select_max_credit_channel (fc e)),
      h_credit := of_nat (announcement (fc e))\<rparr>" and small: "announcement (fc e) < 32"
    and sz: "8 + 8 * int (length (flits f)) = tloe_get_fsize mo" "tloe_get_mask f (tloe_get_fsize mo) = Inr (if mo = None then 0 else 1)"
    and m: "\<forall>m. mo = Some m \<longrightarrow> tloe_get_tlmsg f 0 = Inr m"
    and seq: "next_tx_seq e = seq_of (n0 + length sent)"
  shows "frame_of n0 (sent @ [info_of e mo]) (length sent) f" "h_ack (f_header f) = 1" "h_seq_num_ack (f_header f) = w"
proof -
  have "unat (of_nat (select_max_credit_channel (fc e)) :: 3 word) = select_max_credit_channel (fc e)"
    "unat (of_nat (announcement (fc e)) :: 5 word) = announcement (fc e)"
    using select_max_credit_channel_spec(1) [of "fc e"] small by (simp_all add: unat_of_nat take_bit_nat_eq_self)
  then show "frame_of n0 (sent @ [info_of e mo]) (length sent) f" "h_ack (f_header f) = 1" "h_seq_num_ack (f_header f) = w"
    using sz m seq select_max_credit_channel_spec(1) [of "fc e"]
    by (simp_all add: frame_of_def hd normal_header_def zero_header_def is_ackonly_frame_def info_of_def)
qed

lemma buffered_mono: "buffered n0 sent key i \<Longrightarrow> buffered n0 (sent @ xs) key i"
  unfolding buffered_def using frame_of_mono by blast

lemma TX_simulates_send:
  assumes inv: "ep_inv e" and s: "sender_rel n0 g e" and g: "gbn_ok WINDOW_SIZE g"
    and rx: "next_rx_seq e = seq_of (m0 + r)" "0 < m0"
    and ab: "\<forall>af \<in> set (queue_list (ack_buffer e)). ack_num m0 r (h_seq_num_ack (f_header af))"
    and env: "env_ok env" "rbe_alloc env" "req_ok req" and small: "\<forall>m. req = Some m \<longrightarrow> tlmsg_get_total_size m \<le> 40"
    and plan: "tx_plan e req = Some mo" and tx: "TX env e req = Inr (ret, e')"
  shows "\<exists>fl. (gbn_step WINDOW_SIZE)\<^sup>*\<^sup>* g (g\<lparr>g_sent := g_sent g @ [info_of e mo], g_flight := g_flight g @ fl\<rparr>) \<and>
    new_frame req ret e e' = [info_of e mo] \<and> sender_rel n0 (g\<lparr>g_sent := g_sent g @ [info_of e mo]\<rparr>) e' \<and>
    chan (frame_of n0 (g_sent g @ [info_of e mo])) (acks m0 r) (new_packets e e') fl \<and>
    (timed_out e \<longrightarrow> fl = length (g_sent g) # [g_base g..<length (g_sent g @ [info_of e mo])]) \<and>
    ep_inv e' \<and> next_rx_seq e' = next_rx_seq e \<and> ack_buffer e' = snd (dequeue (ack_buffer e))"
proof -
  let ?n = "length (g_sent g)" and ?g1 = "g\<lparr>g_sent := g_sent g @ [info_of e mo], g_flight := g_flight g @ [length (g_sent g)]\<rparr>"
  obtain f p ps0 ps where t: "ret = (if mo = None then req else None)" "ep_inv e'" "untouched e' = untouched e"
    "ack_buffer e' = snd (dequeue (ack_buffer e))" "next_tx_seq e' = tloe_seqnum_next (next_tx_seq e)"
    "map rbe_key (queue_list (retransmit_buffer e')) =
      map rbe_key (queue_list (retransmit_buffer e)) @ [(tloe_get_fsize mo, padded f)]"
    "fabric_sent e' = fabric_sent e @ ps0 @ p # ps" "\<forall>p \<in> set ps0. ackonly_packet e p" "resent e' ps"
    "f_header f = (normal_header e)\<lparr>h_seq_num_ack := tx_ack_num e,
      h_chan := of_nat (select_max_credit_channel (fc e)), h_credit := of_nat (announcement (fc e))\<rparr>"
    "8 + 8 * int (length (flits f)) = tloe_get_fsize mo" "tloe_frame_to_packet f (tloe_get_fsize mo) = Inr p"
    "tloe_get_mask f (tloe_get_fsize mo) = Inr (if mo = None then 0 else 1)"
    "\<forall>m. mo = Some m \<longrightarrow> tlmsg_get_total_size m \<le> 40 \<longrightarrow> tloe_get_tlmsg f 0 = Inr m"
    "timed_out e \<longrightarrow> ps = map (resend_packet e') (queue_list (retransmit_buffer e'))" "announcement (fc e) < 32"
    using TX_sends [OF inv env plan] tx by auto
  have mo: "mo = None \<or> mo = req" using plan by (auto simp: tx_plan_def split: option.splits if_splits)
  then have m40: "\<forall>m. mo = Some m \<longrightarrow> tloe_get_tlmsg f 0 = Inr m" using t(14) small by auto
  have seq: "next_tx_seq e = seq_of (n0 + ?n)" using s by (simp add: sender_rel_def)
  note fr = new_frame_of [OF t(10,16,11,13) m40 seq]
  have "q_inv (ack_buffer e)" using inv by (simp add: ep_inv_def)
  then have a: "acks m0 r f" using fr(2,3) tx_ack_num_ok [OF rx _ ab] by (simp add: acks_def)
  have "tloe_get_fsize mo \<le> 528" "56 \<le> tloe_get_fsize mo"
    using env(3) mo tloe_get_fsize_bounds [of mo] by (auto simp: req_ok_def tloe_get_fsize_def split: option.splits)
  then have c: "carries p f" "6 \<le> length (flits f)" "length (flits f) \<le> MAX_SIZE_FLIT"
    using t(11,12) by (simp_all add: carries_def)
  have "buffered n0 (g_sent g @ [info_of e mo]) (tloe_get_fsize mo, padded f) ?n"
    using c(2,3) t(11) fr(1) unfolding buffered_def by (intro exI [of _ f]) simp
  moreover have "g_base g \<le> ?n" using g by (simp add: gbn_ok_def)
  ultimately have s1: "sender_rel n0 ?g1 e'"
    using s t(5,6) list_all2_mono [OF _ buffered_mono]
    by (auto simp: sender_rel_def seqnum_next_seq_of intro!: list_all2_appendI)
  have rx': "next_rx_seq e' = seq_of (m0 + r)" using t(3) rx(1) by (simp add: untouched_def)
  obtain fl where fl: "fl \<in> {[], [g_base ?g1..<length (g_sent ?g1)]}" "chan (frame_of n0 (g_sent ?g1)) (acks m0 r) ps fl"
    "ps = map (resend_packet e') (queue_list (retransmit_buffer e')) \<longrightarrow> fl = [g_base ?g1..<length (g_sent ?g1)]"
    using resent_chan [OF t(2) s1 t(9) rx' rx(2)] by blast
  have pfl: "chan (frame_of n0 (g_sent ?g1)) (acks m0 r) (ps0 @ p # ps) ([] @ ?n # fl)"
    using ackonly_packets_chan [OF t(8) rx] by (rule chan_append) (use c(1) a fr(1) fl(2) in auto)
  have nf: "q_len (retransmit_buffer e) < 4"
    using plan inv cq.full_iff [of "retransmit_buffer e"] cq.bound [of "retransmit_buffer e"]
    by (auto simp: tx_plan_def ep_inv_def split: if_splits)
  have "q_len (retransmit_buffer e) = ?n - g_base g"
    using s by (auto simp: sender_rel_def dest: list_all2_lengthD)
  then have "gbn_step WINDOW_SIZE g ?g1" using nf by (intro gbn_step.Send) simp
  also have "(gbn_step WINDOW_SIZE)\<^sup>*\<^sup>* ?g1 (?g1\<lparr>g_flight := g_flight ?g1 @ fl\<rparr>)" by (rule resend_steps [OF fl(1)])
  finally have st: "(gbn_step WINDOW_SIZE)\<^sup>*\<^sup>* g (g\<lparr>g_sent := g_sent g @ [info_of e mo], g_flight := g_flight g @ (?n # fl)\<rparr>)" by simp
  have "next_tx_seq e' \<noteq> next_tx_seq e" using t(5) seq next_tx_seq_moves by simp
  then have "new_frame req ret e e' = [info_of e mo]" using t(1) mo by (auto simp: new_frame_def)
  then show ?thesis
    using st s1 pfl prefix_new_packets [OF t(7)] t(2-4,15) fl(3)
    by (intro exI [of _ "?n # fl"]) (simp add: sender_rel_def untouched_def)
qed


section \<open>Receiving\<close>

text \<open>An acknowledgement moves the base of the window to what it acknowledges, or not at all.\<close>

lemma ack_simulates:
  assumes inv: "ep_inv e" and s: "sender_rel n0 g e" and g: "gbn_ok WINDOW_SIZE g" and n0: "0 < n0"
    and few: "length (g_sent g) < 2 ^ 20 - 1"
    and a: "ack_num n0 (g_rcvd g) w" and seq: "next_tx_seq e' = next_tx_seq e"
    and keys: "map rbe_key (queue_list (retransmit_buffer e')) =
      map rbe_key (unacked (ucast w) (queue_list (retransmit_buffer e)))"
  shows "\<exists>c \<le> g_rcvd g. sender_rel n0 (g\<lparr>g_base := max (g_base g) c\<rparr>) e'"
proof -
  let ?n = "length (g_sent g)" and ?xs = "queue_list (retransmit_buffer e)"
  obtain c where c: "c \<le> g_rcvd g" "ucast w = seq_of (n0 + c - 1)" using a by (auto simp: ack_num_def)
  have b: "g_base g \<le> ?n" "g_rcvd g \<le> ?n" using g by (simp_all add: gbn_ok_def)
  have s': "next_tx_seq e = seq_of (n0 + ?n)"
    "list_all2 (buffered n0 (g_sent g)) (map rbe_key ?xs) [g_base g..<?n]" using s by (simp_all add: sender_rel_def)
  have len: "q_len (retransmit_buffer e) = ?n - g_base g" using list_all2_lengthD [OF s'(2)] by simp
  have "unacked (ucast w) ?xs = drop (Suc (n0 + c - 1) - (n0 + ?n - q_len (retransmit_buffer e))) ?xs"
    unfolding c(2) by (rule unacked_drop [OF inv s'(1)]) (use few len c(1) b n0 in auto)
  also have "Suc (n0 + c - 1) - (n0 + ?n - q_len (retransmit_buffer e)) = c - g_base g" using len n0 b by simp
  finally have "map rbe_key (queue_list (retransmit_buffer e')) = drop (c - g_base g) (map rbe_key ?xs)"
    using keys by (simp add: drop_map)
  moreover have "[max (g_base g) c..<?n] = drop (c - g_base g) [g_base g..<?n]" by (simp add: max_def)
  ultimately have "sender_rel n0 (g\<lparr>g_base := max (g_base g) c\<rparr>) e'"
    using s'(1) seq list_all2_dropI [OF s'(2)] by (simp add: sender_rel_def)
  with c(1) show ?thesis by blast
qed

text \<open>A message that finds the TileLink buffer full ends the program.\<close>

lemma RX_frame_no_room:
  assumes inv: "ep_inv e" and type: "\<not> is_ackonly_frame f" and seq: "ucast (h_seq_num (f_header f)) = next_rx_seq e"
    and msk: "tloe_get_mask f n = Inr 1" and m: "tloe_get_tlmsg f 0 = Inr m"
    and full: "\<not> q_len (tl_msg_buffer e) < q_cap (tl_msg_buffer e)"
  shows "RX_frame e f n = Inl Exit_Failure"
proof -
  obtain e1 where e1: "rx_acked e f e1" using rx_acked_ex [OF inv] .
  note s = e1 [unfolded rx_acked_def]
  have q: "q_inv (tl_msg_buffer e1)" using inv s by (simp add: ep_inv_def)
  have "seq_wf (next_rx_seq e)" using inv by (simp add: ep_inv_def)
  then have "tloe_rx_get_req_type e1 f = REQ_NORMAL" using req_type_cases(1) [of e1 f] seq s by simp
  moreover have "deliver_loop f 1 0 (tl_msg_buffer e1) = Inl Exit_Failure"
    using deliver_loop_spec [OF q, of 1 f] m full s frame_msgs_1 [OF m] by simp
  ultimately show ?thesis
    using type msk
    by (simp add: RX_frame_acked [OF e1] is_zero_tl_frame_def serve_normal_request_def Let_def
        tloe_seqnum_update_next_rx_seq_def update_acked_seq_eq)
qed

lemma frame_msgs_sent:
  assumes "\<forall>m. fr_msg x = Some m \<longrightarrow> tloe_get_tlmsg f 0 = Inr m"
  shows "frame_msgs f (if fr_msg x = None then 0 else 1) = msgs [x]"
    "\<forall>i \<in> set (mask_bits (if fr_msg x = None then 0 else 1)). \<exists>m. tloe_get_tlmsg f i = Inr m"
  using assms frame_msgs_1 [of f] by (cases "fr_msg x"; simp add: frame_msgs_def)+

text \<open>What the receiver of a direction keeps when its endpoint changes nothing but the retransmit window.\<close>

lemma receiver_rel_cong:
  "receiver_rel n0 g got e \<Longrightarrow> next_rx_seq e' = next_rx_seq e \<Longrightarrow>
    set (queue_list (ack_buffer e')) \<subseteq> set (queue_list (ack_buffer e)) \<Longrightarrow> receiver_rel n0 g got e'"
  by (auto simp: receiver_rel_def)

lemma new_nothing: "fabric_sent e' = fabric_sent e \<Longrightarrow> new_packets e e' = []"
  "tl_msg_buffer e' = tl_msg_buffer e \<Longrightarrow> new_msgs e e' = []"
  by (simp_all add: new_packets_def new_msgs_def)

text \<open>The receive buffers only grow, by one element for each packet at most.\<close>

definition grows :: "tloe_endpoint_t \<Rightarrow> tloe_endpoint_t \<Rightarrow> bool" where
  "grows e e' \<longleftrightarrow> queue_list (tl_msg_buffer e') = queue_list (tl_msg_buffer e) @ new_msgs e e' \<and>
     length (new_msgs e e') \<le> 1 \<and> q_len (ack_buffer e') \<le> Suc (q_len (ack_buffer e)) \<and>
     q_cap (tl_msg_buffer e') = q_cap (tl_msg_buffer e) \<and> q_cap (ack_buffer e') = q_cap (ack_buffer e) \<and>
     fabric_sent e' = fabric_sent e"

lemma grows_len: "grows e e' \<Longrightarrow> q_len (tl_msg_buffer e') \<le> Suc (q_len (tl_msg_buffer e))"
  unfolding grows_def by (metis One_nat_def add_left_mono length_append length_queue_list plus_1_eq_Suc add.commute)

lemma length_msgs_1: "length (msgs [x]) \<le> 1"
  by (cases "fr_msg x") simp_all

text \<open>The credit on channel \<open>k\<close> that frames announce, and what a receiver makes of it.\<close>

definition gained :: "nat \<Rightarrow> frame_info list \<Rightarrow> nat" where
  "gained k fs = sum_list (map (\<lambda>x. if fr_chan x = k \<and> k \<noteq> 0 then 2 ^ fr_credit x else 0) fs)"

lemma gained_simps [simp]:
  "gained k [] = 0" "gained k (x # fs) = (if fr_chan x = k \<and> k \<noteq> 0 then 2 ^ fr_credit x else 0) + gained k fs"
  "gained k (fs @ gs) = gained k fs + gained k gs"
  by (simp_all add: gained_def)

definition takes_credit :: "frame_info list \<Rightarrow> tloe_endpoint_t \<Rightarrow> tloe_endpoint_t \<Rightarrow> bool" where
  "takes_credit fs e e' \<longleftrightarrow> tx_flow_credits (fc e') = tx_flow_credits (fc e) \<and>
     (\<forall>k < CHANNEL_NUM. credits (fc e') ! k = credits (fc e) ! k + of_nat (gained k fs))"

lemma takes_no_credit: "fc e' = fc e \<Longrightarrow> takes_credit [] e e'"
  by (simp add: takes_credit_def)

lemma frame_takes_credit:
  assumes "ep_inv e" "fc_credit_inc (fc e) (padded f) = Inr (r, fc e')" "frame_of m0 sent i f"
  shows "takes_credit [sent ! i] e e'"
proof -
  have "fc_wf (fc e)" "f_header (padded f) = f_header f" using assms(1) by (simp_all add: ep_inv_def padded_def)
  then show ?thesis
    using fc_credit_inc_gain [OF _ assms(2)] assms(3) by (auto simp: takes_credit_def frame_of_def)
qed

text \<open>The receiver's part of a data frame: in order it is delivered, otherwise it is answered.\<close>

lemma RX_data_simulates:
  assumes inv: "ep_inv e" and h: "gbn_ok WINDOW_SIZE h" and r: "receiver_rel m0 h got e" and m0: "0 < m0"
    and fl: "g_flight h = i # fl" and c: "carries p f" and d: "frame_of m0 (g_sent h) i f"
    and rx: "RX_frame e (padded f) (int (length p)) = Inr e'"
  shows "\<exists>h'. gbn_step WINDOW_SIZE h h' \<and> g_sent h' = g_sent h \<and> g_base h' = g_base h \<and>
    g_rcvd h' = (if i = g_rcvd h then Suc (g_rcvd h) else g_rcvd h) \<and> grows e e' \<and>
    takes_credit (if i = g_rcvd h then [g_sent h ! i] else []) e e' \<and> g_flight h' = fl \<and> receiver_rel m0 h' (got @ new_msgs e e') e' \<and> ep_inv e' \<and> next_tx_seq e' = next_tx_seq e \<and>
    fabric_sent e' = fabric_sent e \<and>
    map rbe_key (queue_list (retransmit_buffer e')) =
      map rbe_key (unacked (ucast (h_seq_num_ack (f_header f))) (queue_list (retransmit_buffer e)))"
proof -
  let ?n = "8 + 8 * int (length (flits f))" and ?x = "g_sent h ! i"
  have len: "6 \<le> length (flits f)" "length (flits f) \<le> MAX_SIZE_FLIT" "int (length p) = ?n"
    using c carries_decode(1) [OF c] by (simp_all add: carries_def)
  note pad = frame_of_padded [OF d len(1,2)]
  have hd: "f_header (padded f) = f_header f" by (simp add: padded_def)
  have ack: "h_ack (f_header f) \<noteq> 0" and sq: "ucast (h_seq_num (f_header f)) = seq_of (m0 + i)"
    and nr: "next_rx_seq e = seq_of (m0 + g_rcvd h)"
    using d r by (simp_all add: frame_of_def receiver_rel_def)
  have mem: "i \<in> set (g_flight h)" using fl by simp
  have iff: "seq_of (m0 + i) = seq_of (m0 + g_rcvd h) \<longleftrightarrow> i = g_rcvd h" by (rule wire.accept_iff [OF h mem])
  have fm: "frame_msgs (padded f) (if fr_msg ?x = None then 0 else 1) = msgs [?x]"
    "\<forall>i \<in> set (mask_bits (if fr_msg ?x = None then 0 else 1)). \<exists>m. tloe_get_tlmsg (padded f) i = Inr m"
    using pad(4) by (intro frame_msgs_sent; blast)+
  show ?thesis
  proof (cases "i = g_rcvd h")
    case True
    let ?h' = "h\<lparr>g_flight := fl, g_rcvd := Suc (g_rcvd h)\<rparr>"
    have seq: "ucast (h_seq_num (f_header (padded f))) = next_rx_seq e" using True sq nr hd by simp
    have room: "q_len (tl_msg_buffer e) + length (msgs [?x]) \<le> q_cap (tl_msg_buffer e)"
    proof (cases "fr_msg ?x")
      case None
      have "q_inv (tl_msg_buffer e)" using inv by (simp add: ep_inv_def)
      with None show ?thesis using cq.bound [of "tl_msg_buffer e"] by simp
    next
      case (Some m)
      then show ?thesis using RX_frame_no_room [OF inv pad(2) seq _ pad(4)] pad(3) rx len(3) by fastforce
    qed
    from RX_frame_in_order [OF inv pad(1,2) seq pad(3) fm(2)] fm(1) room rx len(3) hd ack
    have e': "ep_inv e'" "rx_untouched e' = rx_untouched e" "next_rx_seq e' = tloe_seqnum_next (next_rx_seq e)"
      "queue_list (tl_msg_buffer e') = queue_list (tl_msg_buffer e) @ msgs [?x]" "ack_buffer e' = ack_buffer e"
      "fabric_sent e' = fabric_sent e" "map rbe_key (queue_list (retransmit_buffer e')) =
        map rbe_key (unacked (ucast (h_seq_num_ack (f_header f))) (queue_list (retransmit_buffer e)))"
      "q_cap (tl_msg_buffer e') = q_cap (tl_msg_buffer e)" "\<exists>r. fc_credit_inc (fc e) (padded f) = Inr (r, fc e')"
      by (auto split del: if_split)
    have tc: "takes_credit [?x] e e'" using e'(9) frame_takes_credit [OF inv _ d] by blast
    have gr: "grows e e'" using e'(4-6,8) length_msgs_1 [of ?x] by (simp add: grows_def new_msgs_def)
    have "gbn_step WINDOW_SIZE h ?h'" using fl True by (intro gbn_step.Accept) simp
    moreover have "g_delivered ?h' = g_delivered h @ [?x]" using gbn_accept_delivers [of h fl] h fl True by (simp add: gbn_ok_def)
    then have "receiver_rel m0 ?h' (got @ new_msgs e e') e'"
      using r e'(3-5) nr ack_num_mono [of m0 "g_rcvd h" _ "Suc (g_rcvd h)"]
      by (auto simp: receiver_rel_def new_msgs_def seqnum_next_seq_of)
    ultimately show ?thesis using e' gr tc True by (intro exI [of _ ?h']) (simp add: rx_untouched_def)
  next
    case False
    let ?h' = "h\<lparr>g_flight := fl\<rparr>"
    have seq: "ucast (h_seq_num (f_header (padded f))) \<noteq> next_rx_seq e" using False sq nr hd iff by simp
    from RX_frame_out_of_order [OF inv pad(1,2) seq] rx len(3) hd ack
    have e': "ep_inv e'" "rx_untouched e' = rx_untouched e" "next_rx_seq e' = next_rx_seq e"
      "tl_msg_buffer e' = tl_msg_buffer e" "fabric_sent e' = fabric_sent e"
      "queue_list (ack_buffer e') = queue_list (ack_buffer e) @ [reply_frame e (padded f) ?n]"
      "map rbe_key (queue_list (retransmit_buffer e')) =
        map rbe_key (unacked (ucast (h_seq_num_ack (f_header f))) (queue_list (retransmit_buffer e)))"
      "q_cap (ack_buffer e') = q_cap (ack_buffer e)" "fc e' = fc e"
      by (auto split: if_splits)
    have tc: "takes_credit [] e e'" using e'(9) by (rule takes_no_credit)
    have gr: "grows e e'"
      using arg_cong [OF e'(6), of length] e'(4,5,8) new_nothing(2) [OF e'(4)] by (simp add: grows_def)
    have "g_rcvd h \<le> i + 4" "i \<le> g_rcvd h + 4" using h mem by (auto simp: gbn_ok_def)
    then have "tloe_seqnum_cmp (seq_of (m0 + i)) (seq_of (m0 + g_rcvd h)) = sgn (int (m0 + i) - int (m0 + g_rcvd h))"
      by (intro cmp_seq_of) auto
    then have "tloe_seqnum_cmp (seq_of (m0 + i)) (seq_of (m0 + g_rcvd h)) < 0 \<Longrightarrow> Suc i \<le> g_rcvd h"
      by (auto simp: sgn_if split: if_splits)
    then have "ack_num m0 (g_rcvd h) (reply_seq e (padded f))"
      using ack_num_prev [OF m0, of "g_rcvd h"] sq nr hd unfolding reply_seq_def ack_num_def by (auto intro!: exI [of _ "Suc i"])
    then have "receiver_rel m0 ?h' (got @ new_msgs e e') e'"
      using r e'(3,6) new_nothing(2) [OF e'(4)] by (auto simp: receiver_rel_def reply_frame_def g_delivered_def)
    moreover have "gbn_step WINDOW_SIZE h ?h'" using fl False by (intro gbn_step.Reject)
    ultimately show ?thesis using e' gr tc False by (intro exI [of _ ?h']) (simp add: rx_untouched_def)
  qed
qed

text \<open>The number of frames received after the frames \<open>fl\<close> have arrived.\<close>

fun recv_count :: "nat \<Rightarrow> nat list \<Rightarrow> nat" where
  "recv_count r [] = r"
| "recv_count r (i # fl) = recv_count (if i = r then Suc r else r) fl"

lemma recv_count_append: "recv_count r (xs @ ys) = recv_count (recv_count r xs) ys"
  by (induction xs arbitrary: r) auto

lemma recv_count_bound: "r \<le> n \<Longrightarrow> \<forall>i \<in> set fl. i < n \<Longrightarrow> r \<le> recv_count r fl \<and> recv_count r fl \<le> n"
proof (induction fl arbitrary: r)
  case (Cons i fl)
  show ?case using Cons.IH [of r] Cons.IH [of "Suc r"] Cons.prems by (cases "i = r") auto
qed simp

text \<open>Receiving the whole window from its base on completes it.\<close>

lemma recv_count_upt: "b \<le> r \<Longrightarrow> r \<le> n \<Longrightarrow> recv_count r [b..<n] = n"
proof (induction "n - b" arbitrary: b r)
  case (Suc k)
  then have "b < n" by simp
  with Suc show ?case by (simp add: upt_conv_Cons)
qed simp


lemma RX_simulates:
  assumes inv: "ep_inv e" and s: "sender_rel n0 g e" and g: "gbn_ok WINDOW_SIZE g"
    and r: "receiver_rel m0 h got e" and h: "gbn_ok WINDOW_SIZE h" and pos: "0 < n0" "0 < m0"
    and few: "length (g_sent g) < 2 ^ 20 - 1"
    and ch: "chan (frame_of m0 (g_sent h)) (acks n0 (g_rcvd g)) (p # ps) (g_flight h)"
    and rx: "RX True (int (length p), p @ rest) e = Inr e'"
  shows "\<exists>c h'. c \<le> g_rcvd g \<and> (gbn_step WINDOW_SIZE)\<^sup>*\<^sup>* h h' \<and> g_sent h' = g_sent h \<and> g_base h' = g_base h \<and> g_rcvd h \<le> g_rcvd h' \<and>
    recv_count (g_rcvd h') (g_flight h') = recv_count (g_rcvd h) (g_flight h) \<and> grows e e' \<and>
    takes_credit (drop (g_rcvd h) (take (g_rcvd h') (g_sent h))) e e' \<and>
    sender_rel n0 (g\<lparr>g_base := max (g_base g) c\<rparr>) e' \<and> receiver_rel m0 h' (got @ new_msgs e e') e' \<and>
    chan (frame_of m0 (g_sent h)) (acks n0 (g_rcvd g)) ps (g_flight h') \<and> new_packets e e' = [] \<and> ep_inv e'"
proof -
  obtain f where f: "carries p f" "acks n0 (g_rcvd g) f"
    "is_ackonly_frame f \<and> chan (frame_of m0 (g_sent h)) (acks n0 (g_rcvd g)) ps (g_flight h) \<or>
      (\<exists>i fl. g_flight h = i # fl \<and> frame_of m0 (g_sent h) i f \<and> chan (frame_of m0 (g_sent h)) (acks n0 (g_rcvd g)) ps fl)"
    using ch by auto
  have rxf: "RX_frame e (padded f) (int (length p)) = Inr e'"
    using RX_packet [OF inv _ carries_decode(2) [OF f(1), of rest]] rx by simp
  have hd: "f_header (padded f) = f_header f" by (simp add: padded_def)
  have an: "ack_num n0 (g_rcvd g) (h_seq_num_ack (f_header f))" "h_ack (f_header f) \<noteq> 0" using f(2) by (simp_all add: acks_def)
  note window = ack_simulates [OF inv s g pos(1) few an(1), of e']
  from f(3) show ?thesis
  proof
    assume a: "is_ackonly_frame f \<and> chan (frame_of m0 (g_sent h)) (acks n0 (g_rcvd g)) ps (g_flight h)"
    then have "is_ackonly_frame (padded f)" by (simp add: is_ackonly_frame_def padded_def)
    from RX_frame_ackonly [OF inv this, of "int (length p)"] rxf an(2) hd
    have e': "ep_inv e'" "rx_untouched e' = rx_untouched e" "ack_buffer e' = ack_buffer e" "tl_msg_buffer e' = tl_msg_buffer e"
      "next_rx_seq e' = next_rx_seq e" "fabric_sent e' = fabric_sent e" "map rbe_key (queue_list (retransmit_buffer e')) =
        map rbe_key (unacked (ucast (h_seq_num_ack (f_header f))) (queue_list (retransmit_buffer e)))" "fc e' = fc e" by auto
    then obtain c where c: "c \<le> g_rcvd g" "sender_rel n0 (g\<lparr>g_base := max (g_base g) c\<rparr>) e'"
      using window by (auto simp: rx_untouched_def)
    have "receiver_rel m0 h (got @ new_msgs e e') e'"
      using receiver_rel_cong [OF r e'(5)] e'(3) new_nothing(2) [OF e'(4)] by simp
    moreover have "grows e e'" using e'(3,4,6) new_nothing(2) [OF e'(4)] by (simp add: grows_def)
    ultimately show ?thesis
      using c a e'(1) takes_no_credit [OF e'(8)] new_nothing(1) [OF e'(6)] by (intro exI [of _ c] exI [of _ h]) simp
  next
    assume "\<exists>i fl. g_flight h = i # fl \<and> frame_of m0 (g_sent h) i f \<and> chan (frame_of m0 (g_sent h)) (acks n0 (g_rcvd g)) ps fl"
    then obtain i fl where i: "g_flight h = i # fl" "frame_of m0 (g_sent h) i f"
      "chan (frame_of m0 (g_sent h)) (acks n0 (g_rcvd g)) ps fl" by blast
    obtain h' where h': "gbn_step WINDOW_SIZE h h'" "g_sent h' = g_sent h"
      "g_rcvd h' = (if i = g_rcvd h then Suc (g_rcvd h) else g_rcvd h)" "g_flight h' = fl"
      "receiver_rel m0 h' (got @ new_msgs e e') e'" "ep_inv e'" "next_tx_seq e' = next_tx_seq e"
      "fabric_sent e' = fabric_sent e" "map rbe_key (queue_list (retransmit_buffer e')) =
        map rbe_key (unacked (ucast (h_seq_num_ack (f_header f))) (queue_list (retransmit_buffer e)))" "g_base h' = g_base h" "grows e e'"
      "takes_credit (if i = g_rcvd h then [g_sent h ! i] else []) e e'"
      using RX_data_simulates [OF inv h r pos(2) i(1) f(1) i(2) rxf] by blast
    from window [OF h'(7,9)] obtain c where "c \<le> g_rcvd g" "sender_rel n0 (g\<lparr>g_base := max (g_base g) c\<rparr>) e'" by blast
    moreover have "i < length (g_sent h)" using i(2) by (simp add: frame_of_def)
    then have "drop (g_rcvd h) (take (g_rcvd h') (g_sent h)) = (if i = g_rcvd h then [g_sent h ! i] else [])"
      using h'(3) by (simp add: take_Suc_conv_app_nth)
    ultimately show ?thesis
      using h' i(1,3) new_nothing(1) [OF h'(8)] by (intro exI [of _ c] exI [of _ h']) auto
  qed
qed

section \<open>The link\<close>

definition link_few :: "link \<Rightarrow> bool" where
  "link_few s \<longleftrightarrow> length (side_sent (left_side s)) < 2 ^ 20 - 1 \<and> length (side_sent (right_side s)) < 2 ^ 20 - 1"

lemma link_few_swap [simp]: "link_few (swap s) = link_few s"
  by (auto simp: link_few_def)

lemma sender_rel_flight [simp]: "sender_rel n0 (g\<lparr>g_flight := fl\<rparr>) e = sender_rel n0 g e"
  by (simp add: sender_rel_def)

lemma receiver_rel_sent:
  "gbn_ok W g \<Longrightarrow> receiver_rel n0 g got e \<Longrightarrow> receiver_rel n0 (g\<lparr>g_sent := g_sent g @ xs, g_flight := fl\<rparr>) got e"
  by (simp add: receiver_rel_def g_delivered_def gbn_ok_def)

lemma receiver_rel_window [simp]: "receiver_rel n0 (g\<lparr>g_base := b\<rparr>) got e = receiver_rel n0 g got e"
  "receiver_rel n0 (g\<lparr>g_flight := fl\<rparr>) got e = receiver_rel n0 g got e"
  by (simp_all add: receiver_rel_def g_delivered_def)

lemma TX_link:
  assumes safe: "gbn_safe WINDOW_SIZE I" "gbn_safe WINDOW_SIZE J" and rel: "link_rel I J n0 m0 s g h" and pos: "0 < n0" "0 < m0"
    and tx: "TX env (side_ep (left_side s)) req = Inr (ret, e')"
    and env: "env_ok env" "rbe_alloc env" "req_ok req" and small: "\<forall>m. req = Some m \<longrightarrow> tlmsg_get_total_size m \<le> 40"
  shows "\<exists>g'. (gbn_step WINDOW_SIZE)\<^sup>*\<^sup>* g g' \<and> g_rcvd g' = g_rcvd g \<and> g_base g' = g_base g \<and>
    (timed_out (side_ep (left_side s)) \<longrightarrow> (\<exists>pre. g_flight g' = pre @ [g_base g'..<length (g_sent g')])) \<and> link_rel I J n0 m0
    (s\<lparr>left_side := (left_side s)\<lparr>side_ep := e', side_sent := side_sent (left_side s) @ new_frame req ret (side_ep (left_side s)) e'\<rparr>,
      l2r := l2r s @ new_packets (side_ep (left_side s)) e'\<rparr>) g' h"
proof -
  let ?e = "side_ep (left_side s)" and ?D = "frame_of n0 (g_sent g)"
  have inv: "ep_inv ?e" and I: "I g" and sr: "sender_rel n0 g ?e"
    and snt: "g_sent g = side_sent (left_side s)" and ch: "chan ?D (acks m0 (g_rcvd h)) (l2r s) (g_flight g)"
    and rg: "receiver_rel n0 g (side_got (right_side s)) (side_ep (right_side s))"
    and rh: "receiver_rel m0 h (side_got (left_side s)) ?e"
    using rel by (auto simp: link_rel_def half_def)
  have rx: "next_rx_seq ?e = seq_of (m0 + g_rcvd h)"
    "\<forall>af \<in> set (queue_list (ack_buffer ?e)). ack_num m0 (g_rcvd h) (h_seq_num_ack (f_header af))"
    using rh by (simp_all add: receiver_rel_def)
  have q: "q_inv (ack_buffer ?e)" using inv by (simp add: ep_inv_def)
  have g: "gbn_ok WINDOW_SIZE g" using safe(1) I by (simp add: gbn_safe_def)
  show ?thesis
  proof (cases "tx_plan ?e req")
    case None
    from TX_simulates_idle [OF inv sr rx(1) pos(2) env(1,3) None tx, of WINDOW_SIZE]
    obtain fl where fl: "(gbn_step WINDOW_SIZE)\<^sup>*\<^sup>* g (g\<lparr>g_flight := g_flight g @ fl\<rparr>)" "new_frame req ret ?e e' = []"
      "sender_rel n0 g e'" "chan ?D (acks m0 (g_rcvd h)) (new_packets ?e e') fl" "ep_inv e'"
      "next_rx_seq e' = next_rx_seq ?e" "ack_buffer e' = ack_buffer ?e"
      "timed_out ?e \<longrightarrow> fl = [g_base g..<length (g_sent g)]" by blast
    show ?thesis
      using fl rel receiver_rel_cong [OF rh fl(6)] gbn_safe_reachable [OF safe(1) fl(1) I] chan_append [OF ch fl(4)]
      by (intro exI [of _ "g\<lparr>g_flight := g_flight g @ fl\<rparr>"]) (auto simp: link_rel_def half_def)
  next
    case (Some mo)
    from TX_simulates_send [OF inv sr g rx(1) pos(2) rx(2) env small Some tx] obtain fl where
      fl: "(gbn_step WINDOW_SIZE)\<^sup>*\<^sup>* g (g\<lparr>g_sent := g_sent g @ [info_of ?e mo], g_flight := g_flight g @ fl\<rparr>)"
      "new_frame req ret ?e e' = [info_of ?e mo]" "sender_rel n0 (g\<lparr>g_sent := g_sent g @ [info_of ?e mo]\<rparr>) e'"
      "chan (frame_of n0 (g_sent g @ [info_of ?e mo])) (acks m0 (g_rcvd h)) (new_packets ?e e') fl" "ep_inv e'"
      "next_rx_seq e' = next_rx_seq ?e" "ack_buffer e' = snd (dequeue (ack_buffer ?e))"
      "timed_out ?e \<longrightarrow> fl = length (g_sent g) # [g_base g..<length (g_sent g @ [info_of ?e mo])]" by blast
    let ?g' = "g\<lparr>g_sent := g_sent g @ [info_of ?e mo], g_flight := g_flight g @ fl\<rparr>"
    have "set (queue_list (ack_buffer e')) \<subseteq> set (queue_list (ack_buffer ?e))"
      using cq.deq_contents [OF q] fl(7) tail_subset by auto
    note rh' = receiver_rel_cong [OF rh fl(6) this]
    have "chan (frame_of n0 (g_sent g @ [info_of ?e mo])) (acks m0 (g_rcvd h)) (l2r s) (g_flight g)"
      using ch by (rule chan_mono [rotated 2]) (auto intro: frame_of_mono)
    note ch' = chan_append [OF this fl(4)]
    have "sender_rel n0 ?g' e'" using fl(3) by (simp add: sender_rel_def)
    moreover have "timed_out ?e \<longrightarrow> (\<exists>pre. g_flight ?g' = pre @ [g_base ?g'..<length (g_sent ?g')])"
      using fl(8) by (intro impI exI [of _ "g_flight g @ [length (g_sent g)]"]) simp
    ultimately show ?thesis
      using fl(1,2,5) rel rh' ch' gbn_safe_reachable [OF safe(1) fl(1) I] receiver_rel_sent [OF g rg]
      by (intro exI [of _ ?g']) (auto simp: link_rel_def half_def)
  qed
qed

lemma RX_link:
  assumes safe: "gbn_safe WINDOW_SIZE I" "gbn_safe WINDOW_SIZE J" and rel: "link_rel I J n0 m0 s g h" and pos: "0 < n0" "0 < m0" and few: "length (side_sent (left_side s)) < 2 ^ 20 - 1"
    and p: "r2l s = p # ps" and rx: "RX True (int (length p), p @ rest) (side_ep (left_side s)) = Inr e'"
  shows "\<exists>g' h'. (gbn_step WINDOW_SIZE)\<^sup>*\<^sup>* g g' \<and> (gbn_step WINDOW_SIZE)\<^sup>*\<^sup>* h h' \<and>
    recv_count (g_rcvd h') (g_flight h') = recv_count (g_rcvd h) (g_flight h) \<and> grows (side_ep (left_side s)) e' \<and>
    g_rcvd g' = g_rcvd g \<and> g_rcvd h \<le> g_rcvd h' \<and> takes_credit (drop (g_rcvd h) (take (g_rcvd h') (side_sent (right_side s)))) (side_ep (left_side s)) e' \<and> link_rel I J n0 m0
    (s\<lparr>left_side := (left_side s)\<lparr>side_ep := e', side_got := side_got (left_side s) @ new_msgs (side_ep (left_side s)) e'\<rparr>,
      l2r := l2r s @ new_packets (side_ep (left_side s)) e', r2l := ps\<rparr>) g' h'"
proof -
  let ?e = "side_ep (left_side s)"
  have inv: "ep_inv ?e" and I: "I g" "J h" and sr: "sender_rel n0 g ?e"
    and ch: "chan (frame_of n0 (g_sent g)) (acks m0 (g_rcvd h)) (l2r s) (g_flight g)"
      "chan (frame_of m0 (g_sent h)) (acks n0 (g_rcvd g)) (p # ps) (g_flight h)"
    and rh: "receiver_rel m0 h (side_got (left_side s)) ?e" and few': "length (g_sent g) < 2 ^ 20 - 1"
    using rel p few by (auto simp: link_rel_def half_def)
  have g: "gbn_ok WINDOW_SIZE g" "gbn_ok WINDOW_SIZE h" using safe I by (simp_all add: gbn_safe_def)
  from RX_simulates [OF inv sr g(1) rh g(2) pos few' ch(2) rx] obtain c h' where
    c: "c \<le> g_rcvd g" "(gbn_step WINDOW_SIZE)\<^sup>*\<^sup>* h h'" "g_sent h' = g_sent h" "g_rcvd h \<le> g_rcvd h'"
    "g_base h' = g_base h" "sender_rel n0 (g\<lparr>g_base := max (g_base g) c\<rparr>) e'"
    "receiver_rel m0 h' (side_got (left_side s) @ new_msgs ?e e') e'"
    "chan (frame_of m0 (g_sent h)) (acks n0 (g_rcvd g)) ps (g_flight h')" "new_packets ?e e' = []" "ep_inv e'"
    "recv_count (g_rcvd h') (g_flight h') = recv_count (g_rcvd h) (g_flight h)" "grows ?e e'"
    "takes_credit (drop (g_rcvd h) (take (g_rcvd h') (g_sent h))) ?e e'" by blast
  let ?g' = "g\<lparr>g_base := max (g_base g) c\<rparr>"
  have st: "gbn_step WINDOW_SIZE g ?g'" using c(1) by (rule gbn_step.Acknowledge)
  have "chan (frame_of n0 (g_sent g)) (acks m0 (g_rcvd h')) (l2r s) (g_flight g)"
    using ch(1) by (rule chan_mono [rotated 2]) (auto intro: acks_mono [OF _ c(4)])
  then have "link_rel I J n0 m0 (s\<lparr>left_side := (left_side s)\<lparr>side_ep := e', side_got := side_got (left_side s) @ new_msgs ?e e'\<rparr>,
      l2r := l2r s @ new_packets ?e e', r2l := ps\<rparr>) ?g' h'"
    using rel c gbn_safe_step [OF safe(1) st I(1)] gbn_safe_reachable [OF safe(2) c(2) I(2)]
    by (auto simp: link_rel_def half_def sender_rel_def)
  moreover have "g_rcvd ?g' = g_rcvd g" "g_sent h = side_sent (right_side s)" using rel by (simp_all add: link_rel_def half_def)
  ultimately show ?thesis using st c(2,4,11-13) by (intro exI [of _ ?g'] exI [of _ h']) auto
qed


lemma lose_link:
  assumes "gbn_safe WINDOW_SIZE I" "link_rel I J n0 m0 s g h" "l2r s = ps @ p # qs"
  shows "\<exists>g'. (gbn_step WINDOW_SIZE)\<^sup>*\<^sup>* g g' \<and> g_rcvd g' = g_rcvd g \<and> link_rel I J n0 m0 (s\<lparr>l2r := ps @ qs\<rparr>) g' h"
proof -
  have g: "I g" "chan (frame_of n0 (g_sent g)) (acks m0 (g_rcvd h)) (ps @ p # qs) (g_flight g)"
    using assms by (auto simp: link_rel_def half_def)
  from chan_lose [OF g(2)] show ?thesis
  proof
    assume "chan (frame_of n0 (g_sent g)) (acks m0 (g_rcvd h)) (ps @ qs) (g_flight g)"
    then show ?thesis using assms(2) by (intro exI [of _ g]) (auto simp: link_rel_def half_def)
  next
    assume "\<exists>xs i ys. g_flight g = xs @ i # ys \<and> chan (frame_of n0 (g_sent g)) (acks m0 (g_rcvd h)) (ps @ qs) (xs @ ys)"
    then obtain xs i ys where x: "g_flight g = xs @ i # ys"
      "chan (frame_of n0 (g_sent g)) (acks m0 (g_rcvd h)) (ps @ qs) (xs @ ys)" by blast
    have st: "gbn_step WINDOW_SIZE g (g\<lparr>g_flight := xs @ ys\<rparr>)" using x(1) by (rule gbn_step.Lose)
    show ?thesis
      using assms(2) x(2) r_into_rtranclp [of "gbn_step WINDOW_SIZE", OF st] gbn_safe_step [OF assms(1) st g(1)]
      by (intro exI [of _ "g\<lparr>g_flight := xs @ ys\<rparr>"]) (auto simp: link_rel_def half_def)
  qed
qed

lemma local_link:
  assumes "link_rel I J n0 m0 s g h" "local_work ms (side_ep (left_side s)) e'"
  shows "link_rel I J n0 m0 (s\<lparr>left_side := (left_side s)\<lparr>side_ep := e', side_served := side_served (left_side s) @ ms\<rparr>\<rparr>) g h"
  using assms by (auto simp: link_rel_def half_def sender_rel_def receiver_rel_def protocol_part_def local_work_def)

lemma link_simulates:
  assumes "link_step s s'" "gbn_safe WINDOW_SIZE I" "gbn_safe WINDOW_SIZE J" "link_rel I J n0 m0 s g h" "0 < n0" "0 < m0" "link_few s'"
  shows "\<exists>g' h'. (gbn_step WINDOW_SIZE)\<^sup>*\<^sup>* g g' \<and> (gbn_step WINDOW_SIZE)\<^sup>*\<^sup>* h h' \<and> link_rel I J n0 m0 s' g' h'"
  using assms
proof (induction arbitrary: I J n0 m0 g h rule: link_step.induct)
  case (Transmit env s req ret e')
  from TX_link [OF Transmit.prems(1-5) Transmit.hyps] show ?case by blast
next
  case (Receive s p ps rest e')
  have "length (side_sent (left_side s)) < 2 ^ 20 - 1" using Receive.prems(6) by (simp add: link_few_def)
  from RX_link [OF Receive.prems(1-5) this Receive.hyps] show ?case by blast
next
  case (Lose s ps p qs)
  from lose_link [OF Lose.prems(1,3) Lose.hyps] show ?case by blast
next
  case (Local ms s e')
  from local_link [OF Local.prems(3) Local.hyps] show ?case by blast
next
  case (Other_Side s s')
  have "link_rel J I m0 n0 (swap s) h g" using Other_Side.prems(3) by (simp add: link_rel_swap [of I J])
  from Other_Side.IH [OF Other_Side.prems(2,1) this Other_Side.prems(5,4)] Other_Side.prems(6) obtain g' h' where
    "(gbn_step WINDOW_SIZE)\<^sup>*\<^sup>* h g'" "(gbn_step WINDOW_SIZE)\<^sup>*\<^sup>* g h'" "link_rel J I m0 n0 s' g' h'" by auto
  then show ?case by (intro exI [of _ h'] exI [of _ g']) (simp add: link_rel_swap [of I J])
qed

text \<open>With the invariant of the protocol in both directions.\<close>

abbreviation link_sim :: "nat \<Rightarrow> nat \<Rightarrow> link \<Rightarrow> frame_info gbn \<Rightarrow> frame_info gbn \<Rightarrow> bool" where
  "link_sim \<equiv> link_rel (gbn_inv WINDOW_SIZE) (gbn_inv WINDOW_SIZE)"

text \<open>
  A link in step: nothing is in flight or unacknowledged, and each endpoint expects the other's next
  frame.
\<close>

definition link_start :: "link \<Rightarrow> bool" where
  "link_start s \<longleftrightarrow> ep_inv (side_ep (left_side s)) \<and> ep_inv (side_ep (right_side s)) \<and> l2r s = [] \<and> r2l s = [] \<and>
     (\<forall>X \<in> {left_side s, right_side s}. side_sent X = [] \<and> side_got X = [] \<and>
       queue_list (retransmit_buffer (side_ep X)) = [] \<and> queue_list (ack_buffer (side_ep X)) = []) \<and>
     next_rx_seq (side_ep (right_side s)) = next_tx_seq (side_ep (left_side s)) \<and>
     next_rx_seq (side_ep (left_side s)) = next_tx_seq (side_ep (right_side s))"

lemma link_rel_start:
  assumes "link_start s"
  obtains n0 m0 where "0 < n0" "0 < m0" "link_sim n0 m0 s gbn_start gbn_start"
proof -
  have big: "seq_of (unat x + 2 ^ 22) = x" if "seq_wf x" for x
    using seq_of_unat [OF that] by (simp add: seq_of_def)
  have wf: "seq_wf (next_rx_seq (side_ep (right_side s)))" "seq_wf (next_rx_seq (side_ep (left_side s)))"
    using assms by (metis link_start_def ep_inv_def)+
  show thesis
  proof (rule that)
    show "link_sim (unat (next_rx_seq (side_ep (right_side s))) + 2 ^ 22)
        (unat (next_rx_seq (side_ep (left_side s))) + 2 ^ 22) s gbn_start gbn_start"
      using assms big [OF wf(1)] big [OF wf(2)] gbn_inv_start [of WINDOW_SIZE]
      by (simp add: link_rel_def half_def sender_rel_def receiver_rel_def link_start_def gbn_start_def g_delivered_def)
  qed simp_all
qed

lemma link_few_mono: "link_step s s' \<Longrightarrow> link_few s' \<Longrightarrow> link_few s"
  using link_step_grows [of s s'] by (auto simp: link_few_def dest!: prefix_length_le)

lemma link_reachable:
  assumes "link_step\<^sup>*\<^sup>* s s'" "link_rel I J n0 m0 s g h" "0 < n0" "0 < m0" "link_few s'"
    and "gbn_safe WINDOW_SIZE I" "gbn_safe WINDOW_SIZE J"
  shows "\<exists>g' h'. (gbn_step WINDOW_SIZE)\<^sup>*\<^sup>* g g' \<and> (gbn_step WINDOW_SIZE)\<^sup>*\<^sup>* h h' \<and> link_rel I J n0 m0 s' g' h'"
proof (rule reachable_bounded [where P = link_few, OF assms(1) _ assms(5) link_few_mono])
  fix x y
  assume st: "link_step x y" "link_few y" and "\<exists>g' h'. (gbn_step WINDOW_SIZE)\<^sup>*\<^sup>* g g' \<and> (gbn_step WINDOW_SIZE)\<^sup>*\<^sup>* h h' \<and> link_rel I J n0 m0 x g' h'"
  then obtain g' h' where r: "(gbn_step WINDOW_SIZE)\<^sup>*\<^sup>* g g'" "(gbn_step WINDOW_SIZE)\<^sup>*\<^sup>* h h'" "link_rel I J n0 m0 x g' h'" by blast
  from link_simulates [OF st(1) assms(6,7) r(3) assms(3,4) st(2)] r(1,2)
  show "\<exists>g' h'. (gbn_step WINDOW_SIZE)\<^sup>*\<^sup>* g g' \<and> (gbn_step WINDOW_SIZE)\<^sup>*\<^sup>* h h' \<and> link_rel I J n0 m0 y g' h'"
    by (meson rtranclp_trans)
qed (use assms(2) in blast)

lemmas link_sim_reachable = link_reachable [OF _ _ _ _ _ gbn_safe_inv gbn_safe_inv]

lemma link_rel_delivery:
  assumes "link_sim n0 m0 s g h"
  shows "prefix (side_got (right_side s)) (msgs (side_sent (left_side s)))"
    "\<exists>k. k + 4 \<ge> length (side_sent (left_side s)) \<and> side_got (right_side s) = msgs (take k (side_sent (left_side s)))"
proof -
  have "side_got (right_side s) = msgs (take (g_rcvd g) (side_sent (left_side s)))" "length (side_sent (left_side s)) \<le> g_rcvd g + 4"
    using assms by (auto simp: link_rel_def half_def receiver_rel_def g_delivered_def gbn_inv_def)
  moreover have "prefix (msgs (take k xs)) (msgs xs)" for k xs
    by (metis append_take_drop_id msgs_simps(3) prefixI)
  ultimately show "prefix (side_got (right_side s)) (msgs (side_sent (left_side s)))"
    "\<exists>k. k + 4 \<ge> length (side_sent (left_side s)) \<and> side_got (right_side s) = msgs (take k (side_sent (left_side s)))"
    by auto
qed

section \<open>Recovery from loss\<close>

text \<open>A packet of the channel is never refused while the receiver's buffers have room.\<close>

lemma RX_possible:
  assumes inv: "ep_inv e" and r: "receiver_rel m0 h got e"
    and ch: "chan (frame_of m0 (g_sent h)) A (p # ps) (g_flight h)"
    and room: "q_len (tl_msg_buffer e) < q_cap (tl_msg_buffer e)" "q_len (ack_buffer e) < q_cap (ack_buffer e)"
  shows "\<exists>e'. RX True (int (length p), p @ rest) e = Inr e'"
proof -
  obtain f where f: "carries p f" "is_ackonly_frame f \<or> (\<exists>i. frame_of m0 (g_sent h) i f)" using ch by auto
  have rxf: "RX True (int (length p), p @ rest) e = RX_frame e (padded f) (int (length p))"
    using RX_packet [OF inv _ carries_decode(2) [OF f(1), of rest]] by simp
  have len: "6 \<le> length (flits f)" "length (flits f) \<le> MAX_SIZE_FLIT" "int (length p) = 8 + 8 * int (length (flits f))"
    using f(1) carries_decode(1) [OF f(1)] by (simp_all add: carries_def)
  from f(2) show ?thesis
  proof
    assume "is_ackonly_frame f"
    then have "is_ackonly_frame (padded f)" by (simp add: is_ackonly_frame_def padded_def)
    from RX_frame_ackonly [OF inv this] rxf show ?thesis by metis
  next
    assume "\<exists>i. frame_of m0 (g_sent h) i f"
    then obtain i where d: "frame_of m0 (g_sent h) i f" by blast
    note pad = frame_of_padded [OF d len(1,2)]
    let ?x = "g_sent h ! i"
    have fm: "frame_msgs (padded f) (if fr_msg ?x = None then 0 else 1) = msgs [?x]"
      "\<forall>i \<in> set (mask_bits (if fr_msg ?x = None then 0 else 1)). \<exists>m. tloe_get_tlmsg (padded f) i = Inr m"
      using pad(4) by (intro frame_msgs_sent; blast)+
    have fits: "q_len (tl_msg_buffer e) + length (frame_msgs (padded f) (if fr_msg ?x = None then 0 else 1)) \<le> q_cap (tl_msg_buffer e)"
      unfolding fm(1) using room(1) length_msgs_1 [of ?x] by simp
    have nf: "\<not> is_queue_full (ack_buffer e)"
      using room(2) inv cq.full_iff [of "ack_buffer e"] by (auto simp: ep_inv_def)
    show ?thesis
    proof (cases "ucast (h_seq_num (f_header (padded f))) = next_rx_seq e")
      case True
      from RX_frame_in_order [OF inv pad(1,2) True pad(3) fm(2) fits] rxf len(3) show ?thesis by (metis (no_types, lifting))
    next
      case False
      from RX_frame_out_of_order [OF inv pad(1,2) False] nf rxf len(3) show ?thesis by (metis (no_types, lifting))
    qed
  qed
qed

text \<open>An endpoint receives a list of packets, one after the other.\<close>

abbreviation receive_all :: "byte list list \<Rightarrow> tloe_endpoint_t \<Rightarrow> tloe_endpoint_t run" where
  "receive_all \<equiv> fold_run (\<lambda>p. RX True (int (length p), p))"

lemma grows_trans:
  assumes "grows e e1" "queue_list (tl_msg_buffer e2) = queue_list (tl_msg_buffer e1) @ new_msgs e1 e2"
  shows "queue_list (tl_msg_buffer e2) = queue_list (tl_msg_buffer e) @ new_msgs e e2"
    "new_msgs e e2 = new_msgs e e1 @ new_msgs e1 e2"
proof -
  have l: "queue_list (tl_msg_buffer e2) = queue_list (tl_msg_buffer e) @ new_msgs e e1 @ new_msgs e1 e2"
    using assms(1) by (simp only: assms(2) grows_def append_assoc)
  have "new_msgs e e2 = drop (length (queue_list (tl_msg_buffer e))) (queue_list (tl_msg_buffer e2))" by (rule new_msgs_def)
  also have "\<dots> = new_msgs e e1 @ new_msgs e1 e2" unfolding l by simp
  finally show "new_msgs e e2 = new_msgs e e1 @ new_msgs e1 e2" .
  with l show "queue_list (tl_msg_buffer e2) = queue_list (tl_msg_buffer e) @ new_msgs e e2" by simp
qed

lemma receive_all_ok:
  assumes "link_sim n0 m0 s g h" "0 < n0" "0 < m0" "length (side_sent (left_side s)) < 2 ^ 20 - 1"
    and "q_len (tl_msg_buffer (side_ep (left_side s))) + length (r2l s) \<le> q_cap (tl_msg_buffer (side_ep (left_side s)))"
    and "q_len (ack_buffer (side_ep (left_side s))) + length (r2l s) \<le> q_cap (ack_buffer (side_ep (left_side s)))"
  shows "\<exists>e' k. receive_all (r2l s) (side_ep (left_side s)) = Inr e' \<and>
    queue_list (tl_msg_buffer e') = queue_list (tl_msg_buffer (side_ep (left_side s))) @ new_msgs (side_ep (left_side s)) e' \<and>
    k = recv_count (g_rcvd h) (g_flight h) \<and>
    side_got (left_side s) @ new_msgs (side_ep (left_side s)) e' = msgs (take k (side_sent (right_side s)))"
  using assms
proof (induction "r2l s" arbitrary: s g h)
  case Nil
  then have "g_flight h = []" "side_got (left_side s) = msgs (take (g_rcvd h) (side_sent (right_side s)))"
    by (auto simp: link_rel_def half_def receiver_rel_def g_delivered_def)
  then show ?case using Nil.hyps by (simp add: new_msgs_def)
next
  case (Cons p ps)
  let ?e = "side_ep (left_side s)"
  note r2l = Cons.hyps(2) [symmetric]
  have x: "ep_inv ?e" "receiver_rel m0 h (side_got (left_side s)) ?e"
    "chan (frame_of m0 (g_sent h)) (acks n0 (g_rcvd g)) (p # ps) (g_flight h)"
    using Cons.prems(1) r2l by (auto simp: link_rel_def half_def)
  have room: "q_len (tl_msg_buffer ?e) < q_cap (tl_msg_buffer ?e)" "q_len (ack_buffer ?e) < q_cap (ack_buffer ?e)"
    using Cons.prems(5,6) r2l by auto
  obtain e1 where e1: "RX True (int (length p), p @ []) ?e = Inr e1" using RX_possible [OF x room] by blast
  let ?s = "s\<lparr>left_side := (left_side s)\<lparr>side_ep := e1, side_got := side_got (left_side s) @ new_msgs ?e e1\<rparr>, l2r := l2r s @ new_packets ?e e1, r2l := ps\<rparr>"
  from RX_link [OF gbn_safe_inv gbn_safe_inv Cons.prems(1-4) r2l e1] obtain g' h' where
    gh: "recv_count (g_rcvd h') (g_flight h') = recv_count (g_rcvd h) (g_flight h)" "grows ?e e1" "link_sim n0 m0 ?s g' h'" by blast
  have len: "q_len (tl_msg_buffer e1) \<le> Suc (q_len (tl_msg_buffer ?e))" "q_len (ack_buffer e1) \<le> Suc (q_len (ack_buffer ?e))"
    "q_cap (tl_msg_buffer e1) = q_cap (tl_msg_buffer ?e)" "q_cap (ack_buffer e1) = q_cap (ack_buffer ?e)"
    using grows_len [OF gh(2)] gh(2) by (simp_all add: grows_def)
  have "\<exists>e' k. receive_all (r2l ?s) (side_ep (left_side ?s)) = Inr e' \<and>
    queue_list (tl_msg_buffer e') = queue_list (tl_msg_buffer (side_ep (left_side ?s))) @ new_msgs (side_ep (left_side ?s)) e' \<and>
    k = recv_count (g_rcvd h') (g_flight h') \<and>
    side_got (left_side ?s) @ new_msgs (side_ep (left_side ?s)) e' = msgs (take k (side_sent (right_side ?s)))"
    using Cons.prems(2-6) gh(3) len r2l by (intro Cons.hyps(1)) auto
  then obtain e' where "receive_all ps e1 = Inr e'"
    "queue_list (tl_msg_buffer e') = queue_list (tl_msg_buffer e1) @ new_msgs e1 e'"
    "side_got (left_side s) @ new_msgs ?e e1 @ new_msgs e1 e' =
      msgs (take (recv_count (g_rcvd h) (g_flight h)) (side_sent (right_side s)))"
    using gh(1) by auto
  then show ?case using e1 r2l grows_trans [OF gh(2)] by (intro exI [of _ e']) simp
qed

section \<open>Properties\<close>

text \<open>
  C3: the endpoints implement go-back-N: in a link that starts in step, every run of \<open>TX\<close>, \<open>RX\<close>, local work and packet loss at both
  ends, in any order, is matched by runs of the abstract protocol in both directions that keep the simulation relation. (For
  up to about a million frames each way; sequence numbers may wrap.)
\<close>

theorem link_refines_go_back_n:
  assumes "link_start s" "link_step\<^sup>*\<^sup>* s s'" "link_few s'"
  shows "\<exists>n0 m0 g h. (gbn_step WINDOW_SIZE)\<^sup>*\<^sup>* gbn_start g \<and> (gbn_step WINDOW_SIZE)\<^sup>*\<^sup>* gbn_start h \<and> 0 < n0 \<and> 0 < m0 \<and>
    link_sim n0 m0 s' g h"
  using link_rel_start [OF assms(1)] link_sim_reachable [OF assms(2) _ _ _ assms(3)] by metis

text \<open>
  C6: one time-out repairs any loss: when the channel is empty and the oldest unacknowledged frame has timed out, then the packets
  of the next \<open>TX\<close>, received without loss by a peer that has room for them, bring the peer up to date: it has delivered
  every message ever sent, the one sent by this \<open>TX\<close> included.
\<close>

theorem timeout_recovers:
  assumes "link_start s0" "link_step\<^sup>*\<^sup>* s0 s" "link_few s" "l2r s = []" "timed_out (side_ep (left_side s))"
    and "TX env (side_ep (left_side s)) req = Inr (ret, e')" "env_ok env" "rbe_alloc env" "req_ok req"
    and "\<forall>m. req = Some m \<longrightarrow> tlmsg_get_total_size m \<le> 40"
    and "q_len (tl_msg_buffer (side_ep (right_side s))) + 7 \<le> q_cap (tl_msg_buffer (side_ep (right_side s)))"
    and "q_len (ack_buffer (side_ep (right_side s))) + 7 \<le> q_cap (ack_buffer (side_ep (right_side s)))"
  shows "\<exists>r. receive_all (new_packets (side_ep (left_side s)) e') (side_ep (right_side s)) = Inr r \<and>
    queue_list (tl_msg_buffer r) = queue_list (tl_msg_buffer (side_ep (right_side s))) @ new_msgs (side_ep (right_side s)) r \<and>
    side_got (right_side s) @ new_msgs (side_ep (right_side s)) r =
      msgs (side_sent (left_side s) @ new_frame req ret (side_ep (left_side s)) e')"
proof -
  let ?e = "side_ep (left_side s)"
  let ?s = "s\<lparr>left_side := (left_side s)\<lparr>side_ep := e', side_sent := side_sent (left_side s) @ new_frame req ret ?e e'\<rparr>, l2r := l2r s @ new_packets ?e e'\<rparr>"
  obtain n0 m0 where st: "0 < n0" "0 < m0" "link_sim n0 m0 s0 gbn_start gbn_start" using link_rel_start [OF assms(1)] .
  obtain g h where r: "link_sim n0 m0 s g h" using link_sim_reachable [OF assms(2) st(3,1,2) assms(3)] by blast
  have "ep_inv ?e" using r by (simp add: link_rel_def)
  from TX_at_most_seven [OF this assms(7-9,6)] have seven: "length (new_packets ?e e') \<le> 7" by (auto simp: new_packets_def)
  obtain g' where g': "\<exists>pre. g_flight g' = pre @ [g_base g'..<length (g_sent g')]" "link_sim n0 m0 ?s g' h"
    using TX_link [OF gbn_safe_inv gbn_safe_inv r st(1,2) assms(6-10)] assms(5) by blast
  then obtain pre where pre: "g_flight g' = pre @ [g_base g'..<length (g_sent g')]" by blast
  have b: "g_base g' \<le> g_rcvd g'" "g_rcvd g' \<le> length (g_sent g')" "\<forall>i \<in> set pre. i < length (g_sent g')"
    "g_sent g' = side_sent (left_side ?s)"
    using g'(2) pre by (auto simp: link_rel_def half_def gbn_inv_def)
  have "recv_count (g_rcvd g') (g_flight g') = length (g_sent g')"
    using recv_count_bound [OF b(2,3)] b(1) by (simp add: pre recv_count_append recv_count_upt)
  moreover have "link_sim m0 n0 (swap ?s) h g'" using g'(2) link_rel_swap by blast
  from receive_all_ok [OF this st(2,1)] assms(3,4,11,12) seven have
    "\<exists>e'' k. receive_all (new_packets ?e e') (side_ep (right_side s)) = Inr e'' \<and>
      queue_list (tl_msg_buffer e'') = queue_list (tl_msg_buffer (side_ep (right_side s))) @ new_msgs (side_ep (right_side s)) e'' \<and>
      k = recv_count (g_rcvd g') (g_flight g') \<and>
      side_got (right_side s) @ new_msgs (side_ep (right_side s)) e'' = msgs (take k (side_sent (left_side ?s)))"
    by (simp add: link_few_def)
  ultimately show ?thesis using b(4) by auto
qed

text \<open>
  C2: reliable delivery over a lossy channel: whatever is lost, repeated or delayed, the messages an endpoint has delivered are a
  prefix of the messages its peer handed to the protocol, in order, without gaps and duplicates, and at most the
  last four frames are missing.
\<close>

theorem link_delivers_in_order:
  assumes "link_start s" "link_step\<^sup>*\<^sup>* s s'" "link_few s'"
  shows "prefix (side_got (right_side s')) (msgs (side_sent (left_side s'))) \<and>
    prefix (side_got (left_side s')) (msgs (side_sent (right_side s'))) \<and>
    (\<exists>k. k + WINDOW_SIZE \<ge> length (side_sent (left_side s')) \<and>
      side_got (right_side s') = msgs (take k (side_sent (left_side s'))))"
proof -
  obtain n0 m0 where s: "0 < n0" "0 < m0" "link_sim n0 m0 s gbn_start gbn_start" using link_rel_start [OF assms(1)] .
  obtain g h where r: "link_sim n0 m0 s' g h" using link_sim_reachable [OF assms(2) s(3,1,2) assms(3)] by blast
  have "link_sim m0 n0 (swap s') h g" using r link_rel_swap by blast
  from link_rel_delivery(1) [OF this] link_rel_delivery [OF r] show ?thesis by simp
qed


section \<open>A run\<close>

text \<open>
  Two fresh endpoints. The left one sends a read request, the packet is lost, and time passes.
\<close>

definition sample_link :: link where
  "sample_link = (let X = \<lparr>side_ep = fresh_endpoint mq_fabric, side_sent = [], side_got = [], side_served = []\<rparr>
     in \<lparr>left_side = X, right_side = X, l2r = [], r2l = []\<rparr>)"

lemma link_start_sample: "link_start sample_link"
  using fresh_rx [of mq_fabric] by (simp add: link_start_def sample_link_def Let_def) (simp add: fresh_endpoint_def zero_endpoint_def)

lemma lose_all: "link_step\<^sup>*\<^sup>* s (s\<lparr>l2r := []\<rparr>)"
proof (induction "length (l2r s)" arbitrary: s)
  case 0
  then have "s\<lparr>l2r := []\<rparr> = s" by (cases s) simp
  then show ?case by simp
next
  case (Suc n)
  then obtain p ps where p: "l2r s = p # ps" by (cases "l2r s") auto
  have "link_step s (s\<lparr>l2r := [] @ ps\<rparr>)" by (rule link_step.Lose) (simp add: p)
  also have "link_step\<^sup>*\<^sup>* (s\<lparr>l2r := [] @ ps\<rparr>) (s\<lparr>l2r := [] @ ps\<rparr>\<lparr>l2r := []\<rparr>)"
    using Suc.hyps(2) p by (intro Suc.hyps(1)) simp
  finally show ?case by simp
qed

lemma sample_lost:
  obtains s where "link_step\<^sup>*\<^sup>* sample_link s" "link_few s" "l2r s = []" "timed_out (side_ep (left_side s))"
    "side_sent (left_side s) = [info_of (fresh_endpoint mq_fabric) (Some (sample_get 8))]" "right_side s = right_side sample_link"
    "ep_inv (side_ep (left_side s))"
proof -
  let ?e = "fresh_endpoint mq_fabric" and ?m = "sample_get 8"
  have small: "tlmsg_get_total_size ?m = 16"
    by (simp add: sample_get_def tlmsg_get_total_size_def tlmsg_get_header_size_def tlmsg_get_data_size_def tlmsg_get_chan_def
        tlmsg_get_opcode_def tlmsg_get_size_def header_log_def data_log_def int_of_shl_log zero_tl_header_def)
  have "tx_plan ?e (Some ?m) = Some (Some ?m)" using fresh_sends by (simp add: tx_plan_def)
  from TX_sends [OF ep_inv_fresh_mq sample_env_ok sample_req_ok this] obtain f e1 where
    e1: "TX sample_env ?e (Some ?m) = Inr (None, e1)" "ep_inv e1" "next_tx_seq e1 = tloe_seqnum_next (next_tx_seq ?e)"
    "map rbe_key (queue_list (retransmit_buffer e1)) = map rbe_key (queue_list (retransmit_buffer ?e)) @
      [(tloe_get_fsize (Some ?m), padded f)]" by auto
  then obtain x where x: "queue_list (retransmit_buffer e1) = [x]" using fresh_rx(7) by auto
  define e2 where "e2 = e1\<lparr>iteration_ts := \<lparr>tv_sec = \<bar>send_time x\<bar> + 1, tv_nsec = 0\<rparr>\<rparr>"
  have inv2: "ep_inv e2" using e1(2) by (simp add: e2_def ep_inv_def tx_window_def fabric_up_def)
  have to: "timed_out e2"
    using x by (simp add: timed_out_def e2_def is_timeout_tx_def get_current_timestamp_def)
  let ?L = "left_side sample_link"
  have ep: "side_ep ?L = ?e" by (simp add: sample_link_def Let_def)
  let ?s1 = "sample_link\<lparr>left_side := ?L\<lparr>side_ep := e1, side_sent := side_sent ?L @ new_frame (Some ?m) None (side_ep ?L) e1\<rparr>, l2r := l2r sample_link @ new_packets (side_ep ?L) e1\<rparr>"
  let ?s2 = "?s1\<lparr>l2r := []\<rparr>"
  let ?s3 = "?s2\<lparr>left_side := (left_side ?s2)\<lparr>side_ep := e2, side_served := side_served (left_side ?s2) @ []\<rparr>\<rparr>"
  have "link_step sample_link ?s1"
    by (rule link_step.Transmit) (use e1(1) ep sample_env_ok sample_req_ok small in auto)
  also have "link_step\<^sup>*\<^sup>* ?s1 ?s2" by (rule lose_all)
  also have "link_step ?s2 ?s3"
    by (rule link_step.Local, rule local_work_idle) (use inv2 in \<open>simp_all add: protocol_part_def e2_def\<close>)
  finally have run: "link_step\<^sup>*\<^sup>* sample_link ?s3" by simp
  have "next_tx_seq ?e = seq_of 0" by (simp add: fresh_endpoint_def zero_endpoint_def seq_of_def)
  then have "new_frame (Some ?m) None ?e e1 = [info_of ?e (Some ?m)]" using e1(3) next_tx_seq_moves by (simp add: new_frame_def)
  then have "side_sent (left_side ?s3) = [info_of ?e (Some ?m)]" using ep by (simp add: sample_link_def Let_def)
  then show thesis using that [OF run] to inv2 by (simp add: link_few_def) (simp add: sample_link_def Let_def)
qed

theorem link_refines_go_back_n_witness:
  "\<exists>s n0 m0 g h. link_step\<^sup>*\<^sup>* sample_link s \<and> side_sent (left_side s) = [info_of (fresh_endpoint mq_fabric) (Some (sample_get 8))] \<and>
    (gbn_step WINDOW_SIZE)\<^sup>*\<^sup>* gbn_start g \<and> (gbn_step WINDOW_SIZE)\<^sup>*\<^sup>* gbn_start h \<and> link_sim n0 m0 s g h"
  using link_refines_go_back_n [OF link_start_sample] sample_lost by metis

theorem link_delivers_in_order_witness:
  "\<exists>s. link_step\<^sup>*\<^sup>* sample_link s \<and> side_sent (left_side s) = [info_of (fresh_endpoint mq_fabric) (Some (sample_get 8))] \<and>
    prefix (side_got (right_side s)) [sample_get 8]"
proof -
  obtain s where "link_step\<^sup>*\<^sup>* sample_link s" "link_few s" "side_sent (left_side s) = [info_of (fresh_endpoint mq_fabric) (Some (sample_get 8))]"
    using sample_lost by metis
  with link_delivers_in_order [OF link_start_sample] show ?thesis by fastforce
qed

theorem timeout_recovers_witness:
  "\<exists>s e' ret r. link_step\<^sup>*\<^sup>* sample_link s \<and> l2r s = [] \<and> TX sample_env (side_ep (left_side s)) None = Inr (ret, e') \<and>
    receive_all (new_packets (side_ep (left_side s)) e') (side_ep (right_side s)) = Inr r \<and>
    queue_list (tl_msg_buffer r) = [sample_get 8]"
proof -
  obtain s where s: "link_step\<^sup>*\<^sup>* sample_link s" "link_few s" "l2r s = []" "timed_out (side_ep (left_side s))"
    "side_sent (left_side s) = [info_of (fresh_endpoint mq_fabric) (Some (sample_get 8))]" "right_side s = right_side sample_link"
    "ep_inv (side_ep (left_side s))" using sample_lost .
  obtain ret e' where tx: "TX sample_env (side_ep (left_side s)) None = Inr (ret, e')" "ret = None"
    using TX_result [OF s(7) sample_env_ok, of None] by (auto simp: req_ok_def)
  have r: "side_ep (right_side s) = fresh_endpoint mq_fabric" "side_got (right_side s) = []"
    using s(6) by (simp_all add: sample_link_def Let_def)
  have cap: "q_len (ack_buffer (fresh_endpoint mq_fabric)) = 0" "q_cap (ack_buffer (fresh_endpoint mq_fabric)) = 2047"
    by (simp_all add: fresh_endpoint_def)
  have "msgs (side_sent (left_side s) @ new_frame None ret (side_ep (left_side s)) e') = [sample_get 8]"
    using s(5) tx(2) by (simp add: new_frame_def)
  with timeout_recovers [OF link_start_sample s(1-4) tx(1) sample_env_ok] r cap fresh_rx(2-4) [of mq_fabric] s(1,3) tx(1)
  show ?thesis by (auto simp: req_ok_def)
qed


section \<open>The endpoint thread in the link\<close>

text \<open>What a pass of the loop finds in the fabric: the oldest packet of the channel, or nothing.\<close>

definition rx_from :: "byte list list \<Rightarrow> recv_result \<Rightarrow> bool" where
  "rx_from ps rx \<longleftrightarrow> (case ps of [] \<Rightarrow> fst rx < 0 | p # _ \<Rightarrow> \<exists>rest. rx = (int (length p), p @ rest))"

lemma local_run:
  assumes "local_work ms (side_ep (left_side s)) e'"
  shows "link_step\<^sup>*\<^sup>* s (s\<lparr>left_side := (left_side s)\<lparr>side_ep := e', side_served := side_served (left_side s) @ ms\<rparr>\<rparr>)"
  using link_step.Local [OF assms] by blast

lemma receive_run:
  assumes "rx_from (r2l s) rx" "ep_inv (side_ep (left_side s))" "RX True rx (side_ep (left_side s)) = Inr e'"
  shows "\<exists>s'. link_step\<^sup>*\<^sup>* s s' \<and> side_ep (left_side s') = e' \<and> right_side s' = right_side s \<and> r2l s' = tl (r2l s)"
proof (cases "r2l s")
  case Nil
  have "fabric_up (side_ep (left_side s))" using assms(2) by (simp add: ep_inv_def)
  then have "e' = side_ep (left_side s)"
    using assms(1,3) Nil by (cases rx) (simp add: rx_from_def RX_def tloe_fabric_recv_up)
  then show ?thesis using Nil by auto
next
  case (Cons p ps)
  then obtain rest where "RX True (int (length p), p @ rest) (side_ep (left_side s)) = Inr e'"
    using assms(1,3) by (auto simp: rx_from_def)
  from r_into_rtranclp [of link_step, OF link_step.Receive [OF Cons this]] Cons show ?thesis
    by (intro exI conjI) (assumption, simp_all)
qed



end
