(* ===== verification/Credit_Link.thy ===== *)
theory Credit_Link
  imports Delivery
begin

text \<open>
  Flow control across the link. The credit an endpoint holds on a channel, what it has spent there, what
  the frames it received announced and what its peer still owes add up, whatever is lost or sent again. It
  follows that the messages waiting in a TileLink buffer never take more flits than the credit granted at the
  start, and that the overflow exit of \<open>RX\<close> is never taken.
\<close>

section \<open>Flits and credit on a channel\<close>

lemma flits_on_simps [simp]:
  "flits_on k [] = 0" "flits_on k (ms @ ms') = flits_on k ms + flits_on k ms'"
  "flits_on k (m # ms) = (if nat (tlmsg_get_chan m) = k then nat (tlmsg_get_flits_cnt m) else 0) + flits_on k ms"
  by (simp_all add: flits_on_def)

lemma flits_on_prefix: "prefix xs ys \<Longrightarrow> flits_on k xs \<le> flits_on k ys"
  by (auto simp: prefix_def)

lemma gained_take: "gained k (take r fs) \<le> gained k fs"
  by (metis append_take_drop_id gained_simps(3) le_add1)

lemma gained_take_split:
  assumes "r \<le> r'"
  shows "gained k (take r' fs) = gained k (take r fs) + gained k (drop r (take r' fs))"
  using assms by (metis append_take_drop_id gained_simps(3) min_absorb1 take_take)

lemma unat_add_of_nat:
  fixes w :: u32
  assumes "unat w + n < 2 ^ 32"
  shows "unat (w + of_nat n) = unat w + n"
  using assms by (subst unat_add_lem [THEN iffD1]) (simp_all add: unat_of_nat take_bit_nat_eq_self)

section \<open>The ledger of one direction\<close>

text \<open>
  Messages go from \<open>X\<close> to \<open>Y\<close>, which was granted \<open>c0 k\<close> flits on channel \<open>k\<close>; \<open>X\<close> has received the first \<open>r\<close> of
  the frames of \<open>Y\<close>. What \<open>X\<close> holds and has spent is what it was granted and has received; what \<open>Y\<close> owes and
  has announced is what it has served; and what \<open>Y\<close> has delivered but not served is in its TileLink buffer, which holds
  \<open>b\<close> messages.
\<close>

abbreviation channels :: "nat set" where
  "channels \<equiv> {1..5}"

definition sendable :: "tl_msg_t \<Rightarrow> bool" where
  "sendable m \<longleftrightarrow> nat (tlmsg_get_chan m) \<in> channels \<and> 0 < tlmsg_get_flits_cnt m"

definition ledger :: "nat \<Rightarrow> (nat \<Rightarrow> nat) \<Rightarrow> side \<Rightarrow> side \<Rightarrow> nat \<Rightarrow> bool" where
  "ledger b c0 X Y r \<longleftrightarrow>
     (\<forall>k \<in> channels. c0 k < 2 ^ 32 \<and>
        unat (credits (fc (side_ep X)) ! k) + flits_on k (msgs (side_sent X)) = c0 k + gained k (take r (side_sent Y)) \<and>
        unat (tx_flow_credits (fc (side_ep Y)) ! k) + gained k (side_sent Y) = flits_on k (side_served Y)) \<and>
     side_got Y = side_served Y @ queue_list (tl_msg_buffer (side_ep Y)) \<and> (\<forall>m \<in> set (msgs (side_sent X)). sendable m) \<and>
     q_cap (tl_msg_buffer (side_ep Y)) = b"

text \<open>The consequence, with what the link delivers: nothing is announced or owed beyond the grant.\<close>

lemma ledger_bounds:
  assumes l: "ledger b c0 X Y r" and p: "prefix (side_got Y) (msgs (side_sent X))" and k: "k \<in> channels"
  shows "unat (credits (fc (side_ep X)) ! k) + flits_on k (queue_list (tl_msg_buffer (side_ep Y))) \<le> c0 k"
    "flits_on k (msgs (side_sent X)) \<le> c0 k + gained k (side_sent Y)"
    "gained k (side_sent Y) \<le> flits_on k (msgs (side_sent X))"
proof -
  note bd = l [unfolded ledger_def, THEN conjunct1, rule_format, OF k]
  have "flits_on k (side_got Y) \<le> flits_on k (msgs (side_sent X))" by (rule flits_on_prefix [OF p])
  then have g: "flits_on k (side_served Y) + flits_on k (queue_list (tl_msg_buffer (side_ep Y))) \<le> flits_on k (msgs (side_sent X))"
    using l by (simp add: ledger_def)
  have t: "gained k (take r (side_sent Y)) \<le> gained k (side_sent Y)" by (rule gained_take)
  show "unat (credits (fc (side_ep X)) ! k) + flits_on k (queue_list (tl_msg_buffer (side_ep Y))) \<le> c0 k"
    using bd g t by linarith
  show "flits_on k (msgs (side_sent X)) \<le> c0 k + gained k (side_sent Y)" using bd t by linarith
  show "gained k (side_sent Y) \<le> flits_on k (msgs (side_sent X))" using bd g by linarith
qed

section \<open>The steps keep the ledger\<close>

text \<open>What \<open>TX\<close> does to the flow control.\<close>

lemma TX_flow:
  assumes inv: "ep_inv e" and env: "env_ok env" "rbe_alloc env" "req_ok req" and tx: "TX env e req = Inr (ret, e')"
    and seq: "next_tx_seq e = seq_of n" and k: "k \<in> channels"
  shows "unat (credits (fc e') ! k) + flits_on k (msgs (new_frame req ret e e')) = unat (credits (fc e) ! k)"
    "unat (tx_flow_credits (fc e') ! k) + gained k (new_frame req ret e e') = unat (tx_flow_credits (fc e) ! k)"
    "\<forall>m \<in> set (msgs (new_frame req ret e e')). sendable m" "tl_msg_buffer e' = tl_msg_buffer e"
proof -
  have wf: "fc_wf (fc e)" using inv by (simp add: ep_inv_def)
  have "unat (credits (fc e') ! k) + flits_on k (msgs (new_frame req ret e e')) = unat (credits (fc e) ! k) \<and>
    unat (tx_flow_credits (fc e') ! k) + gained k (new_frame req ret e e') = unat (tx_flow_credits (fc e) ! k) \<and>
    (\<forall>m \<in> set (msgs (new_frame req ret e e')). sendable m) \<and> tl_msg_buffer e' = tl_msg_buffer e"
  proof (cases "tx_plan e req")
    case None
    from TX_idle [OF inv env(1,3) None] tx show ?thesis by (auto simp: new_frame_def untouched_def)
  next
    case (Some mo)
    from TX_sends [OF inv env Some] tx have t: "ret = (if mo = None then req else None)" "untouched e' = untouched e"
      "credits (fc e') = credits (tx_spent e mo)" "tx_flow_credits (fc e') = owed_after (fc e)"
      "next_tx_seq e' = tloe_seqnum_next (next_tx_seq e)" by auto
    have mo: "mo = None \<or> mo = req \<and> (\<forall>m. mo = Some m \<longrightarrow> \<not> dec_refused (fc e) m)"
      using Some by (auto simp: tx_plan_def split: option.splits if_splits)
    have nf: "new_frame req ret e e' = [info_of e mo]"
      using t(1,5) mo seq next_tx_seq_moves by (auto simp: new_frame_def)
    have owed: "unat (tx_flow_credits (fc e') ! k) + gained k [info_of e mo] = unat (tx_flow_credits (fc e) ! k)"
      using owed_after_ledger [OF wf, of k] t(4) k by (cases "k = select_max_credit_channel (fc e)") auto
    show ?thesis
    proof (cases mo)
      case None
      then show ?thesis using nf t(2,3) owed by (simp add: tx_spent_def untouched_def)
    next
      case (Some m)
      let ?c = "nat (tlmsg_get_chan m)"
      have m: "msg_ok m" "?c < CHANNEL_NUM" "\<not> dec_refused (fc e) m" using env(3) mo Some by (auto simp: req_ok_def)
      have snd: "sendable m"
        using m flits_cnt_bounds(1) [of m] by (auto simp: sendable_def dec_refused_def Let_def msg_ok_def tlmsg_get_flits_cnt_alt)
      have "unat (credits (fc e') ! k) = unat (credits (fc e) ! k) - (if ?c = k then nat (tlmsg_get_flits_cnt m) else 0)"
        using fc_spend_credits [OF wf m(2,3)] t(3) Some by (auto simp: tx_spent_def) (simp add: fc_spend_def)
      moreover have "nat (tlmsg_get_flits_cnt m) \<le> unat (credits (fc e) ! ?c)"
        using m(3) by (auto simp: dec_refused_def Let_def)
      ultimately show ?thesis using nf Some owed snd t(2) by (auto simp: untouched_def)
    qed
  qed
  then show "unat (credits (fc e') ! k) + flits_on k (msgs (new_frame req ret e e')) = unat (credits (fc e) ! k)"
    "unat (tx_flow_credits (fc e') ! k) + gained k (new_frame req ret e e') = unat (tx_flow_credits (fc e) ! k)"
    "\<forall>m \<in> set (msgs (new_frame req ret e e')). sendable m" "tl_msg_buffer e' = tl_msg_buffer e" by blast+
qed

definition link_flow ::
  "nat \<Rightarrow> (nat \<Rightarrow> nat) \<Rightarrow> (nat \<Rightarrow> nat) \<Rightarrow> nat \<Rightarrow> nat \<Rightarrow> link \<Rightarrow> frame_info gbn \<Rightarrow> frame_info gbn \<Rightarrow> bool" where
  "link_flow b c0 d0 n0 m0 s g h \<longleftrightarrow> link_sim n0 m0 s g h \<and>
     ledger b c0 (left_side s) (right_side s) (g_rcvd h) \<and> ledger b d0 (right_side s) (left_side s) (g_rcvd g)"

lemma link_flow_swap: "link_flow b c0 d0 n0 m0 s g h \<longleftrightarrow> link_flow b d0 c0 m0 n0 (swap s) h g"
  using link_rel_swap by (auto simp: link_flow_def)

lemma link_flow_facts:
  assumes "link_flow b c0 d0 n0 m0 s g h"
  shows "prefix (side_got (right_side s)) (msgs (side_sent (left_side s)))"
    "prefix (side_got (left_side s)) (msgs (side_sent (right_side s)))"
    "g_rcvd g \<le> length (side_sent (left_side s))" "next_tx_seq (side_ep (left_side s)) = seq_of (n0 + length (side_sent (left_side s)))"
    "ep_inv (side_ep (left_side s))"
proof -
  have r: "link_sim n0 m0 s g h" using assms by (simp add: link_flow_def)
  then have "link_sim m0 n0 (swap s) h g" using link_rel_swap by blast
  from link_rel_delivery(1) [OF this] link_rel_delivery(1) [OF r]
  show "prefix (side_got (right_side s)) (msgs (side_sent (left_side s)))"
    "prefix (side_got (left_side s)) (msgs (side_sent (right_side s)))" by simp_all
  show "g_rcvd g \<le> length (side_sent (left_side s))" "next_tx_seq (side_ep (left_side s)) = seq_of (n0 + length (side_sent (left_side s)))"
    "ep_inv (side_ep (left_side s))"
    using r by (auto simp: link_rel_def half_def sender_rel_def gbn_inv_def)
qed

lemma flow_transmit:
  assumes f: "link_flow b c0 d0 n0 m0 s g h" and pos: "0 < n0" "0 < m0"
    and tx: "TX env (side_ep (left_side s)) req = Inr (ret, e')" "env_ok env" "rbe_alloc env" "req_ok req"
      "\<forall>m. req = Some m \<longrightarrow> tlmsg_get_total_size m \<le> 40"
  shows "\<exists>g'. link_flow b c0 d0 n0 m0 (s\<lparr>left_side := (left_side s)\<lparr>side_ep := e',
      side_sent := side_sent (left_side s) @ new_frame req ret (side_ep (left_side s)) e'\<rparr>,
    l2r := l2r s @ new_packets (side_ep (left_side s)) e'\<rparr>) g' h"
proof -
  let ?e = "side_ep (left_side s)"
  have r: "link_sim n0 m0 s g h" using f by (simp add: link_flow_def)
  note fact = link_flow_facts [OF f]
  obtain g' where g': "g_rcvd g' = g_rcvd g" "link_sim n0 m0 (s\<lparr>left_side := (left_side s)\<lparr>side_ep := e',
      side_sent := side_sent (left_side s) @ new_frame req ret ?e e'\<rparr>, l2r := l2r s @ new_packets ?e e'\<rparr>) g' h"
    using TX_link [OF gbn_safe_inv gbn_safe_inv r pos tx] by blast
  note tf = TX_flow [OF fact(5) tx(2-4,1) fact(4)]
  have "(1::nat) \<in> channels" by simp
  note snd = tf(3,4) [OF this]
  let ?X = "(left_side s)\<lparr>side_ep := e', side_sent := side_sent (left_side s) @ new_frame req ret ?e e'\<rparr>"
  have lg: "ledger b c0 (left_side s) (right_side s) (g_rcvd h)" "ledger b d0 (right_side s) (left_side s) (g_rcvd g)"
    using f by (simp_all add: link_flow_def)
  note bal = lg [unfolded ledger_def, THEN conjunct1, rule_format]
  have "unat (credits (fc e') ! k) + flits_on k (msgs (side_sent ?X)) = c0 k + gained k (take (g_rcvd h) (side_sent (right_side s)))"
    "unat (tx_flow_credits (fc e') ! k) + gained k (side_sent ?X) = flits_on k (side_served (left_side s))" if "k \<in> channels" for k
    using tf(1,2) [OF that] bal(1,2) [OF that] by simp_all
  then have "ledger b c0 ?X (right_side s) (g_rcvd h)" "ledger b d0 (right_side s) ?X (g_rcvd g)"
    using lg snd fact(3) by (auto simp: ledger_def simp del: gained_simps)
  then show ?thesis using g' by (intro exI [of _ g']) (simp add: link_flow_def)
qed

lemma flow_receive:
  assumes f: "link_flow b c0 d0 n0 m0 s g h" and pos: "0 < n0" "0 < m0" and few: "length (side_sent (left_side s)) < 2 ^ 20 - 1"
    and p: "r2l s = p # ps" and rx: "RX True (int (length p), p @ rest) (side_ep (left_side s)) = Inr e'"
  shows "\<exists>g' h'. link_flow b c0 d0 n0 m0 (s\<lparr>left_side := (left_side s)\<lparr>side_ep := e',
      side_got := side_got (left_side s) @ new_msgs (side_ep (left_side s)) e'\<rparr>,
    l2r := l2r s @ new_packets (side_ep (left_side s)) e', r2l := ps\<rparr>) g' h' \<and> fabric_sent e' = fabric_sent (side_ep (left_side s))"
proof -
  let ?e = "side_ep (left_side s)" and ?Y = "right_side s"
  have r: "link_sim n0 m0 s g h" and lg: "ledger b c0 (left_side s) ?Y (g_rcvd h)" "ledger b d0 ?Y (left_side s) (g_rcvd g)"
    using f by (simp_all add: link_flow_def)
  obtain g' h' where gh: "grows ?e e'" "g_rcvd g' = g_rcvd g" "g_rcvd h \<le> g_rcvd h'"
    "takes_credit (drop (g_rcvd h) (take (g_rcvd h') (side_sent ?Y))) ?e e'"
    "link_sim n0 m0 (s\<lparr>left_side := (left_side s)\<lparr>side_ep := e', side_got := side_got (left_side s) @ new_msgs ?e e'\<rparr>,
      l2r := l2r s @ new_packets ?e e', r2l := ps\<rparr>) g' h'"
    using RX_link [OF gbn_safe_inv gbn_safe_inv r pos few p rx] by blast
  let ?X = "(left_side s)\<lparr>side_ep := e', side_got := side_got (left_side s) @ new_msgs ?e e'\<rparr>"
  have "unat (credits (fc e') ! k) = unat (credits (fc ?e) ! k) + gained k (drop (g_rcvd h) (take (g_rcvd h') (side_sent ?Y)))"
    if k: "k \<in> channels" for k
  proof -
    note bd = ledger_bounds(3) [OF lg(1) link_flow_facts(1) [OF f] k] gained_take [of k "g_rcvd h'" "side_sent ?Y"]
      gained_take_split [OF gh(3), of k "side_sent ?Y"] lg(1) [unfolded ledger_def, THEN conjunct1, rule_format, OF k]
    have "unat (credits (fc ?e) ! k) + gained k (drop (g_rcvd h) (take (g_rcvd h') (side_sent ?Y))) < 2 ^ 32"
      using bd by linarith
    from unat_add_of_nat [OF this] show ?thesis using gh(4) k by (simp add: takes_credit_def)
  qed
  then have "ledger b c0 ?X ?Y (g_rcvd h')"
    using lg(1) gained_take_split [OF gh(3)] by (auto simp: ledger_def)
  moreover have "ledger b d0 ?Y ?X (g_rcvd g)"
    using lg(2) gh(1,4) by (auto simp: ledger_def grows_def takes_credit_def)
  ultimately show ?thesis using gh(1,2,5) by (intro exI [of _ g'] exI [of _ h']) (simp add: link_flow_def grows_def)
qed

lemma flow_local:
  assumes f: "link_flow b c0 d0 n0 m0 s g h" and w: "local_work ms (side_ep (left_side s)) e'"
  shows "link_flow b c0 d0 n0 m0 (s\<lparr>left_side := (left_side s)\<lparr>side_ep := e', side_served := side_served (left_side s) @ ms\<rparr>\<rparr>) g h"
proof -
  let ?e = "side_ep (left_side s)" and ?Y = "right_side s"
    and ?X = "(left_side s)\<lparr>side_ep := e', side_served := side_served (left_side s) @ ms\<rparr>"
  have r: "link_sim n0 m0 s g h" and lg: "ledger b c0 (left_side s) ?Y (g_rcvd h)" "ledger b d0 ?Y (left_side s) (g_rcvd g)"
    using f by (simp_all add: link_flow_def)
  have q: "queue_list (tl_msg_buffer ?e) = ms @ queue_list (tl_msg_buffer e')" using w by (simp add: local_work_def)
  have "unat (tx_flow_credits (fc e') ! k) = unat (tx_flow_credits (fc ?e) ! k) + flits_on k ms" if k: "k \<in> channels" for k
  proof -
    note bd = ledger_bounds(2) [OF lg(2) link_flow_facts(2) [OF f] k] lg(2) [unfolded ledger_def, THEN conjunct1, rule_format, OF k]
      flits_on_prefix [OF link_flow_facts(2) [OF f], of k]
    have "flits_on k (side_got (left_side s)) = flits_on k (side_served (left_side s)) + flits_on k ms + flits_on k (queue_list (tl_msg_buffer e'))"
      using lg(2) q by (simp add: ledger_def)
    then have "unat (tx_flow_credits (fc ?e) ! k) + flits_on k ms < 2 ^ 32" using bd by linarith
    from unat_add_of_nat [OF this] show ?thesis using w k by (simp add: local_work_def)
  qed
  then have "ledger b d0 ?Y ?X (g_rcvd g)" using lg(2) q w by (auto simp: ledger_def local_work_def)
  moreover have "ledger b c0 ?X ?Y (g_rcvd h)" using lg(1) w by (auto simp: ledger_def local_work_def)
  ultimately show ?thesis using local_link [OF r w] by (simp add: link_flow_def)
qed

lemma link_flow_step:
  assumes "link_step s s'" "link_flow b c0 d0 n0 m0 s g h" "0 < n0" "0 < m0" "link_few s'"
  shows "\<exists>g' h'. link_flow b c0 d0 n0 m0 s' g' h'"
  using assms
proof (induction arbitrary: c0 d0 n0 m0 g h rule: link_step.induct)
  case (Transmit env s req ret e')
  from flow_transmit [OF Transmit.prems(1-3) Transmit.hyps] show ?case by blast
next
  case (Receive s p ps rest e')
  have "length (side_sent (left_side s)) < 2 ^ 20 - 1" using Receive.prems(4) by (simp add: link_few_def)
  from flow_receive [OF Receive.prems(1-3) this Receive.hyps] show ?case by blast
next
  case (Lose s ps p qs)
  have r: "link_sim n0 m0 s g h" using Lose.prems(1) by (simp add: link_flow_def)
  obtain g' where "g_rcvd g' = g_rcvd g" "link_sim n0 m0 (s\<lparr>l2r := ps @ qs\<rparr>) g' h"
    using lose_link [OF gbn_safe_inv r Lose.hyps] by blast
  then show ?case using Lose.prems(1) by (intro exI [of _ g'] exI [of _ h]) (simp add: link_flow_def)
next
  case (Local ms s e')
  from flow_local [OF Local.prems(1) Local.hyps] show ?case by blast
next
  case (Other_Side s s')
  have "link_flow b d0 c0 m0 n0 (swap s) h g" using Other_Side.prems(1) link_flow_swap by blast
  from Other_Side.IH [OF this Other_Side.prems(3,2)] Other_Side.prems(4) obtain g' h' where
    "link_flow b d0 c0 m0 n0 s' g' h'" by auto
  then show ?case using link_flow_swap [of b d0 c0 m0 n0 s'] by blast
qed

lemma link_flow_reachable:
  assumes "link_step\<^sup>*\<^sup>* s s'" "link_flow b c0 d0 n0 m0 s g h" "0 < n0" "0 < m0" "link_few s'"
  shows "\<exists>g' h'. link_flow b c0 d0 n0 m0 s' g' h'"
  by (rule reachable_bounded [where P = link_few and I = "\<lambda>s. \<exists>g h. link_flow b c0 d0 n0 m0 s g h", OF assms(1) _ assms(5)])
    (use assms(2-4) link_few_mono link_flow_step in blast)+

section \<open>The start\<close>

text \<open>A link in step in which nothing is owed and nothing waits to be served.\<close>

definition flow_start :: "link \<Rightarrow> bool" where
  "flow_start s \<longleftrightarrow> link_start s \<and> (\<forall>X \<in> {left_side s, right_side s}. side_served X = [] \<and>
     queue_list (tl_msg_buffer (side_ep X)) = [] \<and> (\<forall>k \<in> channels. tx_flow_credits (fc (side_ep X)) ! k = 0))"

abbreviation credit_of :: "side \<Rightarrow> nat \<Rightarrow> nat" where
  "credit_of X k \<equiv> unat (credits (fc (side_ep X)) ! k)"

lemma flow_start_ledger:
  assumes "flow_start s" "\<forall>X \<in> {left_side s, right_side s}. q_cap (tl_msg_buffer (side_ep X)) = b"
  obtains n0 m0 where "0 < n0" "0 < m0"
    "link_flow b (credit_of (left_side s)) (credit_of (right_side s)) n0 m0 s gbn_start gbn_start"
proof -
  have st: "link_start s" using assms(1) by (simp add: flow_start_def)
  obtain n0 m0 where n: "0 < n0" "0 < m0" "link_sim n0 m0 s gbn_start gbn_start" using link_rel_start [OF st] .
  have w: "unat (w :: u32) < 2 ^ 32" for w using unsigned_less [of w, where 'a = nat] by simp
  have "ledger b (credit_of X) X Y 0" if "X \<in> {left_side s, right_side s}" "Y \<in> {left_side s, right_side s}" for X Y
    using that assms(1,2) st w by (auto simp: ledger_def flow_start_def link_start_def)
  then show thesis using n by (intro that) (simp_all add: link_flow_def gbn_start_def)
qed

lemma length_flits:
  assumes "\<forall>m \<in> set ms. sendable m"
  shows "length ms \<le> (\<Sum>k \<in> channels. flits_on k ms)"
  using assms
proof (induction ms)
  case (Cons m ms)
  have "(\<Sum>k \<in> channels. if nat (tlmsg_get_chan m) = k then nat (tlmsg_get_flits_cnt m) else 0) = nat (tlmsg_get_flits_cnt m)"
    using Cons.prems by (simp add: sendable_def sum.delta')
  moreover have "0 < nat (tlmsg_get_flits_cnt m)" using Cons.prems by (simp add: sendable_def)
  ultimately show ?case using Cons by (simp add: sum.distrib)
qed simp

text \<open>With 1024 credits on each of the five channels a TileLink buffer never holds more than 5120 messages.\<close>

lemma flow_bounds:
  assumes f: "link_flow b c0 d0 n0 m0 s g h" and c: "\<forall>k \<in> channels. c0 k \<le> 1024"
  shows "\<forall>k \<in> channels. credit_of (left_side s) k + flits_on k (queue_list (tl_msg_buffer (side_ep (right_side s)))) \<le> c0 k"
    "q_len (tl_msg_buffer (side_ep (right_side s))) \<le> 5120" "q_cap (tl_msg_buffer (side_ep (right_side s))) = b"
proof -
  let ?Y = "side_ep (right_side s)"
  have lg: "ledger b c0 (left_side s) (right_side s) (g_rcvd h)" using f by (simp add: link_flow_def)
  note pre = link_flow_facts(1) [OF f]
  show bound: "\<forall>k \<in> channels. credit_of (left_side s) k + flits_on k (queue_list (tl_msg_buffer ?Y)) \<le> c0 k"
    using ledger_bounds(1) [OF lg pre] by blast
  have "set (queue_list (tl_msg_buffer ?Y)) \<subseteq> set (side_got (right_side s))" using lg by (auto simp: ledger_def)
  also have "\<dots> \<subseteq> set (msgs (side_sent (left_side s)))" by (rule set_mono_prefix [OF pre])
  finally have "q_len (tl_msg_buffer ?Y) \<le> (\<Sum>k \<in> channels. flits_on k (queue_list (tl_msg_buffer ?Y)))"
    using length_flits [of "queue_list (tl_msg_buffer ?Y)"] lg by (auto simp: ledger_def)
  also have "\<dots> \<le> (\<Sum>k \<in> channels. 1024)" using bound c by (intro sum_mono) (meson add_leE le_trans)
  finally show "q_len (tl_msg_buffer ?Y) \<le> 5120" by simp
  show "q_cap (tl_msg_buffer ?Y) = b" using lg by (simp add: ledger_def)
qed

section \<open>Properties\<close>

text \<open>
  C4: flow control works across a lossy link: from a link in step in which nothing is owed, with at most 1024 credits on each channel (what
  the handshake grants), in every run of \<open>TX\<close>, \<open>RX\<close>, serving and loss at both ends the flits waiting in the TileLink buffer of an endpoint
  and the credit its peer still holds never exceed the initial credit, channel by channel. So at most 5120 messages wait in a buffer
  for 9999, and \<open>RX\<close> never ends the program with a buffer overflow: it accepts whatever packet is next, unless its
  acknowledgement buffer is full.
\<close>

theorem flow_control_prevents_overflow:
  assumes "flow_start s" "link_step\<^sup>*\<^sup>* s s'" "link_few s'"
    and "\<forall>X \<in> {left_side s, right_side s}. q_cap (tl_msg_buffer (side_ep X)) = 9999"
    and "\<forall>k \<in> channels. credit_of (left_side s) k \<le> 1024"
  shows "(\<forall>k \<in> channels. credit_of (left_side s') k + flits_on k (queue_list (tl_msg_buffer (side_ep (right_side s')))) \<le>
      credit_of (left_side s) k) \<and> q_len (tl_msg_buffer (side_ep (right_side s'))) \<le> 5120 \<and>
    (\<forall>p ps rest. l2r s' = p # ps \<longrightarrow> \<not> is_queue_full (ack_buffer (side_ep (right_side s'))) \<longrightarrow>
      (\<exists>e'. RX True (int (length p), p @ rest) (side_ep (right_side s')) = Inr e'))"
proof -
  let ?Y = "side_ep (right_side s')" and ?c0 = "credit_of (left_side s)"
  obtain n0 m0 where n: "0 < n0" "0 < m0" "link_flow 9999 ?c0 (credit_of (right_side s)) n0 m0 s gbn_start gbn_start"
    using flow_start_ledger [OF assms(1,4)] .
  obtain g h where f: "link_flow 9999 ?c0 (credit_of (right_side s)) n0 m0 s' g h"
    using link_flow_reachable [OF assms(2) n(3,1,2) assms(3)] by blast
  note bound = flow_bounds [OF f assms(5)]
  have sim: "link_sim n0 m0 s' g h" using f by (simp add: link_flow_def)
  have r: "ep_inv ?Y" "receiver_rel n0 g (side_got (right_side s')) ?Y"
    "chan (frame_of n0 (g_sent g)) (acks m0 (g_rcvd h)) (l2r s') (g_flight g)"
    using sim by (auto simp: link_rel_def half_def)
  have "\<exists>e'. RX True (int (length p), p @ rest) ?Y = Inr e'"
    if "l2r s' = p # ps" "\<not> is_queue_full (ack_buffer ?Y)" for p ps rest
  proof (rule RX_possible [OF r(1,2)])
    show "chan (frame_of n0 (g_sent g)) (acks m0 (g_rcvd h)) (p # ps) (g_flight g)" using r(3) that(1) by simp
    show "q_len (tl_msg_buffer ?Y) < q_cap (tl_msg_buffer ?Y)" using bound(2,3) by simp
    have "q_inv (ack_buffer ?Y)" using r(1) by (simp add: ep_inv_def)
    then show "q_len (ack_buffer ?Y) < q_cap (ack_buffer ?Y)" using that(2) cq.not_full_iff by fastforce
  qed
  then show ?thesis using bound(1,2) by blast
qed

lemma flow_start_sample: "flow_start sample_link" "\<forall>X \<in> {left_side sample_link, right_side sample_link}. q_cap (tl_msg_buffer (side_ep X)) = 9999"
  "\<forall>k \<in> channels. credit_of (left_side sample_link) k = 128"
  using link_start_sample
  by (auto simp: flow_start_def) (auto simp: sample_link_def Let_def fresh_endpoint_def initial_fc_def zero_flowcontrol_def)

theorem flow_control_prevents_overflow_witness:
  "\<exists>s. link_step\<^sup>*\<^sup>* sample_link s \<and> side_sent (left_side s) = [info_of (fresh_endpoint mq_fabric) (Some (sample_get 8))] \<and>
    credit_of (left_side s) 1 + flits_on 1 (queue_list (tl_msg_buffer (side_ep (right_side s)))) \<le> 128 \<and>
    q_len (tl_msg_buffer (side_ep (right_side s))) \<le> 5120"
proof -
  obtain s where s: "link_step\<^sup>*\<^sup>* sample_link s" "link_few s"
    "side_sent (left_side s) = [info_of (fresh_endpoint mq_fabric) (Some (sample_get 8))]" using sample_lost by metis
  have "\<forall>k \<in> channels. credit_of (left_side sample_link) k \<le> 1024" using flow_start_sample(3) by simp
  from flow_control_prevents_overflow [OF flow_start_sample(1) s(1,2) flow_start_sample(2) this] s(1,3) flow_start_sample(3)
  show ?thesis by (intro exI [of _ s]) auto
qed

end
