(* ===== verification/Session.thy ===== *)
theory Session
  imports Credit_Link
begin

text \<open>
  From the handshake to the link: what \<open>open_conn_master\<close> and \<open>open_conn_slave\<close> leave behind is a link in
  step once the last frames of the handshake have arrived, and a link that never delivers anything
  when the master's last frame is lost.
\<close>

section \<open>What the connection functions keep\<close>

text \<open>They change the sequence numbers, the credits and what has been sent, and nothing else.\<close>

definition conn_rest :: "tloe_endpoint_t \<Rightarrow> _" where
  "conn_rest e = (fabric_ops e, retransmit_buffer e, ack_buffer e, tl_msg_buffer e, message_buffer e, response_buffer e,
     master e, connection e, is_done e)"

abbreviation no_debt :: "u32 list" where
  "no_debt \<equiv> replicate CHANNEL_NUM 0"

lemma no_debt_update [simp]: "no_debt[k := 0] = no_debt"
  by (rule nth_equalityI) (auto, metis nth_list_update_eq nth_list_update_neq nth_replicate length_replicate)

definition conn_keeps :: "tloe_endpoint_t \<Rightarrow> tloe_endpoint_t \<Rightarrow> bool" where
  "conn_keeps e e' \<longleftrightarrow> conn_rest e' = conn_rest e \<and> (fc_wf (fc e) \<longrightarrow> fc_wf (fc e')) \<and>
     (tx_flow_credits (fc e) = no_debt \<longrightarrow> tx_flow_credits (fc e') = no_debt) \<and>
     (seq_wf (next_rx_seq e) \<longrightarrow> seq_wf (next_rx_seq e')) \<and> (seq_wf (acked_seq e) \<longrightarrow> seq_wf (acked_seq e')) \<and>
     (seq_wf (next_tx_seq e) \<longrightarrow> seq_wf (next_tx_seq e'))"

lemma conn_keeps_refl [simp]: "conn_keeps e e"
  by (simp add: conn_keeps_def)

lemma conn_keeps_trans [trans]: "conn_keeps e e1 \<Longrightarrow> conn_keeps e1 e2 \<Longrightarrow> conn_keeps e e2"
  by (simp add: conn_keeps_def)

lemma conn_keeps_sent [simp]:
  "conn_keeps e (e'\<lparr>fabric_sent := ps\<rparr>) = conn_keeps e e'" "conn_keeps e e' \<Longrightarrow> seq_wf n \<Longrightarrow> conn_keeps e (e'\<lparr>next_tx_seq := n\<rparr>)"
  by (simp_all add: conn_keeps_def conn_rest_def)

lemma conn_keeps_inc: "conn_keeps e e' \<Longrightarrow> conn_keeps e (e'\<lparr>next_tx_seq := tloe_seqnum_next (next_tx_seq e')\<rparr>)"
  by (simp add: conn_keeps_def conn_rest_def)

lemma send_frame_keeps: "send_frame e ty s a ch c = Inr e' \<Longrightarrow> conn_keeps e e'"
  by (auto simp: send_frame_eq tloe_fabric_send_def split: option.splits if_splits)

lemma recv_credit_keeps:
  assumes "set_credit (fc e) ch c = Inr F"
  shows "conn_keeps e (tloe_seqnum_update_acked_seq (tloe_seqnum_update_next_rx_seq (e\<lparr>fc := F\<rparr>) f) f)"
  using assms
  by (auto simp: set_credit_def conn_keeps_def conn_rest_def fc_wf_def tloe_seqnum_update_acked_seq_def
      tloe_seqnum_update_next_rx_seq_def split: if_splits)

lemma recv_conn_keeps:
  "recv_conn_master rx e = Inr e' \<Longrightarrow> conn_keeps e e'"
  "recv_conn_slave rx e cf = Inr (cf', e') \<Longrightarrow> conn_keeps e e'"
  using recv_credit_keeps
  by (auto simp: recv_conn_master_def recv_conn_slave_def Let_def bind_run_eq_Inr split: if_splits prod.splits)

lemma serve_loop_keeps:
  assumes "fold_run (\<lambda>i ep. bind_run (send_frame ep (ty i) (s i) (a ep) (ch i) c)
    (\<lambda>ep. Inr (ep\<lparr>next_tx_seq := n i\<rparr>))) is e = Inr e'" "\<forall>i \<in> set is. seq_wf (n i)"
  shows "conn_keeps e e'"
proof (rule fold_run_invariant [OF _ conn_keeps_refl assms(1)])
  fix i x y assume i: "i \<in> set is" and "conn_keeps e x" and
    "bind_run (send_frame x (ty i) (s i) (a x) (ch i) c) (\<lambda>ep. Inr (ep\<lparr>next_tx_seq := n i\<rparr>)) = Inr y"
  then obtain z where "conn_keeps e x" "send_frame x (ty i) (s i) (a x) (ch i) c = Inr z" "y = z\<lparr>next_tx_seq := n i\<rparr>"
    by (auto simp: bind_run_eq_Inr)
  then have "conn_keeps e x" "conn_keeps x z" "y = z\<lparr>next_tx_seq := n i\<rparr>" using send_frame_keeps by blast+
  moreover have "seq_wf (n i)" using assms(2) i by blast
  ultimately show "conn_keeps e y" using conn_keeps_trans by fastforce
qed

lemma channels_seq_wf: "\<forall>i \<in> set [1..<CHANNEL_NUM]. seq_wf (of_nat i)"
  by (simp add: upt_conv_Cons seq_wf_def)

lemma serve_conn_keeps:
  "serve_conn_master e = Inr e' \<Longrightarrow> conn_keeps e e'"
  "serve_conn_slave e = Inr e' \<Longrightarrow> conn_keeps e e'"
  unfolding serve_conn_master_def serve_conn_slave_def by (erule serve_loop_keeps, rule channels_seq_wf)+

lemma open_master_loop_keeps:
  "open_conn_master_loop wde evs start timer e = Inr e' \<Longrightarrow> conn_keeps e e'"
proof (induction evs arbitrary: start timer e)
  case (Cons ev evs)
  then obtain e1 e2 where e: "(if timer = 1 then serve_conn_master e else Inr e) = Inr e1"
    "recv_conn_master (ev_rx ev) e1 = Inr e2" "conn_keeps e2 e'"
    by (auto simp: bind_run_eq_Inr Let_def split: if_splits)
  have "conn_keeps e e1" using e(1) serve_conn_keeps(1) by (auto split: if_splits)
  also have "conn_keeps e1 e2" using e(2) by (rule recv_conn_keeps)
  also note e(3)
  finally show ?case .
qed simp

lemma open_slave_loop_keeps:
  "open_conn_slave_loop wde evs start timer cf e = Inr e' \<Longrightarrow> conn_keeps e e'"
proof (induction evs arbitrary: start timer cf e)
  case (Cons ev evs)
  then obtain e1 cf' e2 where e: "(if cf \<noteq> 0 \<and> timer = 1 then serve_conn_slave e else Inr e) = Inr e1"
    "recv_conn_slave (ev_rx ev) e1 cf = Inr (cf', e2)" "conn_keeps e2 e'"
    by (auto simp: bind_run_eq_Inr Let_def split: if_splits)
  have "conn_keeps e e1" using e(1) serve_conn_keeps(2) by (auto split: if_splits)
  also have "conn_keeps e1 e2" using e(2) by (rule recv_conn_keeps)
  also note e(3)
  finally show ?case .
qed simp

lemma open_conn_keeps:
  "open_conn_master wde evs start e = Inr (r, e') \<Longrightarrow> conn_keeps e e'"
  "open_conn_slave wde evs start e = Inr (r, e') \<Longrightarrow> conn_keeps e e'"
  by (auto simp: open_conn_master_def open_conn_slave_def bind_run_eq_Inr tloe_seqnum_next_tx_seq_inc_def
      dest!: open_master_loop_keeps open_slave_loop_keeps send_frame_keeps intro: conn_keeps_trans conn_keeps_inc)

text \<open>An endpoint before its connection is opened.\<close>

definition conn_ready :: "tloe_endpoint_t \<Rightarrow> bool" where
  "conn_ready e \<longleftrightarrow> ep_inv e \<and> next_rx_seq e = 0 \<and> credits (fc e) = replicate CHANNEL_NUM 128 \<and>
     tx_flow_credits (fc e) = no_debt \<and> queue_list (retransmit_buffer e) = [] \<and> queue_list (ack_buffer e) = [] \<and>
     queue_list (tl_msg_buffer e) = []"

lemma conn_keeps_ep_inv:
  assumes "ep_inv e" "queue_list (retransmit_buffer e) = []" "conn_keeps e e'"
  shows "ep_inv e'"
proof -
  have r: "fabric_ops e' = fabric_ops e" "retransmit_buffer e' = retransmit_buffer e" "ack_buffer e' = ack_buffer e"
    "tl_msg_buffer e' = tl_msg_buffer e" "message_buffer e' = message_buffer e" "response_buffer e' = response_buffer e"
    using assms(3) by (simp_all add: conn_keeps_def conn_rest_def)
  have len: "q_len (retransmit_buffer e') = 0" using arg_cong [OF assms(2), of length] r(2) by simp
  have "seq_wf (next_tx_seq e)" using assms(1) by (auto simp: ep_inv_def tx_window_def)
  then have "seq_of (unat (next_tx_seq e')) = next_tx_seq e'" using assms(3) by (intro seq_of_unat) (simp add: conn_keeps_def)
  then have "tx_window e'" using assms(2) r(2) len unfolding tx_window_def by (intro exI [of _ "unat (next_tx_seq e')"]) simp
  then show ?thesis using assms(1,3) r by (simp add: conn_keeps_def ep_inv_def fabric_up_def)
qed

lemma conn_keeps_inv:
  assumes "conn_ready e" "conn_keeps e e'"
  shows "ep_inv e'" "queue_list (retransmit_buffer e') = []" "queue_list (ack_buffer e') = []"
  using assms conn_keeps_ep_inv [OF _ _ assms(2)] by (simp_all add: conn_ready_def conn_keeps_def conn_rest_def)

text \<open>The buffers the handshake does not use, and the capacity of the TileLink buffer.\<close>

definition user_side :: "tloe_endpoint_t \<Rightarrow> _" where
  "user_side e = (message_buffer e, response_buffer e, q_cap (tl_msg_buffer e))"

section \<open>The endpoints after the handshake\<close>

text \<open>Both ends of a handshake in which the five announcements of either side arrive in order.\<close>

definition handshake_runs :: "conn_event list \<Rightarrow> conn_event list \<Rightarrow> timespec \<Rightarrow> bool" where
  "handshake_runs evm evs start \<longleftrightarrow> arrivals 0 evm \<and> arrivals 0 evs \<and>
     (\<forall>ev \<in> set evs. \<forall>h. delivers ev h \<longrightarrow> announces 0 h \<longrightarrow> uint (h_type h) = TYPE_OPEN_CONNECTION) \<and>
     (\<forall>ev \<in> set evs. check_timer (ev_now ev) start = 1)"

lemma conn_ready_progress: "conn_ready e \<Longrightarrow> conn_progress 0 e"
  by (simp add: conn_ready_def conn_progress_def announced_0 ep_inv_def fc_wf_def)

lemma seq_of_small [simp]: "seq_of 5 = 5" "seq_of 6 = 6"
  by (simp_all add: seq_of_def)

lemma master_after:
  assumes "conn_ready e" "arrivals 0 evs"
  obtains e' where "open_conn_master False evs start e = Inr (1, e')" "ep_inv e'" "next_tx_seq e' = 6" "next_rx_seq e' = 5"
    "queue_list (retransmit_buffer e') = []" "queue_list (ack_buffer e') = []"
    "tl_msg_buffer e' = tl_msg_buffer e" "last (fabric_sent e') = conn_packet (conn_header TYPE_NORMAL 5 4 0 0)"
    "\<forall>c \<in> {1..5}. credits (fc e') ! c = 1024" "tx_flow_credits (fc e') = no_debt" "user_side e' = user_side e"
proof -
  obtain e1 where l: "open_conn_master_loop False evs start 1 e = Inr e1" "conn_progress 5 e1" "next_tx_seq e1 = 5"
    using master_loop_completes [OF conn_ready_progress [OF assms(1)] _ assms(2), of 1 start] by auto
  have n: "tloe_seqnum_next 5 = 6" "tloe_seqnum_prev 5 = 4" using seqnum_next_seq_of [of 5] seqnum_prev_seq_of [of 4] by (simp_all add: seq_of_def)
  let ?e = "e1\<lparr>fabric_sent := fabric_sent e1 @ [conn_packet (conn_header TYPE_NORMAL 5 4 0 0)], next_tx_seq := 6\<rparr>"
  have r: "open_conn_master False evs start e = Inr (1, ?e)"
    using l n by (simp add: open_conn_master_def send_frame_up conn_progress_def tloe_seqnum_next_tx_seq_inc_def)
  note k = open_conn_keeps(1) [OF r]
  show thesis
    using that [OF r] conn_keeps_inv [OF assms(1) k] k l(2) assms(1) by (simp add: conn_progress_def conn_keeps_def conn_rest_def announced_def conn_ready_def user_side_def)
qed

lemma slave_after:
  assumes "conn_ready e" "handshake_runs evm evs start"
  obtains e' where "open_conn_slave False evs start e = Inr (1, e')" "ep_inv e'" "next_tx_seq e' = 5" "next_rx_seq e' = 5"
    "queue_list (retransmit_buffer e') = []" "queue_list (ack_buffer e') = []"
    "tl_msg_buffer e' = tl_msg_buffer e" "last (fabric_sent e') = conn_packet (conn_header TYPE_ACKONLY 5 4 0 0)"
    "\<forall>c \<in> {1..5}. credits (fc e') ! c = 1024" "tx_flow_credits (fc e') = no_debt" "user_side e' = user_side e"
proof -
  have h: "arrivals 0 evs"
    "\<forall>ev \<in> set evs. \<forall>h. delivers ev h \<longrightarrow> announces 0 h \<longrightarrow> uint (h_type h) = TYPE_OPEN_CONNECTION"
    "\<forall>ev \<in> set evs. check_timer (ev_now ev) start = 1" using assms(2) by (simp_all add: handshake_runs_def)
  obtain e1 where l: "open_conn_slave_loop False evs start 1 0 e = Inr e1" "conn_progress 5 e1" "next_tx_seq e1 = 5"
    using slave_loop_completes [OF conn_ready_progress [OF assms(1)] _ h(1), of 0 start 1] h(2,3) by (auto simp: will_serve_def)
  have n: "tloe_seqnum_prev 5 = 4" using seqnum_prev_seq_of [of 4] by (simp add: seq_of_def)
  let ?e = "e1\<lparr>fabric_sent := fabric_sent e1 @ [conn_packet (conn_header TYPE_ACKONLY 5 4 0 0)]\<rparr>"
  have r: "open_conn_slave False evs start e = Inr (1, ?e)"
    using l n by (simp add: open_conn_slave_def send_frame_up conn_progress_def)
  note k = open_conn_keeps(2) [OF r]
  show thesis
    using that [OF r] conn_keeps_inv [OF assms(1) k] k l(2,3) assms(1) by (simp add: conn_progress_def conn_keeps_def conn_rest_def announced_def conn_ready_def user_side_def)
qed

text \<open>A packet of the handshake is a frame without messages.\<close>

lemma conn_packet_carries: "carries (conn_packet h) \<lparr>f_header = h, flits = replicate 6 0\<rparr>"
  using tloe_frame_to_packet_eq [of 6 "\<lparr>f_header = h, flits = replicate 6 0\<rparr>"] by (simp add: carries_def conn_packet_def)

lemma RX_conn_packet:
  assumes "ep_inv e"
  shows "RX True (int (length (conn_packet h)), conn_packet h) e =
    RX_frame e (padded \<lparr>f_header = h, flits = replicate 6 0\<rparr>) 56"
  using RX_packet [OF assms _ carries_decode(2) [OF conn_packet_carries [of h], of "[]"]] carries_decode(1) [OF conn_packet_carries [of h]] by simp

lemma RX_last_of_master:
  assumes "ep_inv e" "next_rx_seq e = 5" "queue_list (retransmit_buffer e) = []"
  obtains e' where "receive_all [conn_packet (conn_header TYPE_NORMAL 5 4 0 0)] e = Inr e'" "ep_inv e'" "next_rx_seq e' = 6"
    "next_tx_seq e' = next_tx_seq e" "queue_list (retransmit_buffer e') = []" "ack_buffer e' = ack_buffer e"
    "queue_list (tl_msg_buffer e') = queue_list (tl_msg_buffer e)" "fc e' = fc e" "user_side e' = user_side e"
proof -
  let ?f = "padded \<lparr>f_header = conn_header TYPE_NORMAL 5 4 0 0, flits = replicate 6 0\<rparr>"
  have hd: "f_header ?f = conn_header TYPE_NORMAL 5 4 0 0" and fl: "flits ?f = replicate 65 0"
    by (simp_all add: padded_def replicate_add [symmetric])
  have f: "frame_ok ?f 56" "\<not> is_ackonly_frame ?f" "tloe_get_mask ?f 56 = Inr 0" "ucast (h_seq_num (f_header ?f)) = next_rx_seq e"
    using assms(2) unfolding frame_ok_def is_ackonly_frame_def tloe_get_mask_def hd fl
    by (simp_all add: conn_header_def zero_header_def)
  have "q_inv (tl_msg_buffer e)" using assms(1) by (simp add: ep_inv_def)
  then have room: "q_len (tl_msg_buffer e) + length (frame_msgs ?f 0) \<le> q_cap (tl_msg_buffer e)"
    using cq.bound [of "tl_msg_buffer e"] by (simp add: frame_msgs_def)
  from RX_frame_in_order [OF assms(1) f(1,2,4,3) _ room] obtain e' where
    e': "RX_frame e ?f 56 = Inr e'" "ep_inv e'" "rx_untouched e' = rx_untouched e" "next_rx_seq e' = tloe_seqnum_next (next_rx_seq e)"
    "queue_list (tl_msg_buffer e') = queue_list (tl_msg_buffer e) @ frame_msgs ?f 0" "ack_buffer e' = ack_buffer e"
    "map rbe_key (queue_list (retransmit_buffer e')) =
      map rbe_key (unacked (ucast (h_seq_num_ack (f_header ?f))) (queue_list (retransmit_buffer e)))"
    "\<exists>r. fc_credit_inc (fc e) ?f = Inr (r, fc e')" "q_cap (tl_msg_buffer e') = q_cap (tl_msg_buffer e)" by auto
  have "fc e' = fc e" using e'(8) hd by (auto simp: fc_credit_inc_def conn_header_def zero_header_def Let_def)
  moreover have "tloe_seqnum_next 5 = 6" using seqnum_next_seq_of [of 5] by simp
  ultimately show thesis
    using that [of e'] e' RX_conn_packet [OF assms(1)] assms(2,3)
    by (simp add: rx_untouched_def frame_msgs_def user_side_def)
qed

lemma RX_last_of_slave:
  assumes "ep_inv e" "queue_list (retransmit_buffer e) = []"
  obtains e' where "receive_all [conn_packet (conn_header TYPE_ACKONLY 5 4 0 0)] e = Inr e'" "ep_inv e'"
    "next_rx_seq e' = next_rx_seq e" "next_tx_seq e' = next_tx_seq e" "queue_list (retransmit_buffer e') = []"
    "ack_buffer e' = ack_buffer e" "tl_msg_buffer e' = tl_msg_buffer e" "fc e' = fc e" "user_side e' = user_side e"
proof -
  let ?f = "padded \<lparr>f_header = conn_header TYPE_ACKONLY 5 4 0 0, flits = replicate 6 0\<rparr>"
  have "is_ackonly_frame ?f" by (simp add: is_ackonly_frame_def padded_def conn_header_def)
  from RX_frame_ackonly [OF assms(1) this, of 56] obtain e' where
    "RX_frame e ?f 56 = Inr e'" "ep_inv e'" "rx_untouched e' = rx_untouched e" "ack_buffer e' = ack_buffer e"
    "tl_msg_buffer e' = tl_msg_buffer e" "next_rx_seq e' = next_rx_seq e" "map rbe_key (queue_list (retransmit_buffer e')) =
      map rbe_key (unacked (ucast (h_seq_num_ack (f_header ?f))) (queue_list (retransmit_buffer e)))" "fc e' = fc e" by auto
  then show thesis
    using that [of e'] RX_conn_packet [OF assms(1)] assms(2) by (simp add: rx_untouched_def user_side_def)
qed

section \<open>The link\<close>

text \<open>Two endpoints with nothing between them; \<open>fs\<close> is what the left one has sent.\<close>

definition link_between :: "frame_info list \<Rightarrow> tloe_endpoint_t \<Rightarrow> tloe_endpoint_t \<Rightarrow> link" where
  "link_between fs e e' = \<lparr>left_side = \<lparr>side_ep = e, side_sent = fs, side_got = [], side_served = []\<rparr>,
     right_side = \<lparr>side_ep = e', side_sent = [], side_got = [], side_served = []\<rparr>, l2r = [], r2l = []\<rparr>"

text \<open>The last frame of the master's handshake carries no message and announces nothing.\<close>

definition empty_frame :: frame_info where
  "empty_frame = \<lparr>fr_msg = None, fr_chan = 0, fr_credit = 0\<rparr>"

lemma handshake_link:
  assumes "conn_ready em" "conn_ready es" "handshake_runs evm evs start'"
  shows "\<exists>em' es' em'' es''. open_conn_master False evm start em = Inr (1, em') \<and>
    open_conn_slave False evs start' es = Inr (1, es') \<and>
    receive_all [last (fabric_sent em')] es' = Inr es'' \<and> receive_all [last (fabric_sent es')] em' = Inr em'' \<and>
    flow_start (link_between [] em'' es'') \<and> (\<forall>k \<in> channels. credits (fc em'') ! k = 1024 \<and> credits (fc es'') ! k = 1024) \<and>
    user_side em'' = user_side em \<and> user_side es'' = user_side es"
proof -
  have a: "arrivals 0 evm" using assms(3) by (simp add: handshake_runs_def)
  obtain em' where m: "open_conn_master False evm start em = Inr (1, em')" "ep_inv em'" "next_tx_seq em' = 6" "next_rx_seq em' = 5"
    "queue_list (retransmit_buffer em') = []" "queue_list (ack_buffer em') = []"
    "last (fabric_sent em') = conn_packet (conn_header TYPE_NORMAL 5 4 0 0)" "\<forall>c \<in> {1..5}. credits (fc em') ! c = 1024"
    "tl_msg_buffer em' = tl_msg_buffer em" "tx_flow_credits (fc em') = no_debt"
    "user_side em' = user_side em" by (rule master_after [OF assms(1) a])
  obtain es' where s: "open_conn_slave False evs start' es = Inr (1, es')" "ep_inv es'" "next_tx_seq es' = 5" "next_rx_seq es' = 5"
    "queue_list (retransmit_buffer es') = []" "queue_list (ack_buffer es') = []"
    "last (fabric_sent es') = conn_packet (conn_header TYPE_ACKONLY 5 4 0 0)" "\<forall>c \<in> {1..5}. credits (fc es') ! c = 1024"
    "tl_msg_buffer es' = tl_msg_buffer es" "tx_flow_credits (fc es') = no_debt"
    "user_side es' = user_side es" by (rule slave_after [OF assms(2,3)])
  obtain es'' where s': "receive_all [last (fabric_sent em')] es' = Inr es''" "ep_inv es''" "next_rx_seq es'' = 6"
    "next_tx_seq es'' = 5" "queue_list (retransmit_buffer es'') = []" "ack_buffer es'' = ack_buffer es'"
    "queue_list (tl_msg_buffer es'') = queue_list (tl_msg_buffer es')" "fc es'' = fc es'" "user_side es'' = user_side es'"
    unfolding m(7) using s(3) by (rule_tac RX_last_of_master [OF s(2,4,5)]) simp
  obtain em'' where m': "receive_all [last (fabric_sent es')] em' = Inr em''" "ep_inv em''" "next_rx_seq em'' = 5"
    "next_tx_seq em'' = 6" "queue_list (retransmit_buffer em'') = []" "ack_buffer em'' = ack_buffer em'"
    "tl_msg_buffer em'' = tl_msg_buffer em'" "fc em'' = fc em'" "user_side em'' = user_side em'"
    unfolding s(7) using m(3,4) by (rule_tac RX_last_of_slave [OF m(2,5)]) simp
  have "queue_list (tl_msg_buffer em) = []" "queue_list (tl_msg_buffer es) = []" using assms(1,2) by (simp_all add: conn_ready_def)
  then have "flow_start (link_between [] em'' es'')"
    using m'(2-8) s'(2-8) m(6,9,10) s(6,9,10) by (simp add: flow_start_def link_start_def link_between_def)
  then show ?thesis using m(1,8,11) s(1,8,11) s'(1,8,9) m'(1,8,9) by (intro exI conjI) (assumption | simp)+
qed


text \<open>
  C16: the last frame of the handshake is never sent again: the master sends it outside the retransmit buffer and counts it. If it is
  lost, then whatever the two endpoints do afterwards, the slave never delivers a message of the master, and the
  master stops after four frames that are never acknowledged.
\<close>

theorem lost_handshake_frame_blocks:
  assumes "conn_ready em" "conn_ready es" "handshake_runs evm evs start'"
  shows "\<exists>em' es'. open_conn_master False evm start em = Inr (1, em') \<and> open_conn_slave False evs start' es = Inr (1, es') \<and>
    (\<forall>s. link_step\<^sup>*\<^sup>* (link_between [empty_frame] em' es') s \<longrightarrow> link_few s \<longrightarrow>
      side_got (right_side s) = [] \<and> length (side_sent (left_side s)) \<le> 1 + WINDOW_SIZE)"
proof -
  have a: "arrivals 0 evm" using assms(3) by (simp add: handshake_runs_def)
  obtain em' where m: "open_conn_master False evm start em = Inr (1, em')" "ep_inv em'" "next_tx_seq em' = 6" "next_rx_seq em' = 5"
    "queue_list (retransmit_buffer em') = []" "queue_list (ack_buffer em') = []" by (rule master_after [OF assms(1) a])
  obtain es' where s: "open_conn_slave False evs start' es = Inr (1, es')" "ep_inv es'" "next_tx_seq es' = 5" "next_rx_seq es' = 5"
    "queue_list (retransmit_buffer es') = []" "queue_list (ack_buffer es') = []" by (rule slave_after [OF assms(2,3)])
  let ?g = "\<lparr>g_sent = [empty_frame], g_base = 1, g_rcvd = 0, g_flight = []\<rparr>"
  have r: "link_rel (gbn_stuck WINDOW_SIZE) (gbn_inv WINDOW_SIZE) 5 5 (link_between [empty_frame] em' es') ?g gbn_start"
    using m(2-6) s(2-6) gbn_inv_start [of WINDOW_SIZE]
    by (simp add: link_rel_def half_def link_between_def sender_rel_def receiver_rel_def gbn_stuck_def gbn_start_def g_delivered_def)
  have "side_got (right_side s) = [] \<and> length (side_sent (left_side s)) \<le> 1 + 4"
    if run: "link_step\<^sup>*\<^sup>* (link_between [empty_frame] em' es') s" "link_few s" for s
  proof -
    obtain g h where "link_rel (gbn_stuck WINDOW_SIZE) (gbn_inv WINDOW_SIZE) 5 5 s g h"
      using link_reachable [OF run(1) r _ _ run(2) gbn_safe_stuck gbn_safe_inv] by auto
    then show ?thesis by (auto simp: link_rel_def half_def receiver_rel_def gbn_stuck_def g_delivered_def)
  qed
  then show ?thesis using m(1) s(1) by blast
qed

section \<open>Witnesses\<close>

lemma conn_ready_fresh: "conn_ready (fresh_endpoint mq_fabric)"
  using ep_inv_fresh_mq fresh_rx [of mq_fabric]
  by (simp add: conn_ready_def) (simp add: fresh_endpoint_def zero_endpoint_def initial_fc_def zero_flowcontrol_def Let_def)

lemma sample_handshake:
  "handshake_runs (map (announce_event 0) [0..<5]) (map (announce_event 2) [0..<5]) \<lparr>tv_sec = 0, tv_nsec = 0\<rparr>"
  using announce_events_arrive announce_events_open announce_events_late unfolding handshake_runs_def by blast


theorem lost_handshake_frame_blocks_witness:
  "\<exists>em' es'.
    open_conn_master False (map (announce_event 0) [0..<5]) \<lparr>tv_sec = 0, tv_nsec = 0\<rparr> (fresh_endpoint mq_fabric) = Inr (1, em') \<and>
    open_conn_slave False (map (announce_event 2) [0..<5]) \<lparr>tv_sec = 0, tv_nsec = 0\<rparr> (fresh_endpoint mq_fabric) = Inr (1, es') \<and>
    side_got (right_side (link_between [empty_frame] em' es')) = []"
  using lost_handshake_frame_blocks [OF conn_ready_fresh conn_ready_fresh sample_handshake]
  by (auto simp: link_between_def)

end
