(* ===== verification/Scan.thy ===== *)
theory Scan
  imports Prelude
begin

text \<open>
  The part of the C library that the programs read text with: \<^verbatim>\<open>fgets\<close>, \<^verbatim>\<open>strcspn\<close>, \<^verbatim>\<open>isspace\<close>, \<^verbatim>\<open>atoi\<close>, \<^verbatim>\<open>strncpy\<close>
  and \<^verbatim>\<open>sscanf\<close> with the conversions \<^verbatim>\<open>%c\<close>, \<^verbatim>\<open>%x\<close>, \<^verbatim>\<open>%lx\<close> and \<^verbatim>\<open>%hhx\<close>. A conversion whose result does not fit its object
  is undefined, as in the standard.
\<close>

section \<open>Characters and lines\<close>

definition isspace :: "char \<Rightarrow> bool" where
  "isspace c \<longleftrightarrow> c \<in> {CHR '' '', CHR 0x09, CHR 0x0A, CHR 0x0B, CHR 0x0C, CHR 0x0D}"

text \<open>
  \<^verbatim>\<open>fgets(buf, n, stdin)\<close> on the rest of the input: the characters up to and including the first newline, at most
  \<open>n - 1\<close> of them; \<open>None\<close> at the end of the input, where the buffer keeps its contents.
\<close>

definition newline :: char where
  "newline = CHR 0x0A"

definition fgets :: "nat \<Rightarrow> string \<Rightarrow> string option \<times> string" where
  "fgets n inp =
     (if inp = [] then (None, [])
      else let line = take (n - 1) (takeWhile (\<lambda>c. c \<noteq> newline) inp @ (if newline \<in> set inp then [newline] else []))
           in (Some line, drop (length line) inp))"

text \<open>\<^verbatim>\<open>cmd[strcspn(cmd, "\n")] = 0\<close>.\<close>

definition chomp :: "string \<Rightarrow> string" where
  "chomp cmd = takeWhile (\<lambda>c. c \<noteq> newline) cmd"

text \<open>\<^verbatim>\<open>strncpy(buf, s, n - 1); buf[n - 1] = 0\<close>.\<close>

definition copy_string :: "nat \<Rightarrow> string \<Rightarrow> string" where
  "copy_string n s = take (n - 1) s"

section \<open>Decimal numbers\<close>

definition digit :: "char \<Rightarrow> int option" where
  "digit c = (let n = of_char c :: nat in if 48 \<le> n \<and> n \<le> 57 then Some (int n - 48) else None)"

fun atoi_digits :: "int \<Rightarrow> string \<Rightarrow> int" where
  "atoi_digits acc [] = acc"
| "atoi_digits acc (c # cs) = (case digit c of None \<Rightarrow> acc | Some d \<Rightarrow> atoi_digits (10 * acc + d) cs)"

definition atoi :: "string \<Rightarrow> int run" where
  "atoi s =
     (let n = (case dropWhile isspace s of
                 [] \<Rightarrow> 0
               | c # cs \<Rightarrow> if c = CHR ''-'' then - atoi_digits 0 cs
                           else if c = CHR ''+'' then atoi_digits 0 cs else atoi_digits 0 (c # cs))
      in if - (2 ^ 31) \<le> n \<and> n < 2 ^ 31 then Inr n else Inl Undefined)"

section \<open>Hexadecimal numbers\<close>

definition hex_digit :: "char \<Rightarrow> nat option" where
  "hex_digit c =
     (let n = of_char c :: nat in
      if 48 \<le> n \<and> n \<le> 57 then Some (n - 48)
      else if 97 \<le> n \<and> n \<le> 102 then Some (n - 87)
      else if 65 \<le> n \<and> n \<le> 70 then Some (n - 55) else None)"

definition is_hex :: "char \<Rightarrow> bool" where
  "is_hex c \<longleftrightarrow> hex_digit c \<noteq> None"

definition hex_value :: "string \<Rightarrow> nat" where
  "hex_value ds = foldl (\<lambda>v c. 16 * v + (case hex_digit c of None \<Rightarrow> 0 | Some d \<Rightarrow> d)) 0 ds"

text \<open>
  The input item of a hexadecimal conversion: white space, an optional sign, an optional \<^verbatim>\<open>0x\<close>, and digits.
\<close>

definition hex_prefix :: "string \<Rightarrow> bool" where
  "hex_prefix s \<longleftrightarrow> take 2 s = ''0x'' \<or> take 2 s = ''0X''"

definition scan_hex :: "string \<Rightarrow> (int \<times> string) option" where
  "scan_hex s =
     (let s = dropWhile isspace s;
          neg = (take 1 s = ''-'');
          s = (if neg \<or> take 1 s = ''+'' then drop 1 s else s);
          s = (if hex_prefix s then drop 2 s else s);
          ds = takeWhile is_hex s
      in if ds = [] then None
         else Some (if neg then - int (hex_value ds) else int (hex_value ds), dropWhile is_hex s))"

section \<open>Formatted input\<close>

datatype directive = White | Lit char | Conv_Char | Conv_Hex nat

datatype scanned = Scan_Char char | Scan_Hex int

text \<open>The directives of a format string; \<open>Conv_Hex w\<close> stores into an object of \<open>w\<close> bits.\<close>

function parse_format :: "string \<Rightarrow> directive list" where
  "parse_format s =
     (if s = [] then []
      else if take 4 s = ''%hhx'' then Conv_Hex 8 # parse_format (drop 4 s)
      else if take 3 s = ''%lx'' then Conv_Hex 64 # parse_format (drop 3 s)
      else if take 2 s = ''%x'' then Conv_Hex 32 # parse_format (drop 2 s)
      else if take 2 s = ''%c'' then Conv_Char # parse_format (drop 2 s)
      else if isspace (hd s) then White # parse_format (tl s)
      else Lit (hd s) # parse_format (tl s))"
  by pat_completeness auto
termination by (relation "measure length") auto

declare parse_format.simps [simp del]

text \<open>
  What is assigned, in order. Scanning stops at the first directive that fails; the result of \<^verbatim>\<open>sscanf\<close> is the number of values,
  or \<^verbatim>\<open>EOF\<close> if there is none and the input has ended.
\<close>

fun scan :: "directive list \<Rightarrow> string \<Rightarrow> scanned list run" where
  "scan [] s = Inr []"
| "scan (White # ds) s = scan ds (dropWhile isspace s)"
| "scan (Lit c # ds) s = (case s of [] \<Rightarrow> Inr [] | x # xs \<Rightarrow> if x = c then scan ds xs else Inr [])"
| "scan (Conv_Char # ds) s =
     (case s of [] \<Rightarrow> Inr [] | x # xs \<Rightarrow> bind_run (scan ds xs) (\<lambda>vs. Inr (Scan_Char x # vs)))"
| "scan (Conv_Hex w # ds) s =
     (case scan_hex s of
        None \<Rightarrow> Inr []
      | Some (v, rest) \<Rightarrow>
          if \<bar>v\<bar> \<ge> 2 ^ w then Inl Undefined
          else bind_run (scan ds rest) (\<lambda>vs. Inr (Scan_Hex v # vs)))"

definition sscanf :: "string \<Rightarrow> string \<Rightarrow> scanned list run" where
  "sscanf s format = scan (parse_format format) s"

section \<open>Writing numbers\<close>

text \<open>The reference printers: two digits, and as many digits as the number needs (\<^verbatim>\<open>%02x\<close> and \<^verbatim>\<open>%lx\<close>).\<close>

definition hex_char :: "nat \<Rightarrow> char" where
  "hex_char d = char_of (if d < 10 then d + 48 else d + 87)"

definition hex2 :: "byte \<Rightarrow> string" where
  "hex2 b = [hex_char (unat b div 16), hex_char (unat b mod 16)]"

fun hex_of :: "nat \<Rightarrow> string" where
  "hex_of n = (if n < 16 then [hex_char n] else hex_of (n div 16) @ [hex_char (n mod 16)])"

declare hex_of.simps [simp del]

lemma hex_digit_char [simp]: "d < 16 \<Longrightarrow> hex_digit (hex_char d) = Some d"
  by (simp add: hex_digit_def hex_char_def Let_def)

lemma is_hex_char [simp]: "d < 16 \<Longrightarrow> is_hex (hex_char d)"
  by (simp add: is_hex_def)

lemma hex_of_hex: "c \<in> set (hex_of n) \<Longrightarrow> is_hex c"
  by (induction n rule: hex_of.induct) (subst (asm) (2) hex_of.simps, auto split: if_splits)

lemma hex_of_nonempty [simp]: "hex_of n \<noteq> []"
  by (subst hex_of.simps) simp

lemma hex_value_snoc: "d < 16 \<Longrightarrow> hex_value (ds @ [hex_char d]) = 16 * hex_value ds + d"
  by (simp add: hex_value_def)

lemma hex_value_of [simp]: "hex_value (hex_of n) = n"
proof (induction n rule: hex_of.induct)
  case (1 n)
  show ?case
  proof (cases "n < 16")
    case True
    then show ?thesis using hex_value_snoc [of n "[]"] by (subst hex_of.simps) (simp add: hex_value_def)
  next
    case False
    then show ?thesis using 1 hex_value_snoc [of "n mod 16"] by (subst hex_of.simps) simp
  qed
qed

lemma unat_byte_digits: "unat (b :: byte) div 16 < 16" "unat b mod 16 < 16"
  using unsigned_less [of b, where ?'a = nat] by simp_all

lemma hex_value_hex2 [simp]: "hex_value (hex2 b) = unat b"
  using unat_byte_digits [of b] by (simp add: hex2_def hex_value_def)

lemma hex2_hex: "c \<in> set (hex2 b) \<Longrightarrow> is_hex c"
  using unat_byte_digits [of b] by (auto simp: hex2_def)

lemma hex2_nonempty [simp]: "hex2 b \<noteq> []"
  by (simp add: hex2_def)

section \<open>Reading them back\<close>

lemma is_hex_chars:
  assumes "is_hex c"
  shows "\<not> isspace c" "c \<noteq> CHR ''-''" "c \<noteq> CHR ''+''" "c \<noteq> CHR ''x''" "c \<noteq> CHR ''X''"
  using assms by (auto simp: is_hex_def hex_digit_def isspace_def)

lemma scan_hex_digits:
  assumes "ds \<noteq> []" "\<And>c. c \<in> set ds \<Longrightarrow> is_hex c" "rest = [] \<or> \<not> is_hex (hd rest) \<and> hd rest \<noteq> CHR ''x'' \<and> hd rest \<noteq> CHR ''X''"
  shows "scan_hex (ds @ rest) = Some (int (hex_value ds), rest)"
proof -
  obtain c cs where ds: "ds = c # cs" using assms(1) by (cases ds) auto
  note c = is_hex_chars [of c]
  have h: "is_hex c" using assms(2) ds by simp
  have "\<not> hex_prefix (ds @ rest)"
    using assms(2,3) is_hex_chars ds by (cases cs; cases rest) (auto simp: hex_prefix_def)
  moreover have "takeWhile is_hex (ds @ rest) = ds" "dropWhile is_hex (ds @ rest) = rest"
    using assms(2,3) by (cases rest; simp add: takeWhile_append dropWhile_append)+
  ultimately show ?thesis using c [OF h] h ds by (simp add: scan_hex_def Let_def)
qed

lemma scan_hex_space: "isspace c \<Longrightarrow> scan_hex (c # s) = scan_hex s"
  by (simp add: scan_hex_def)

text \<open>
  Digits that end before \<open>rest\<close> are read as one number by a conversion that is wide enough.
\<close>

lemma scan_conv_hex:
  assumes "ds \<noteq> []" "\<And>c. c \<in> set ds \<Longrightarrow> is_hex c" "rest = [] \<or> \<not> is_hex (hd rest) \<and> hd rest \<noteq> CHR ''x'' \<and> hd rest \<noteq> CHR ''X''"
    and "hex_value ds < 2 ^ w"
  shows "scan (Conv_Hex w # fmt) (ds @ rest) = bind_run (scan fmt rest) (\<lambda>vs. Inr (Scan_Hex (int (hex_value ds)) # vs))"
proof -
  have "int (hex_value ds) < 2 ^ w" using assms(4) by (metis of_nat_less_iff of_nat_numeral of_nat_power)
  then show ?thesis using scan_hex_digits [OF assms(1-3)] by simp
qed

section \<open>Decimal round trip\<close>

definition dec_char :: "nat \<Rightarrow> char" where
  "dec_char d = char_of (d + 48)"

fun dec_of :: "nat \<Rightarrow> string" where
  "dec_of n = (if n < 10 then [dec_char n] else dec_of (n div 10) @ [dec_char (n mod 10)])"

declare dec_of.simps [simp del]

lemma digit_dec_char [simp]: "d < 10 \<Longrightarrow> digit (dec_char d) = Some (int d)"
  by (simp add: digit_def dec_char_def Let_def)

lemma dec_of_digits: "c \<in> set (dec_of n) \<Longrightarrow> digit c \<noteq> None"
  by (induction n rule: dec_of.induct) (subst (asm) (2) dec_of.simps, auto split: if_splits)

lemma atoi_digits_append: "\<forall>c \<in> set xs. digit c \<noteq> None \<Longrightarrow> atoi_digits acc (xs @ ys) = atoi_digits (atoi_digits acc xs) ys"
  by (induction xs arbitrary: acc) auto

lemma atoi_digits_dec: "atoi_digits 0 (dec_of n) = int n"
proof (induction n rule: dec_of.induct)
  case (1 n)
  show ?case
  proof (cases "n < 10")
    case True
    then show ?thesis by (subst dec_of.simps) simp
  next
    case False
    then have "atoi_digits 0 (dec_of n) = 10 * int (n div 10) + int (n mod 10)"
      using 1 dec_of_digits by (subst dec_of.simps) (simp add: atoi_digits_append)
    then show ?thesis by (simp add: zdiv_int zmod_int)
  qed
qed

lemma digit_chars: "digit c \<noteq> None \<Longrightarrow> \<not> isspace c \<and> c \<noteq> CHR ''-'' \<and> c \<noteq> CHR ''+''"
  by (auto simp: digit_def isspace_def)

lemma atoi_dec:
  assumes "n < 2 ^ 31"
  shows "atoi (dec_of n) = Inr (int n)"
proof -
  obtain c cs where d: "dec_of n = c # cs" by (cases "dec_of n") (simp_all add: dec_of.simps [of n] split: if_splits)
  then have "dropWhile isspace (dec_of n) = c # cs" "c \<noteq> CHR ''-''" "c \<noteq> CHR ''+''"
    using digit_chars [of c] dec_of_digits [of c n] by auto
  moreover have "atoi_digits 0 (c # cs) = int n" using atoi_digits_dec [of n] d by simp
  ultimately show ?thesis using assms by (simp add: atoi_def del: atoi_digits.simps)
qed

lemma fgets_end [simp]: "fgets n [] = (None, [])"
  by (simp add: fgets_def)

lemma fgets_shrinks: "fgets n inp = (Some line, rest) \<Longrightarrow> 1 < n \<Longrightarrow> length rest < length inp"
  by (cases inp) (auto simp: fgets_def Let_def split: if_splits)

lemma takeWhile_until: "x \<notin> set l \<Longrightarrow> takeWhile (\<lambda>c. c \<noteq> x) (l @ x # r) = l"
  by (induction l) auto

text \<open>A line that fits the buffer is read whole.\<close>

lemma fgets_line:
  assumes "newline \<notin> set l" "Suc (length l) < n"
  shows "fgets n (l @ newline # rest) = (Some (l @ [newline]), rest)"
proof -
  have "takeWhile (\<lambda>c. c \<noteq> newline) (l @ newline # rest) = l" using assms(1) by (rule takeWhile_until)
  then show ?thesis using assms(2) by (simp add: fgets_def Let_def)
qed

lemma chomp_line: "newline \<notin> set l \<Longrightarrow> chomp (l @ [newline]) = l"
  by (simp add: chomp_def takeWhile_until)

end
