(* ===== verification/Fabric_Backends.thy ===== *)
theory Fabric_Backends
  imports Endpoint_State Scan
begin

text \<open>
  The two backends behind the fabric table: POSIX message queues (\<^verbatim>\<open>tloe_mq.c\<close>) and raw Ethernet
  (\<^verbatim>\<open>tloe_ether.c\<close>). The message queues of the operating system are modelled as POSIX documents them;
  the socket calls of the Ethernet backend are arguments.
\<close>

section \<open>POSIX message queues\<close>

text \<open>A queue holds whole messages. All messages are sent with one priority, so it is first-in first-out.\<close>

record posix_mq =
  mq_maxmsg :: nat
  mq_msgsize :: nat
  mq_msgs :: "byte list list"

text \<open>The queues of the system by name, and the descriptors that have been opened.\<close>

record mq_world =
  queues :: "string \<Rightarrow> posix_mq option"
  mqds :: "int \<Rightarrow> string option"
  next_mqd :: int

definition mq_send :: "mq_world \<Rightarrow> int \<Rightarrow> byte list \<Rightarrow> int \<times> mq_world" where
  "mq_send w d msg =
     (case mqds w d of
        None \<Rightarrow> (-1, w)
      | Some name \<Rightarrow>
          (case queues w name of
             None \<Rightarrow> (-1, w)
           | Some q \<Rightarrow>
               if length msg > mq_msgsize q \<or> length (mq_msgs q) \<ge> mq_maxmsg q then (-1, w)
               else (0, w\<lparr>queues := (queues w)(name := Some (q\<lparr>mq_msgs := mq_msgs q @ [msg]\<rparr>))\<rparr>)))"

text \<open>
  \<^verbatim>\<open>mq_receive\<close> fails with \<^verbatim>\<open>EMSGSIZE\<close> when the buffer length is below the queue's message size, and with
  \<^verbatim>\<open>EAGAIN\<close> when the queue is empty (all descriptors are non-blocking). The second component is the
  message received.
\<close>

definition mq_receive :: "mq_world \<Rightarrow> int \<Rightarrow> nat \<Rightarrow> int \<times> byte list \<times> mq_world" where
  "mq_receive w d len =
     (case mqds w d of
        None \<Rightarrow> (-1, [], w)
      | Some name \<Rightarrow>
          (case queues w name of
             None \<Rightarrow> (-1, [], w)
           | Some q \<Rightarrow>
               if len < mq_msgsize q then (-1, [], w)
               else case mq_msgs q of
                      [] \<Rightarrow> (-1, [], w)
                    | m # ms \<Rightarrow> (int (length m), m,
                        w\<lparr>queues := (queues w)(name := Some (q\<lparr>mq_msgs := ms\<rparr>))\<rparr>)))"

definition mq_open :: "mq_world \<Rightarrow> string \<Rightarrow> bool \<Rightarrow> nat \<Rightarrow> nat \<Rightarrow> int \<times> mq_world" where
  "mq_open w name creat maxmsg msgsize =
     (if queues w name = None \<and> \<not> creat then (-1, w)
      else let w = (if queues w name = None
                    then w\<lparr>queues := (queues w)(name := Some \<lparr>mq_maxmsg = maxmsg, mq_msgsize = msgsize, mq_msgs = []\<rparr>)\<rparr>
                    else w)
           in (next_mqd w, w\<lparr>mqds := (mqds w)(next_mqd w := Some name), next_mqd := next_mqd w + 1\<rparr>))"

definition mq_close :: "mq_world \<Rightarrow> int \<Rightarrow> mq_world" where
  "mq_close w d = w\<lparr>mqds := (mqds w)(d := None)\<rparr>"

section \<open>The message-queue backend\<close>

abbreviation (input) TLOE_MQ_MSG_SIZE :: nat where "TLOE_MQ_MSG_SIZE \<equiv> 1600"
abbreviation (input) TLOE_MQ_MAX_QUEUE_NAME_SIZE :: nat where "TLOE_MQ_MAX_QUEUE_NAME_SIZE \<equiv> 256"

definition tloe_mq_send :: "mq_world \<Rightarrow> TloeMQ \<Rightarrow> byte list \<Rightarrow> int \<times> mq_world" where
  "tloe_mq_send w mq msg = mq_send w (mq_tx mq) msg"

text \<open>
  The size argument is ignored: up to \<^verbatim>\<open>TLOE_MQ_MSG_SIZE\<close> bytes go into the caller's buffer, whose
  real capacity \<open>cap\<close> decides whether that is defined.
\<close>

definition tloe_mq_recv :: "mq_world \<Rightarrow> TloeMQ \<Rightarrow> nat \<Rightarrow> (int \<times> byte list \<times> mq_world) run" where
  "tloe_mq_recv w mq cap =
     (let (ret, msg, w) = mq_receive w (mq_rx mq) TLOE_MQ_MSG_SIZE in
      if length msg > cap then Inl Undefined else Inr (ret, msg, w))"

definition tloe_mq_alloc_and_init :: TloeMQ where
  "tloe_mq_alloc_and_init = \<lparr>mq_tx = -1, mq_rx = -1\<rparr>"

definition create_message_queue :: "mq_world \<Rightarrow> string \<Rightarrow> string \<Rightarrow> bool \<Rightarrow> (int \<times> mq_world) run" where
  "create_message_queue w queue_name suffix creat =
     (if length queue_name + length suffix \<ge> TLOE_MQ_MAX_QUEUE_NAME_SIZE then Inl Undefined
      else let (mq, w) = mq_open w (queue_name @ suffix) creat 10 TLOE_MQ_MSG_SIZE in
        if mq = -1 then Inl Exit_Failure else Inr (mq, w))"

definition mq_suffixes :: "string \<Rightarrow> string \<times> string" where
  "mq_suffixes role = (if role = ''-master'' then (''-a'', ''-b'') else (''-b'', ''-a''))"

definition tloe_mq_open :: "mq_world \<Rightarrow> string \<Rightarrow> string \<Rightarrow> int \<Rightarrow> (TloeMQ \<times> mq_world) run" where
  "tloe_mq_open w queue_name role qflags =
     (let ether = tloe_mq_alloc_and_init;
          (tx_suffix, rx_suffix) = mq_suffixes role;
          creat = odd qflags
      in bind_run (create_message_queue w queue_name tx_suffix creat) (\<lambda>(tx, w).
         bind_run (create_message_queue w queue_name rx_suffix creat) (\<lambda>(rx, w).
         Inr (ether\<lparr>mq_tx := tx, mq_rx := rx\<rparr>, w))))"

definition tloe_mq_close :: "mq_world \<Rightarrow> TloeMQ option \<Rightarrow> mq_world" where
  "tloe_mq_close w ether =
     (case ether of None \<Rightarrow> w
      | Some mq \<Rightarrow>
          let w = (if mq_tx mq \<noteq> -1 then mq_close w (mq_tx mq) else w)
          in if mq_rx mq \<noteq> -1 then mq_close w (mq_rx mq) else w)"

section \<open>The Ethernet backend\<close>

abbreviation (input) ETHER_HDR_LEN :: nat where "ETHER_HDR_LEN \<equiv> 14"
abbreviation (input) ETHER_MIN_LEN :: nat where "ETHER_MIN_LEN \<equiv> 64"
abbreviation (input) ETHER_MAX_LEN :: nat where "ETHER_MAX_LEN \<equiv> 1518"
abbreviation (input) ETHERMTU :: nat where "ETHERMTU \<equiv> 1500"

text \<open>
  \<open>tloe_mac_str2bytes\<close> assigns the bytes that \<^verbatim>\<open>sscanf\<close> has read and leaves the others as they were.
\<close>

fun scanned_byte :: "scanned \<Rightarrow> byte" where
  "scanned_byte (Scan_Hex v) = word_of_int v"
| "scanned_byte (Scan_Char c) = of_char c"

definition tloe_mac_str2bytes :: "string \<Rightarrow> byte list \<Rightarrow> (int \<times> byte list) run" where
  "tloe_mac_str2bytes mac_str mac_bytes =
     bind_run (sscanf mac_str ''%hhx:%hhx:%hhx:%hhx:%hhx:%hhx'') (\<lambda>vs.
     Inr (if length vs \<noteq> 6 then -1 else 0, map scanned_byte vs @ drop (length vs) mac_bytes))"

text \<open>
  \<open>tloe_ether_alloc_and_init\<close>: \<^verbatim>\<open>htons(0xAAAA)\<close> is the same number in both byte orders. The result of
  \<^verbatim>\<open>malloc\<close> is not tested.
\<close>

definition tloe_ether_alloc_and_init :: "bool \<Rightarrow> byte list \<Rightarrow> byte list \<Rightarrow> TloeEther run" where
  "tloe_ether_alloc_and_init alloc dest src =
     (if \<not> alloc then Inl Undefined
      else Inr \<lparr>sock = -1, sll = \<lparr>sll_ifindex = 0, sll_halen = 0, sll_addr = replicate 8 0\<rparr>, dest_mac = dest,
                src_mac = src, ether_type = 0xAAAA\<rparr>)"

text \<open>
  What the calls of the operating system return to \<open>tloe_ether_open\<close>: the socket, the hardware address and the index of an
  interface (\<open>None\<close> when the \<^verbatim>\<open>ioctl\<close> fails), \<^verbatim>\<open>fcntl\<close>, \<^verbatim>\<open>if_nametoindex\<close> and \<^verbatim>\<open>bind\<close>. The name in the request has
  room for 16 characters.
\<close>

record ether_os =
  os_socket :: int
  os_hwaddr :: "string \<Rightarrow> byte list option"
  os_alloc :: bool
  os_setfl :: int
  os_ifindex :: "string \<Rightarrow> int option"
  os_nametoindex :: "string \<Rightarrow> int"
  os_bind :: int

abbreviation (input) IFNAMSIZ :: nat where "IFNAMSIZ \<equiv> 16"

definition tloe_ether_open :: "ether_os \<Rightarrow> byte list \<Rightarrow> string \<Rightarrow> string \<Rightarrow> int \<Rightarrow> TloeEther run" where
  "tloe_ether_open os junk ifname dest_mac_str qflags =
     (if os_socket os < 0 then Inl Exit_Failure
      else bind_run (tloe_mac_str2bytes dest_mac_str junk) (\<lambda>(_, dest_mac').
        case os_hwaddr os (take IFNAMSIZ ifname) of
          None \<Rightarrow> Inl Exit_Failure
        | Some src_mac' \<Rightarrow>
            bind_run (tloe_ether_alloc_and_init (os_alloc os) dest_mac' src_mac') (\<lambda>ether.
            if os_setfl os < 0 then Inl Exit_Failure
            else case os_ifindex os (take IFNAMSIZ ifname) of
                   None \<Rightarrow> Inl Exit_Failure
                 | Some ifr_ifindex \<Rightarrow>
                     if os_nametoindex os ifname = 0 then Inl Exit_Failure
                     else if os_bind os < 0 then Inl Exit_Failure
                     else Inr (ether\<lparr>sll := \<lparr>sll_ifindex = ifr_ifindex, sll_halen = 6, sll_addr = dest_mac' @ [0, 0]\<rparr>,
                                    sock := os_socket os\<rparr>))))"

text \<open>The descriptors \<open>tloe_ether_close\<close> closes.\<close>

definition tloe_ether_close :: "TloeEther option \<Rightarrow> int list" where
  "tloe_ether_close ether =
     (case ether of None \<Rightarrow> [] | Some eth \<Rightarrow> if sock eth \<noteq> -1 then [sock eth] else [])"

text \<open>The header record that \<open>get_tloe_ether\<close> fills.\<close>

record tloe_ether_header_t =
  dest_mac_addr :: "byte list"
  src_mac_addr :: "byte list"
  eth_type :: "16 word"

definition set_tloe_ether :: "tloe_ether_header_t \<Rightarrow> byte list \<Rightarrow> byte list \<Rightarrow> 16 word \<Rightarrow> tloe_ether_header_t" where
  "set_tloe_ether tloeether dest src type = tloeether\<lparr>dest_mac_addr := take 6 dest, src_mac_addr := take 6 src, eth_type := type\<rparr>"

definition get_tloe_ether :: "tloe_ether_header_t \<Rightarrow> tloe_ether_header_t" where
  "get_tloe_ether junk = set_tloe_ether junk [0xFF, 0xEE, 0xDD, 0xCC, 0xBB, 0xAA] [0x11, 0x22, 0x33, 0x44, 0x55, 0x66] 0xAAAA"

text \<open>
  The bytes \<open>tloe_ether_send\<close> passes to \<^verbatim>\<open>sendto\<close>. The buffer is on the stack and not cleared: \<open>junk\<close> (1518 bytes) is what
  it held.
\<close>

definition tloe_ether_send :: "byte list \<Rightarrow> TloeEther \<Rightarrow> byte list \<Rightarrow> byte list" where
  "tloe_ether_send junk eth payload =
     (let payload_size = (if length payload \<ge> ETHERMTU then ETHERMTU else length payload);
          buffer = dest_mac eth @ src_mac eth @ [ucast (ether_type eth), ucast (drop_bit 8 (ether_type eth))] @
                   take payload_size payload @ drop (ETHER_HDR_LEN + payload_size) junk;
          send_size = ETHER_HDR_LEN + payload_size;
          send_size = (if send_size < ETHER_MIN_LEN then ETHER_MIN_LEN
                       else if send_size \<ge> ETHER_MAX_LEN then ETHER_MAX_LEN else send_size)
      in take send_size buffer)"

text \<open>
  \<open>tloe_ether_recv\<close> on what \<^verbatim>\<open>recvfrom\<close> delivers: \<open>None\<close> an error, otherwise the frame; \<open>junk\<close> is the rest
  of the stack buffer. A frame shorter than the header makes \<^verbatim>\<open>copy_size\<close> negative, which compares
  as a large unsigned number.
\<close>

definition tloe_ether_recv :: "byte list \<Rightarrow> byte list option \<Rightarrow> nat \<Rightarrow> int \<times> byte list" where
  "tloe_ether_recv junk frame payload_size =
     (case frame of
        None \<Rightarrow> (-1, [])
      | Some bs \<Rightarrow>
          let buffer = bs @ drop (length bs) junk in
          if take 2 (drop 12 buffer) \<noteq> [0xAA, 0xAA] then (-1, [])
          else
            let copy_size = int (length bs) - int ETHER_HDR_LEN;
                copy_size = (if copy_size < 0 \<or> copy_size > int payload_size then int payload_size else copy_size)
            in (copy_size, take (nat copy_size) (drop ETHER_HDR_LEN buffer)))"

text \<open>
  The retry loop around \<^verbatim>\<open>sendto\<close>, on the results of its calls: the value and whether \<^verbatim>\<open>errno\<close> is \<^verbatim>\<open>EAGAIN\<close>.
\<close>

fun sendto_retry :: "(int \<times> bool) list \<Rightarrow> int run" where
  "sendto_retry [] = Inl Diverge"
| "sendto_retry ((actual_send_size, eagain) # rs) =
     (if actual_send_size = -1 \<and> eagain then sendto_retry rs else Inr actual_send_size)"

section \<open>Properties\<close>

lemma mq_open_new:
  assumes "mq_open w name c mx sz = (d, w')" "d \<noteq> -1"
  shows "d = next_mqd w" "mqds w' = (mqds w)(d := Some name)" "next_mqd w' = next_mqd w + 1"
    "queues w' name \<noteq> None" "n \<noteq> name \<Longrightarrow> queues w' n = queues w n"
    "queues w name \<noteq> None \<Longrightarrow> queues w' = queues w"
  using assms by (auto simp: mq_open_def Let_def split: if_splits)

lemma tloe_mq_open_names:
  assumes "tloe_mq_open w q role fl = Inr (mq, w')" "0 \<le> next_mqd w"
  shows "mqds w' (mq_tx mq) = Some (q @ fst (mq_suffixes role))" "mqds w' (mq_rx mq) = Some (q @ snd (mq_suffixes role))"
    "mq_tx mq = next_mqd w" "mq_rx mq = next_mqd w + 1" "next_mqd w' = next_mqd w + 2"
    "d < next_mqd w \<Longrightarrow> mqds w' d = mqds w d"
proof -
  from assms(1) obtain tx w1 rx where 1: "create_message_queue w q (fst (mq_suffixes role)) (odd fl) = Inr (tx, w1)"
    and 2: "create_message_queue w1 q (snd (mq_suffixes role)) (odd fl) = Inr (rx, w')"
    and mq: "mq = \<lparr>mq_tx = tx, mq_rx = rx\<rparr>"
    by (auto simp: tloe_mq_open_def Let_def bind_run_eq_Inr tloe_mq_alloc_and_init_def split: prod.splits)
  have a: "mq_open w (q @ fst (mq_suffixes role)) (odd fl) 10 1600 = (tx, w1)" "tx \<noteq> -1"
    using 1 by (auto simp: create_message_queue_def split: if_splits prod.splits)
  have b: "mq_open w1 (q @ snd (mq_suffixes role)) (odd fl) 10 1600 = (rx, w')" "rx \<noteq> -1"
    using 2 by (auto simp: create_message_queue_def split: if_splits prod.splits)
  show "mqds w' (mq_tx mq) = Some (q @ fst (mq_suffixes role))" "mqds w' (mq_rx mq) = Some (q @ snd (mq_suffixes role))"
    "mq_tx mq = next_mqd w" "mq_rx mq = next_mqd w + 1" "next_mqd w' = next_mqd w + 2"
    "d < next_mqd w \<Longrightarrow> mqds w' d = mqds w d"
    using mq_open_new [OF a] mq_open_new [OF b] mq by simp_all
qed

text \<open>
  A master and a slave that open the same queue name are connected to each other: each transmits into the queue
  the other receives from, and the two directions use different queues.
\<close>

theorem mq_roles_are_connected:
  assumes "0 \<le> next_mqd w" "tloe_mq_open w q ''-master'' 1 = Inr (m, w1)" "tloe_mq_open w1 q ''-slave'' 0 = Inr (s, w2)"
  shows "mqds w2 (mq_tx m) = mqds w2 (mq_rx s) \<and> mqds w2 (mq_rx m) = mqds w2 (mq_tx s) \<and>
    mqds w2 (mq_tx m) \<noteq> mqds w2 (mq_rx m)"
proof -
  note m = tloe_mq_open_names [OF assms(2,1)]
  have n: "0 \<le> next_mqd w1" using m(5) assms(1) by simp
  note s = tloe_mq_open_names [OF assms(3) n]
  have "mqds w2 (mq_tx m) = mqds w1 (mq_tx m)" "mqds w2 (mq_rx m) = mqds w1 (mq_rx m)"
    using m(3-5) by (auto intro!: s(6))
  then show ?thesis using m(1,2) s(1,2) by (simp add: mq_suffixes_def)
qed

definition empty_world :: mq_world where
  "empty_world = \<lparr>queues = \<lambda>_. None, mqds = \<lambda>_. None, next_mqd = 3\<rparr>"

theorem mq_roles_are_connected_witness:
  "\<exists>m s w1 w2. tloe_mq_open empty_world ''/port'' ''-master'' 1 = Inr (m, w1) \<and>
    tloe_mq_open w1 ''/port'' ''-slave'' 0 = Inr (s, w2) \<and> mqds w2 (mq_tx m) = mqds w2 (mq_rx s) \<and>
    mqds w2 (mq_rx m) = mqds w2 (mq_tx s) \<and> mqds w2 (mq_tx m) \<noteq> mqds w2 (mq_rx m)"
proof -
  obtain m w1 where 1: "tloe_mq_open empty_world ''/port'' ''-master'' 1 = Inr (m, w1)"
    "queues w1 ''/port-a'' \<noteq> None" "queues w1 ''/port-b'' \<noteq> None" "next_mqd w1 = 5"
    by (auto simp: tloe_mq_open_def create_message_queue_def mq_open_def mq_suffixes_def empty_world_def Let_def)
  then obtain s w2 where 2: "tloe_mq_open w1 ''/port'' ''-slave'' 0 = Inr (s, w2)"
    by (auto simp: tloe_mq_open_def create_message_queue_def mq_open_def mq_suffixes_def Let_def)
  have "0 \<le> next_mqd empty_world" by (simp add: empty_world_def)
  from mq_roles_are_connected [OF this 1(1) 2] 1(1) 2 show ?thesis by blast
qed

text \<open>
  A TLoE packet survives the Ethernet backend: what \<open>tloe_ether_send\<close> puts on the wire for a packet of 56 to 1500 bytes (every frame the
  program sends) is at least the minimum frame size and \<open>tloe_ether_recv\<close> returns exactly the packet, whatever
  the uninitialised buffers held.
\<close>

lemma ether_frame_round_trip:
  assumes "length (dest_mac eth) = 6" "length (src_mac eth) = 6" "ether_type eth = 0xAAAA"
    and "56 \<le> length p" "length p \<le> ETHERMTU" "length junk = ETHER_MAX_LEN"
  shows "length (tloe_ether_send junk eth p) = 14 + length p \<and>
    tloe_ether_recv junk' (Some (tloe_ether_send junk eth p)) 1500 = (int (length p), p)"
proof -
  let ?h = "dest_mac eth @ src_mac eth @ [0xAA, 0xAA]"
  have hl: "length ?h = 14" using assms by simp
  have "(ucast (0xAAAA :: 16 word) :: byte) = 0xAA" "(ucast (drop_bit 8 (0xAAAA :: 16 word)) :: byte) = 0xAA"
    by (simp_all add: drop_bit_eq_div)
  then have s: "tloe_ether_send junk eth p = ?h @ p"
    using assms by (auto simp: tloe_ether_send_def Let_def)
  have "take 2 (drop 12 ((?h @ p) @ drop (length (?h @ p)) junk')) = [0xAA, 0xAA]" using assms by simp
  then show ?thesis using s hl assms by (simp add: tloe_ether_recv_def Let_def)
qed

definition sample_ether :: TloeEther where
  "sample_ether = \<lparr>sock = 5, sll = \<lparr>sll_ifindex = 2, sll_halen = 6, sll_addr = replicate 6 1 @ [0, 0]\<rparr>,
     dest_mac = replicate 6 1, src_mac = replicate 6 2, ether_type = 0xAAAA\<rparr>"

section \<open>MAC addresses\<close>

text \<open>The usual notation of an address.\<close>

definition mac_string :: "byte list \<Rightarrow> string" where
  "mac_string bs = concat (map (\<lambda>b. hex2 b @ '':'') (butlast bs)) @ hex2 (last bs)"

lemma mac_format:
  "parse_format ''%hhx:%hhx:%hhx:%hhx:%hhx:%hhx'' =
     [Conv_Hex 8, Lit CHR '':'', Conv_Hex 8, Lit CHR '':'', Conv_Hex 8, Lit CHR '':'', Conv_Hex 8, Lit CHR '':'',
      Conv_Hex 8, Lit CHR '':'', Conv_Hex 8]"
  by (simp add: parse_format.simps isspace_def)

lemma colon_not_hex: "\<not> is_hex CHR '':''"
  by (simp add: is_hex_def hex_digit_def)

lemma scan_byte_colon:
  "scan (Conv_Hex 8 # Lit CHR '':'' # fmt) (hex2 b @ CHR '':'' # rest) =
     bind_run (scan fmt rest) (\<lambda>vs. Inr (Scan_Hex (uint b) # vs))"
proof -
  have "hex_value (hex2 b) < 2 ^ 8" using unsigned_less [of b, where ?'a = nat] by simp
  then show ?thesis
    using scan_conv_hex [of "hex2 b" "CHR '':'' # rest" 8 "Lit CHR '':'' # fmt"] hex2_hex [of _ b] colon_not_hex
    by (simp del: scan.simps(5))
qed

lemma scan_byte_end: "scan [Conv_Hex 8] (hex2 b) = Inr [Scan_Hex (uint b)]"
proof -
  have "hex_value (hex2 b) < 2 ^ 8" using unsigned_less [of b, where ?'a = nat] by simp
  then show ?thesis
    using scan_conv_hex [of "hex2 b" "[]" 8 "[]"] hex2_hex [of _ b] by (simp del: scan.simps(5))
qed

text \<open>
  MAC addresses are read back: for any six bytes written in the usual notation with colons, \<open>tloe_mac_str2bytes\<close> succeeds
  and yields these bytes.
\<close>

theorem mac_round_trip:
  "tloe_mac_str2bytes (mac_string [a, b, c, d, e, f]) junk = Inr (0, [a, b, c, d, e, f] @ drop 6 junk)"
  by (simp add: tloe_mac_str2bytes_def sscanf_def mac_format mac_string_def scan_byte_colon scan_byte_end
      del: scan.simps(5)) (simp add: eval_nat_numeral)

text \<open>
  A malformed MAC address goes unnoticed: \<open>tloe_ether_open\<close> ignores the result of \<open>tloe_mac_str2bytes\<close>. When the argument of \<^verbatim>\<open>-d\<close> does not
  start with a hexadecimal number and the system calls succeed, the endpoint is opened with whatever the stack
  held as its destination address.
\<close>

theorem ether_open_ignores_bad_mac:
  assumes "scan_hex s = None" "0 \<le> os_socket os" "os_hwaddr os (take IFNAMSIZ ifname) = Some src" "os_alloc os"
    and "0 \<le> os_setfl os" "os_ifindex os (take IFNAMSIZ ifname) = Some i" "os_nametoindex os ifname \<noteq> 0" "0 \<le> os_bind os"
  shows "tloe_mac_str2bytes s junk = Inr (-1, junk) \<and>
    (\<exists>eth. tloe_ether_open os junk ifname s q = Inr eth \<and> dest_mac eth = junk \<and> sll_addr (sll eth) = junk @ [0, 0] \<and>
      sock eth = os_socket os)"
proof -
  have "tloe_mac_str2bytes s junk = Inr (-1, junk)"
    using assms(1) by (simp add: tloe_mac_str2bytes_def sscanf_def mac_format)
  then show ?thesis using assms(2-8) by (simp add: tloe_ether_open_def tloe_ether_alloc_and_init_def)
qed

definition sample_os :: ether_os where
  "sample_os = \<lparr>os_socket = 5, os_hwaddr = \<lambda>_. Some (replicate 6 2), os_alloc = True, os_setfl = 0,
     os_ifindex = \<lambda>_. Some 2, os_nametoindex = \<lambda>_. 2, os_bind = 0\<rparr>"

theorem ether_open_ignores_bad_mac_witness:
  "\<exists>eth. tloe_ether_open sample_os (replicate 6 9) ''eth0'' ''nonsense'' 0 = Inr eth \<and> dest_mac eth = replicate 6 9"
proof -
  have "scan_hex ''nonsense'' = None" by (simp add: scan_hex_def hex_prefix_def is_hex_def hex_digit_def isspace_def)
  from ether_open_ignores_bad_mac [OF this, of sample_os "''eth0''" "replicate 6 2" 2 "replicate 6 9" 0] show ?thesis
    by (auto simp: sample_os_def)
qed

end
