(* ===== verification/Fabric_Ops.thy ===== *)
theory Fabric_Ops
  imports Fabric_Backends
begin

text \<open>
  The functions behind the two tables of \<^verbatim>\<open>tloe_fabric.c\<close>, and the contract that both backends offer to
  the protocol: an interface of bounded first-in first-out transport, with the consequences proved once for both.
\<close>

section \<open>The wrapper functions\<close>

text \<open>
  A wrapper casts the handle to the type of its backend; a handle of the other backend makes that undefined. The results of the
  system calls of the Ethernet backend are arguments; what it sends is the frame it hands to \<^verbatim>\<open>sendto\<close>.
\<close>

definition ether_send_wrapper :: "(int \<times> bool) list \<Rightarrow> byte list \<Rightarrow> fabric_handle \<Rightarrow> byte list \<Rightarrow> (int \<times> byte list) run" where
  "ether_send_wrapper results junk h payload =
     (case h of Ether eth \<Rightarrow> bind_run (sendto_retry results) (\<lambda>r. Inr (r, tloe_ether_send junk eth payload))
      | MQ _ \<Rightarrow> Inl Undefined)"

definition ether_recv_wrapper :: "byte list \<Rightarrow> byte list option \<Rightarrow> fabric_handle \<Rightarrow> nat \<Rightarrow> (int \<times> byte list) run" where
  "ether_recv_wrapper junk delivered h len =
     (case h of Ether eth \<Rightarrow> Inr (tloe_ether_recv junk delivered len) | MQ _ \<Rightarrow> Inl Undefined)"

definition ether_open_wrapper :: "ether_os \<Rightarrow> byte list \<Rightarrow> string \<Rightarrow> string \<Rightarrow> int \<Rightarrow> fabric_handle run" where
  "ether_open_wrapper os junk name opt q = bind_run (tloe_ether_open os junk name opt q) (\<lambda>eth. Inr (Ether eth))"

definition ether_close_wrapper :: "fabric_handle \<Rightarrow> int list run" where
  "ether_close_wrapper h = (case h of Ether eth \<Rightarrow> Inr (tloe_ether_close (Some eth)) | MQ _ \<Rightarrow> Inl Undefined)"

definition mq_send_wrapper :: "fabric_handle \<Rightarrow> byte list \<Rightarrow> mq_world \<Rightarrow> (int \<times> mq_world) run" where
  "mq_send_wrapper h msg w = (case h of MQ mq \<Rightarrow> Inr (tloe_mq_send w mq msg) | Ether _ \<Rightarrow> Inl Undefined)"

definition mq_recv_wrapper :: "fabric_handle \<Rightarrow> nat \<Rightarrow> mq_world \<Rightarrow> (int \<times> byte list \<times> mq_world) run" where
  "mq_recv_wrapper h len w = (case h of MQ mq \<Rightarrow> tloe_mq_recv w mq len | Ether _ \<Rightarrow> Inl Undefined)"

definition mq_open_wrapper :: "string \<Rightarrow> string \<Rightarrow> int \<Rightarrow> mq_world \<Rightarrow> (fabric_handle \<times> mq_world) run" where
  "mq_open_wrapper name opt q w = bind_run (tloe_mq_open w name opt q) (\<lambda>(mq, w). Inr (MQ mq, w))"

definition mq_close_wrapper :: "fabric_handle \<Rightarrow> mq_world \<Rightarrow> mq_world run" where
  "mq_close_wrapper h w = (case h of MQ mq \<Rightarrow> Inr (tloe_mq_close w (Some mq)) | Ether _ \<Rightarrow> Inl Undefined)"

text \<open>The \<^verbatim>\<open>open\<close> entries of the two tables, as \<open>tloe_fabric_open\<close> calls them.\<close>

definition table_open :: "ether_os \<Rightarrow> byte list \<Rightarrow> mq_world backend_open" where
  "table_open os junk t name opt q w =
     (case t of
        TLOE_FABRIC_ETHER \<Rightarrow> bind_run (ether_open_wrapper os junk name opt q) (\<lambda>h. Inr (Some h, w))
      | TLOE_FABRIC_MQ \<Rightarrow> bind_run (mq_open_wrapper name opt q w) (\<lambda>(h, w). Inr (Some h, w)))"

section \<open>The contract of a fabric\<close>

text \<open>Receiving \<open>n\<close> times.\<close>

fun receive_n :: "('w \<Rightarrow> (int \<times> byte list \<times> 'w) run) \<Rightarrow> nat \<Rightarrow> 'w \<Rightarrow> (byte list list \<times> 'w) run" where
  "receive_n get 0 w = Inr ([], w)"
| "receive_n get (Suc n) w =
     bind_run (get w) (\<lambda>(_, p, w). bind_run (receive_n get n w) (\<lambda>(ps, w). Inr (p # ps, w)))"

text \<open>
  One direction of a fabric: \<open>put\<close> at the sender, \<open>get\<close> at the receiver. The packets \<open>waiting\<close> in between
  come out in order and unchanged, with their length as the result of the receive; a negative result means
  there is none.
\<close>

locale packet_fabric =
  fixes put :: "byte list \<Rightarrow> 'w \<Rightarrow> 'w" and get :: "'w \<Rightarrow> (int \<times> byte list \<times> 'w) run"
    and waiting :: "'w \<Rightarrow> byte list list" and room :: "'w \<Rightarrow> nat" and up :: "'w \<Rightarrow> bool" and fits :: "byte list \<Rightarrow> bool"
  assumes put_law: "up w \<Longrightarrow> fits p \<Longrightarrow> 0 < room w \<Longrightarrow>
      up (put p w) \<and> waiting (put p w) = waiting w @ [p] \<and> Suc (room (put p w)) = room w"
    and get_law: "up w \<Longrightarrow> waiting w = p # ps \<Longrightarrow>
      \<exists>w'. get w = Inr (int (length p), p, w') \<and> up w' \<and> waiting w' = ps \<and> room w' = Suc (room w)"
    and get_none: "up w \<Longrightarrow> waiting w = [] \<Longrightarrow> \<exists>n b. get w = Inr (n, b, w) \<and> n < 0"
begin

lemma put_all:
  assumes "up w" "\<forall>p \<in> set ps. fits p" "length ps \<le> room w"
  shows "up (fold put ps w) \<and> waiting (fold put ps w) = waiting w @ ps"
  using assms
proof (induction ps arbitrary: w)
  case (Cons p ps)
  have "up (put p w) \<and> waiting (put p w) = waiting w @ [p] \<and> Suc (room (put p w)) = room w"
    using Cons.prems by (intro put_law) auto
  then show ?case using Cons.IH [of "put p w"] Cons.prems by auto
qed simp

lemma get_all:
  assumes "up w"
  shows "\<exists>w'. receive_n get (length (waiting w)) w = Inr (waiting w, w') \<and> up w' \<and> waiting w' = []"
  using assms
proof (induction "waiting w" arbitrary: w)
  case Nil
  then show ?case by auto
next
  case (Cons p ps)
  obtain w' where w': "get w = Inr (int (length p), p, w')" "up w'" "waiting w' = ps"
    using get_law [OF Cons.prems Cons.hyps(2) [symmetric]] by blast
  from Cons.hyps(1) [OF w'(3) [symmetric] w'(2)] w' show ?case by (auto simp: Cons.hyps(2) [symmetric])
qed

text \<open>What is sent is received, and then nothing is left.\<close>

lemma transfer:
  assumes "up w" "waiting w = []" "\<forall>p \<in> set ps. fits p" "length ps \<le> room w"
  shows "\<exists>w' n b. receive_n get (length ps) (fold put ps w) = Inr (ps, w') \<and> get w' = Inr (n, b, w') \<and> n < 0"
proof -
  have "up (fold put ps w)" "waiting (fold put ps w) = ps" using put_all [OF assms(1,3,4)] assms(2) by simp_all
  with get_all [of "fold put ps w"] show ?thesis using get_none by fastforce
qed

end

section \<open>Message queues as a fabric\<close>

text \<open>The descriptors \<open>d\<close> (to send) and \<open>d'\<close> (to receive) belong to the queue \<open>name\<close>.\<close>

definition mq_waiting :: "string \<Rightarrow> mq_world \<Rightarrow> byte list list" where
  "mq_waiting name w = (case queues w name of None \<Rightarrow> [] | Some q \<Rightarrow> mq_msgs q)"

definition mq_room :: "string \<Rightarrow> mq_world \<Rightarrow> nat" where
  "mq_room name w = (case queues w name of None \<Rightarrow> 0 | Some q \<Rightarrow> mq_maxmsg q - length (mq_msgs q))"

definition mq_up :: "string \<Rightarrow> int \<Rightarrow> int \<Rightarrow> mq_world \<Rightarrow> bool" where
  "mq_up name d d' w \<longleftrightarrow> mqds w d = Some name \<and> mqds w d' = Some name \<and>
     (\<exists>q. queues w name = Some q \<and> mq_msgsize q = TLOE_MQ_MSG_SIZE \<and> length (mq_msgs q) \<le> mq_maxmsg q \<and>
       (\<forall>p \<in> set (mq_msgs q). length p \<le> MAX_BUFFER_SIZE))"

interpretation mqf: packet_fabric "\<lambda>p w. snd (tloe_mq_send w m p)" "\<lambda>w. tloe_mq_recv w s MAX_BUFFER_SIZE"
  "mq_waiting name" "mq_room name" "mq_up name (mq_tx m) (mq_rx s)" "\<lambda>p. length p \<le> MAX_BUFFER_SIZE" for name m s
proof
  fix w and p :: "byte list"
  assume "mq_up name (mq_tx m) (mq_rx s) w" "length p \<le> 1500" "0 < mq_room name w"
  then show "mq_up name (mq_tx m) (mq_rx s) (snd (tloe_mq_send w m p)) \<and>
      mq_waiting name (snd (tloe_mq_send w m p)) = mq_waiting name w @ [p] \<and>
      Suc (mq_room name (snd (tloe_mq_send w m p))) = mq_room name w"
    by (auto simp: mq_up_def mq_room_def mq_waiting_def tloe_mq_send_def mq_send_def)
next
  fix w p ps
  assume "mq_up name (mq_tx m) (mq_rx s) w" "mq_waiting name w = p # ps"
  then show "\<exists>w'. tloe_mq_recv w s 1500 = Inr (int (length p), p, w') \<and> mq_up name (mq_tx m) (mq_rx s) w' \<and>
      mq_waiting name w' = ps \<and> mq_room name w' = Suc (mq_room name w)"
    by (auto simp: mq_up_def mq_room_def mq_waiting_def tloe_mq_recv_def mq_receive_def)
next
  fix w
  assume "mq_up name (mq_tx m) (mq_rx s) w" "mq_waiting name w = []"
  then show "\<exists>n b. tloe_mq_recv w s 1500 = Inr (n, b, w) \<and> n < 0"
    by (auto simp: mq_up_def mq_waiting_def tloe_mq_recv_def mq_receive_def)
qed

section \<open>Ethernet as a fabric\<close>

text \<open>
  Between two Ethernet endpoints there is a list of frames, of which the receiving socket holds at most \<open>c\<close>.
\<close>

definition ether_put :: "byte list \<Rightarrow> TloeEther \<Rightarrow> byte list \<Rightarrow> byte list list \<Rightarrow> byte list list" where
  "ether_put junk eth p fs = fs @ [tloe_ether_send junk eth p]"

definition ether_get :: "byte list \<Rightarrow> byte list list \<Rightarrow> (int \<times> byte list \<times> byte list list) run" where
  "ether_get junk fs =
     (case fs of [] \<Rightarrow> (let (n, p) = tloe_ether_recv junk None MAX_BUFFER_SIZE in Inr (n, p, []))
      | f # fs' \<Rightarrow> (let (n, p) = tloe_ether_recv junk (Some f) MAX_BUFFER_SIZE in Inr (n, p, fs')))"

definition ether_packet :: "byte list \<Rightarrow> bool" where
  "ether_packet p \<longleftrightarrow> 56 \<le> length p \<and> length p \<le> ETHERMTU"

definition ether_up :: "nat \<Rightarrow> byte list \<Rightarrow> TloeEther \<Rightarrow> byte list list \<Rightarrow> bool" where
  "ether_up c junk eth fs \<longleftrightarrow> length (dest_mac eth) = 6 \<and> length (src_mac eth) = 6 \<and> ether_type eth = 0xAAAA \<and>
     length junk = ETHER_MAX_LEN \<and> length fs \<le> c \<and>
     (\<forall>f \<in> set fs. \<exists>p. f = tloe_ether_send junk eth p \<and> ether_packet p)"

lemma ether_wire:
  assumes "ether_up c junk eth fs" "ether_packet p"
  shows "drop 14 (tloe_ether_send junk eth p) = p"
    "tloe_ether_recv junk' (Some (tloe_ether_send junk eth p)) 1500 = (int (length p), p)"
proof -
  have e: "length (dest_mac eth) = 6" "length (src_mac eth) = 6" "length p \<le> 1500" "56 \<le> length p"
    using assms by (auto simp: ether_up_def ether_packet_def)
  show "drop 14 (tloe_ether_send junk eth p) = p" using e by (auto simp: tloe_ether_send_def Let_def)
  show "tloe_ether_recv junk' (Some (tloe_ether_send junk eth p)) 1500 = (int (length p), p)"
    by (rule conjunct2 [OF ether_frame_round_trip]) (use assms in \<open>auto simp: ether_up_def ether_packet_def\<close>)
qed

interpretation ethf: packet_fabric "ether_put junk eth" "ether_get junk'" "map (drop 14)"
  "\<lambda>fs. c - length fs" "ether_up c junk eth" ether_packet for c junk eth junk'
proof
  fix fs p
  assume "ether_up c junk eth fs" "ether_packet p" "0 < c - length fs"
  then show "ether_up c junk eth (ether_put junk eth p fs) \<and> map (drop 14) (ether_put junk eth p fs) = map (drop 14) fs @ [p] \<and>
      Suc (c - length (ether_put junk eth p fs)) = c - length fs"
    using ether_wire(1) [of c junk eth fs p] by (auto simp: ether_up_def ether_put_def)
next
  fix fs p ps
  assume u: "ether_up c junk eth fs" "map (drop 14) fs = p # ps"
  then obtain f fs' where f: "fs = f # fs'" "drop 14 f = p" "map (drop 14) fs' = ps" by auto
  obtain p' where "f = tloe_ether_send junk eth p'" "ether_packet p'" using u(1) f(1) by (auto simp: ether_up_def)
  with f ether_wire(1) [OF u(1) this(2)] ether_wire(2) [OF u(1) this(2), of junk'] u(1)
  show "\<exists>w'. ether_get junk' fs = Inr (int (length p), p, w') \<and> ether_up c junk eth w' \<and> map (drop 14) w' = ps \<and>
      c - length w' = Suc (c - length fs)"
    by (auto simp: ether_get_def ether_up_def)
next
  fix fs
  assume "ether_up c junk eth fs" "map (drop 14) fs = []"
  then show "\<exists>n b. ether_get junk' fs = Inr (n, b, fs) \<and> n < 0" by (simp add: ether_get_def tloe_ether_recv_def)
qed

section \<open>Properties\<close>

text \<open>
  C26: both backends keep the promise of the fabric table: packets handed to \<open>tloe_mq_send\<close> come out of \<open>tloe_mq_recv\<close> at the peer, and packets
  framed by \<open>tloe_ether_send\<close> come out of \<open>tloe_ether_recv\<close>, complete, unchanged and in order, as long as the queue in
  between has room; after that a receive reports that there is nothing.
\<close>

theorem fabric_transfers:
  assumes "mq_up name (mq_tx m) (mq_rx s) w" "mq_waiting name w = []" "\<forall>p \<in> set ps. length p \<le> MAX_BUFFER_SIZE"
    and "length ps \<le> mq_room name w"
    and "ether_up c junk eth []" "\<forall>p \<in> set qs. ether_packet p" "length qs \<le> c"
  shows "(\<exists>w' n b. receive_n (\<lambda>w. tloe_mq_recv w s MAX_BUFFER_SIZE) (length ps) (fold (\<lambda>p w. snd (tloe_mq_send w m p)) ps w) =
      Inr (ps, w') \<and> tloe_mq_recv w' s MAX_BUFFER_SIZE = Inr (n, b, w') \<and> n < 0) \<and>
    (\<exists>fs n b. receive_n (ether_get junk') (length qs) (fold (ether_put junk eth) qs []) = Inr (qs, fs) \<and>
      ether_get junk' fs = Inr (n, b, fs) \<and> n < 0)"
  using mqf.transfer [OF assms(1-4)] ethf.transfer [OF assms(5) _ assms(6), of junk'] assms(7) by simp

definition sample_world :: mq_world where
  "sample_world = \<lparr>queues = [''q'' \<mapsto> \<lparr>mq_maxmsg = 10, mq_msgsize = 1600, mq_msgs = []\<rparr>], mqds = [3 \<mapsto> ''q'', 4 \<mapsto> ''q''], next_mqd = 5\<rparr>"

theorem fabric_transfers_witness:
  "(\<exists>w' n b. receive_n (\<lambda>w. tloe_mq_recv w \<lparr>mq_tx = 9, mq_rx = 4\<rparr> 1500) 2
      (fold (\<lambda>p w. snd (tloe_mq_send w \<lparr>mq_tx = 3, mq_rx = 9\<rparr> p)) [[1], [2, 3]] sample_world) = Inr ([[1], [2, 3]], w') \<and>
      tloe_mq_recv w' \<lparr>mq_tx = 9, mq_rx = 4\<rparr> 1500 = Inr (n, b, w') \<and> n < 0) \<and>
   (\<exists>fs n b. receive_n (ether_get []) 1 (fold (ether_put (replicate 1518 0) sample_ether) [replicate 60 7] []) =
      Inr ([replicate 60 7], fs) \<and> ether_get [] fs = Inr (n, b, fs) \<and> n < 0)"
proof -
  have "mq_up ''q'' 3 4 sample_world" "mq_waiting ''q'' sample_world = []" "mq_room ''q'' sample_world = 10"
    by (simp_all add: mq_up_def mq_waiting_def mq_room_def sample_world_def)
  moreover have "ether_up 1 (replicate 1518 0) sample_ether []" by (simp add: ether_up_def sample_ether_def)
  ultimately show ?thesis
    using fabric_transfers [of "''q''" "\<lparr>mq_tx = 3, mq_rx = 9\<rparr>" "\<lparr>mq_tx = 9, mq_rx = 4\<rparr>" sample_world "[[1], [2, 3]]" 1
        "replicate 1518 0" sample_ether "[replicate 60 7]" "[]"]
    by (simp add: ether_packet_def numeral_2_eq_2)
qed

end
