(* ===== verification/Network_Sim.thy ===== *)
theory Network_Sim
  imports Fabric_Backends
begin

text \<open>
  The network simulator \<^verbatim>\<open>tloe_ns\<close> (\<^verbatim>\<open>tloe_ns_thread.c\<close>, \<^verbatim>\<open>tloe_ns.c\<close>): a thread that relays packets between
  two ports and drops as many of them as the user asked for, and the command interpreter that controls it.
\<close>

section \<open>State\<close>

abbreviation (input) BUFFER_SIZE :: nat where "BUFFER_SIZE \<equiv> 1024"

record ns_state =
  ns_is_done :: int
  ep_port_a :: "TloeMQ option"
  ep_port_b :: "TloeMQ option"
  drop_count_a_to_b :: int
  drop_count_b_to_a :: int
  world :: mq_world

section \<open>The relay thread\<close>

text \<open>The port names are built in buffers of 64 bytes, so \<^verbatim>\<open>snprintf\<close> keeps 63 characters.\<close>

definition thread_init :: "string \<Rightarrow> ns_state \<Rightarrow> (int \<times> ns_state) run" where
  "thread_init queue_name s =
     (let port_a_queue = take 63 (queue_name @ ''-a'');
          port_b_queue = take 63 (queue_name @ ''-b'')
      in bind_run (tloe_mq_open (world s) port_a_queue ''-slave'' 1) (\<lambda>(a, w).
         bind_run (tloe_mq_open w port_b_queue ''-master'' 1) (\<lambda>(b, w).
         Inr (0, s\<lparr>ep_port_a := Some a, ep_port_b := Some b, world := w\<rparr>))))"

definition thread_close :: "ns_state \<Rightarrow> ns_state" where
  "thread_close s =
     (let s = (if ep_port_a s \<noteq> None then s\<lparr>world := tloe_mq_close (world s) (ep_port_a s), ep_port_a := None\<rparr> else s)
      in if ep_port_b s \<noteq> None then s\<lparr>world := tloe_mq_close (world s) (ep_port_b s), ep_port_b := None\<rparr> else s)"

definition tloe_ns_set_drop_count_a_to_b :: "int \<Rightarrow> ns_state \<Rightarrow> ns_state" where
  "tloe_ns_set_drop_count_a_to_b count s = s\<lparr>drop_count_a_to_b := count\<rparr>"

definition tloe_ns_set_drop_count_b_to_a :: "int \<Rightarrow> ns_state \<Rightarrow> ns_state" where
  "tloe_ns_set_drop_count_b_to_a count s = s\<lparr>drop_count_b_to_a := count\<rparr>"

definition tloe_ns_set_drop_count_bidirectional :: "int \<Rightarrow> ns_state \<Rightarrow> ns_state" where
  "tloe_ns_set_drop_count_bidirectional count s = s\<lparr>drop_count_a_to_b := count, drop_count_b_to_a := count\<rparr>"

text \<open>The two halves of the loop body of \<^verbatim>\<open>thread_fn\<close>.\<close>

definition relay_a_to_b :: "ns_state \<Rightarrow> ns_state run" where
  "relay_a_to_b s =
     (case (ep_port_a s, ep_port_b s) of
        (Some a, Some b) \<Rightarrow>
          bind_run (tloe_mq_recv (world s) a BUFFER_SIZE) (\<lambda>(n, msg, w).
          let s = s\<lparr>world := w\<rparr> in
          if n > 0 then
            if drop_count_a_to_b s > 0 then Inr (s\<lparr>drop_count_a_to_b := drop_count_a_to_b s - 1\<rparr>)
            else Inr (s\<lparr>world := snd (tloe_mq_send (world s) b msg)\<rparr>)
          else Inr s)
      | _ \<Rightarrow> Inl Undefined)"

definition relay_b_to_a :: "ns_state \<Rightarrow> ns_state run" where
  "relay_b_to_a s =
     (case (ep_port_a s, ep_port_b s) of
        (Some a, Some b) \<Rightarrow>
          bind_run (tloe_mq_recv (world s) b BUFFER_SIZE) (\<lambda>(n, msg, w).
          let s = s\<lparr>world := w\<rparr> in
          if n > 0 then
            if drop_count_b_to_a s > 0 then Inr (s\<lparr>drop_count_b_to_a := drop_count_b_to_a s - 1\<rparr>)
            else Inr (s\<lparr>world := snd (tloe_mq_send (world s) a msg)\<rparr>)
          else Inr s)
      | _ \<Rightarrow> Inl Undefined)"

definition thread_fn_body :: "ns_state \<Rightarrow> ns_state run" where
  "thread_fn_body s = bind_run (relay_a_to_b s) relay_b_to_a"

text \<open>
  \<open>tloe_ns_thread_start\<close>: \<open>created\<close> is the outcome of \<^verbatim>\<open>pthread_create\<close>; the new thread opens its ports first.
  \<open>tloe_ns_thread_stop\<close> ends when the thread has left its loop and closed them.
\<close>

definition tloe_ns_thread_start :: "bool \<Rightarrow> string \<Rightarrow> ns_state \<Rightarrow> ns_state run" where
  "tloe_ns_thread_start created queue_name s =
     (if ns_is_done s = 0 then Inr s
      else let s = s\<lparr>ns_is_done := 0\<rparr> in
        if \<not> created then Inr s
        else bind_run (thread_init queue_name s) (\<lambda>(_, s). Inr s))"

definition tloe_ns_thread_stop :: "ns_state \<Rightarrow> ns_state" where
  "tloe_ns_thread_stop s =
     (if ns_is_done s \<noteq> 0 then s else thread_close (s\<lparr>ns_is_done := 1\<rparr>))"

section \<open>Flushing\<close>

text \<open>
  \<open>flush_message_queue\<close> receives with a buffer of \<^verbatim>\<open>BUFFER_SIZE\<close> bytes until \<^verbatim>\<open>mq_receive\<close> fails. The
  attribute calls only set and restore the non-blocking flag. Fuel: every successful pass takes a message.
\<close>

fun flush_loop :: "nat \<Rightarrow> mq_world \<Rightarrow> int \<Rightarrow> mq_world run" where
  "flush_loop 0 w d = Inl Diverge"
| "flush_loop (Suc fuel) w d =
     (let (n, msg, w') = mq_receive w d BUFFER_SIZE in
      if n \<ge> 0 then flush_loop fuel w' d else Inr w')"

definition pending :: "mq_world \<Rightarrow> int \<Rightarrow> byte list list" where
  "pending w d = (case mqds w d of None \<Rightarrow> []
     | Some name \<Rightarrow> (case queues w name of None \<Rightarrow> [] | Some q \<Rightarrow> mq_msgs q))"

definition flush_message_queue :: "mq_world \<Rightarrow> int \<Rightarrow> (int \<times> mq_world) run" where
  "flush_message_queue w d =
     (if mqds w d = None then Inr (-1, w)
      else bind_run (flush_loop (length (pending w d) + 1) w d) (\<lambda>w. Inr (0, w)))"

definition flush_port :: "TloeMQ option \<Rightarrow> mq_world \<Rightarrow> mq_world run" where
  "flush_port port w =
     (case port of None \<Rightarrow> Inl Undefined
      | Some p \<Rightarrow>
          bind_run (flush_message_queue w (mq_tx p)) (\<lambda>(r, w).
          if r = 0 then bind_run (flush_message_queue w (mq_rx p)) (\<lambda>(_, w). Inr w) else Inr w))"

definition tloe_ns_flush_ports :: "ns_state \<Rightarrow> ns_state run" where
  "tloe_ns_flush_ports s =
     (if ns_is_done s \<noteq> 0 then Inr s
      else bind_run (flush_port (ep_port_a s) (world s)) (\<lambda>w.
           bind_run (flush_port (ep_port_b s) w) (\<lambda>w. Inr (s\<lparr>world := w\<rparr>))))"

definition tloe_ns_thread_is_done :: "ns_state \<Rightarrow> int" where
  [simp]: "tloe_ns_thread_is_done s = ns_is_done s"

section \<open>The command interpreter\<close>

text \<open>
  \<open>parse_cli_argument\<close> walks over what \<^verbatim>\<open>getopt\<close> returns for \<^verbatim>\<open>p:h\<close>; the queue name is kept in 64 bytes. \<open>None\<close> is the
  result \<open>-1\<close>.
\<close>

abbreviation (input) MAX_QUEUE_NAME :: nat where "MAX_QUEUE_NAME \<equiv> 64"
abbreviation (input) MAX_CMD_LEN :: nat where "MAX_CMD_LEN \<equiv> 32"

fun parse_cli_options :: "(char \<times> string) list \<Rightarrow> string \<Rightarrow> string option" where
  "parse_cli_options [] queue_name = Some queue_name"
| "parse_cli_options ((opt, optarg) # os) queue_name =
     (if opt = CHR ''p'' then parse_cli_options os (copy_string MAX_QUEUE_NAME optarg) else None)"

definition parse_cli_argument :: "(char \<times> string) list \<Rightarrow> string option" where
  "parse_cli_argument os =
     (case parse_cli_options os [] of
        None \<Rightarrow> None
      | Some queue_name \<Rightarrow> if queue_name = [] then None else Some queue_name)"

fun is_empty_command :: "string \<Rightarrow> bool" where
  "is_empty_command [] = True"
| "is_empty_command (c # cmd) = (if \<not> isspace c then False else is_empty_command cmd)"

text \<open>One command of the loop of \<^verbatim>\<open>main\<close>; the result says whether the program quits.\<close>

definition ns_command :: "bool \<Rightarrow> string \<Rightarrow> string \<Rightarrow> ns_state \<Rightarrow> (bool \<times> ns_state) run" where
  "ns_command created queue_name cmd s =
     (if is_empty_command cmd then Inr (False, s)
      else if cmd = ''s'' then
        (if tloe_ns_thread_is_done s \<noteq> 0 then bind_run (tloe_ns_thread_start created queue_name s) (\<lambda>s. Inr (False, s))
         else Inr (False, tloe_ns_thread_stop s))
      else if cmd = ''start'' \<or> cmd = ''run'' \<or> cmd = ''r'' then
        bind_run (tloe_ns_thread_start created queue_name s) (\<lambda>s. Inr (False, s))
      else if cmd = ''stop'' \<or> cmd = ''halt'' \<or> cmd = ''h'' then Inr (False, tloe_ns_thread_stop s)
      else if cmd = ''flush'' \<or> cmd = ''f'' then bind_run (tloe_ns_flush_ports s) (\<lambda>s. Inr (False, s))
      else if take 2 cmd = ''a '' then
        bind_run (atoi (drop 2 cmd)) (\<lambda>count.
        Inr (False, if count > 0 then tloe_ns_set_drop_count_a_to_b count s else s))
      else if take 2 cmd = ''b '' then
        bind_run (atoi (drop 2 cmd)) (\<lambda>count.
        Inr (False, if count > 0 then tloe_ns_set_drop_count_b_to_a count s else s))
      else if take 2 cmd = ''w '' then
        bind_run (atoi (drop 2 cmd)) (\<lambda>count.
        Inr (False, if count > 0 then tloe_ns_set_drop_count_bidirectional count s else s))
      else if cmd = ''quit'' \<or> cmd = ''q'' then
        Inr (True, if tloe_ns_thread_is_done s = 0 then tloe_ns_thread_stop s else s)
      else Inr (False, s))"

text \<open>
  The program: between two commands the relay thread, if it runs, makes some number of passes (\<open>ks\<close>); commands are read from
  \<open>inp\<close> until it ends or a command quits.
\<close>

definition relay_passes :: "nat \<Rightarrow> ns_state \<Rightarrow> ns_state run" where
  "relay_passes k s =
     (if ns_is_done s = 0 \<and> ep_port_a s \<noteq> None then fold_run (\<lambda>_. thread_fn_body) (replicate k ()) s else Inr s)"

function ns_main_loop :: "bool \<Rightarrow> string \<Rightarrow> nat list \<Rightarrow> string \<Rightarrow> ns_state \<Rightarrow> ns_state run" where
  "ns_main_loop created queue_name ks inp s =
     bind_run (relay_passes (if ks = [] then 0 else hd ks) s) (\<lambda>s.
     case fgets MAX_CMD_LEN inp of
       (None, _) \<Rightarrow> Inr s
     | (Some cmd, rest) \<Rightarrow>
         bind_run (ns_command created queue_name (chomp cmd) s) (\<lambda>(quit, s).
         if quit then Inr s else ns_main_loop created queue_name (tl ks) rest s))"
  by pat_completeness auto
termination by (relation "measure (\<lambda>(_, _, _, inp, _). length inp)") (auto dest!: fgets_shrinks [OF sym])

declare ns_main_loop.simps [simp del]

definition ns_start :: "mq_world \<Rightarrow> ns_state" where
  "ns_start w = \<lparr>ns_is_done = 1, ep_port_a = None, ep_port_b = None, drop_count_a_to_b = 0, drop_count_b_to_a = 0, world = w\<rparr>"

definition ns_main :: "bool \<Rightarrow> (char \<times> string) list \<Rightarrow> nat list \<Rightarrow> string \<Rightarrow> mq_world \<Rightarrow> (int \<times> ns_state) run" where
  "ns_main created os ks inp w =
     (case parse_cli_argument os of
        None \<Rightarrow> Inr (1, ns_start w)
      | Some queue_name \<Rightarrow> bind_run (ns_main_loop created queue_name ks inp (ns_start w)) (\<lambda>s. Inr (0, s)))"

section \<open>The relay\<close>

text \<open>
  A running relay whose four queues exist: \<open>an\<close>, \<open>bn\<close> are the queues it receives from and \<open>at\<close>, \<open>bt\<close> the ones it
  sends to, all different.
\<close>

definition relay_queues :: "ns_state \<Rightarrow> string \<Rightarrow> string \<Rightarrow> bool" where
  "relay_queues s src dst \<longleftrightarrow> (\<exists>a b. ep_port_a s = Some a \<and> ep_port_b s = Some b \<and>
     mqds (world s) (mq_rx a) = Some src \<and> mqds (world s) (mq_tx b) = Some dst \<and> src \<noteq> dst)"

lemma relay_step:
  assumes r: "relay_queues s src dst"
    and qs: "queues (world s) src = Some qa" "mq_msgsize qa = 1600" "mq_msgs qa = m # ms"
    and qd: "queues (world s) dst = Some qb" "mq_msgsize qb = 1600" "length (mq_msgs qb) < mq_maxmsg qb"
    and m: "0 < length m" "length m \<le> BUFFER_SIZE"
  shows "relay_a_to_b s = Inr (if drop_count_a_to_b s > 0
     then s\<lparr>world := (world s)\<lparr>queues := (queues (world s))(src := Some (qa\<lparr>mq_msgs := ms\<rparr>))\<rparr>,
            drop_count_a_to_b := drop_count_a_to_b s - 1\<rparr>
     else s\<lparr>world := (world s)\<lparr>queues := (queues (world s))(src := Some (qa\<lparr>mq_msgs := ms\<rparr>),
              dst := Some (qb\<lparr>mq_msgs := mq_msgs qb @ [m]\<rparr>))\<rparr>\<rparr>)"
  using assms
  by (auto simp: relay_queues_def relay_a_to_b_def tloe_mq_recv_def mq_receive_def tloe_mq_send_def mq_send_def Let_def)

lemma relay_many:
  assumes "relay_queues s src dst" "queues (world s) src = Some qa" "mq_msgsize qa = 1600"
    and "queues (world s) dst = Some qb" "mq_msgsize qb = 1600"
    and "length (mq_msgs qb) + length (mq_msgs qa) \<le> mq_maxmsg qb"
    and "\<forall>m \<in> set (mq_msgs qa). 0 < length m \<and> length m \<le> BUFFER_SIZE" "0 \<le> drop_count_a_to_b s"
    and "n = length (mq_msgs qa)"
  shows "\<exists>s'. fold_run (\<lambda>_. relay_a_to_b) (replicate n ()) s = Inr s' \<and>
    (\<exists>qa' qb'. queues (world s') src = Some qa' \<and> mq_msgs qa' = [] \<and>
      queues (world s') dst = Some qb' \<and> mq_msgs qb' = mq_msgs qb @ drop (nat (drop_count_a_to_b s)) (mq_msgs qa)) \<and>
    drop_count_a_to_b s' = max 0 (drop_count_a_to_b s - int n)"
  using assms
proof (induction n arbitrary: s qa qb)
  case 0
  then show ?case by simp
next
  case (Suc n)
  obtain m ms where ms: "mq_msgs qa = m # ms" using Suc.prems(9) by (cases "mq_msgs qa") auto
  note step = relay_step [OF Suc.prems(1-3) ms Suc.prems(4,5)]
  have st: "length (mq_msgs qb) < mq_maxmsg qb" "0 < length m" "length m \<le> BUFFER_SIZE"
    using Suc.prems(6,7) ms by simp_all
  have ne: "src \<noteq> dst" using Suc.prems(1) by (auto simp: relay_queues_def)
  show ?case
  proof (cases "drop_count_a_to_b s > 0")
    case True
    let ?s = "s\<lparr>world := (world s)\<lparr>queues := (queues (world s))(src := Some (qa\<lparr>mq_msgs := ms\<rparr>))\<rparr>,
      drop_count_a_to_b := drop_count_a_to_b s - 1\<rparr>"
    have "\<exists>s'. fold_run (\<lambda>_. relay_a_to_b) (replicate n ()) ?s = Inr s' \<and>
      (\<exists>qa' qb'. queues (world s') src = Some qa' \<and> mq_msgs qa' = [] \<and>
        queues (world s') dst = Some qb' \<and> mq_msgs qb' = mq_msgs qb @ drop (nat (drop_count_a_to_b ?s)) (mq_msgs (qa\<lparr>mq_msgs := ms\<rparr>))) \<and>
      drop_count_a_to_b s' = max 0 (drop_count_a_to_b ?s - int n)"
      using Suc.prems True ms ne by (intro Suc.IH) (auto simp: relay_queues_def)
    moreover have "drop (nat (drop_count_a_to_b s)) (m # ms) = drop (nat (drop_count_a_to_b s - 1)) ms"
      using True by (cases "nat (drop_count_a_to_b s)") (auto simp: nat_diff_distrib)
    ultimately show ?thesis using step [OF st] True ms by (auto simp: algebra_simps)
  next
    case False
    then have z: "drop_count_a_to_b s = 0" using Suc.prems(8) by simp
    let ?s = "s\<lparr>world := (world s)\<lparr>queues := (queues (world s))(src := Some (qa\<lparr>mq_msgs := ms\<rparr>),
              dst := Some (qb\<lparr>mq_msgs := mq_msgs qb @ [m]\<rparr>))\<rparr>\<rparr>"
    have "\<exists>s'. fold_run (\<lambda>_. relay_a_to_b) (replicate n ()) ?s = Inr s' \<and>
      (\<exists>qa' qb'. queues (world s') src = Some qa' \<and> mq_msgs qa' = [] \<and>
        queues (world s') dst = Some qb' \<and> mq_msgs qb' = mq_msgs (qb\<lparr>mq_msgs := mq_msgs qb @ [m]\<rparr>) @
          drop (nat (drop_count_a_to_b ?s)) (mq_msgs (qa\<lparr>mq_msgs := ms\<rparr>))) \<and>
      drop_count_a_to_b s' = max 0 (drop_count_a_to_b ?s - int n)"
      using Suc.prems z ms ne by (intro Suc.IH) (auto simp: relay_queues_def)
    then show ?thesis using step [OF st] z ms by auto
  qed
qed

lemma flush_small_buffer:
  assumes "mqds w d = Some name" "queues w name = Some q" "BUFFER_SIZE < mq_msgsize q"
  shows "flush_message_queue w d = Inr (0, w)"
  using assms by (simp add: flush_message_queue_def mq_receive_def)

section \<open>Properties\<close>

text \<open>The command that sets the drop count, as the user types it.\<close>

lemma dec_of_Cons: "dec_of n \<noteq> []"
  by (simp add: dec_of.simps [of n])

lemma ns_drop_command:
  assumes "0 < k" "k < 2 ^ 31"
  shows "ns_command created queue_name (''a '' @ dec_of k) s = Inr (False, tloe_ns_set_drop_count_a_to_b (int k) s)"
  using assms atoi_dec [OF assms(2)] dec_of_Cons [of k] by (simp add: ns_command_def isspace_def)


definition sample_ns :: ns_state where
  "sample_ns = \<lparr>ns_is_done = 0, ep_port_a = Some \<lparr>mq_tx = 3, mq_rx = 4\<rparr>, ep_port_b = Some \<lparr>mq_tx = 5, mq_rx = 6\<rparr>,
     drop_count_a_to_b = 0, drop_count_b_to_a = 0,
     world = \<lparr>queues = [''a-b'' \<mapsto> \<lparr>mq_maxmsg = 10, mq_msgsize = 1600, mq_msgs = []\<rparr>,
                       ''a-a'' \<mapsto> \<lparr>mq_maxmsg = 10, mq_msgsize = 1600, mq_msgs = [[1], [2], [3]]\<rparr>,
                       ''b-a'' \<mapsto> \<lparr>mq_maxmsg = 10, mq_msgsize = 1600, mq_msgs = []\<rparr>,
                       ''b-b'' \<mapsto> \<lparr>mq_maxmsg = 10, mq_msgsize = 1600, mq_msgs = []\<rparr>],
               mqds = [3 \<mapsto> ''a-b'', 4 \<mapsto> ''a-a'', 5 \<mapsto> ''b-a'', 6 \<mapsto> ''b-b''], next_mqd = 7\<rparr>\<rparr>"


text \<open>
  C40: the flush command does not flush: \<open>flush_message_queue\<close> receives into 1024 bytes while the queues are created for messages of
  1600, so the first \<^verbatim>\<open>mq_receive\<close> fails, the function reports success, and every packet stays queued.
\<close>

theorem flush_keeps_everything:
  assumes "ns_is_done s = 0" "ep_port_a s = Some a" "ep_port_b s = Some b"
    and "\<forall>d \<in> {mq_tx a, mq_rx a, mq_tx b, mq_rx b}. \<exists>name q. mqds (world s) d = Some name \<and>
      queues (world s) name = Some q \<and> mq_msgsize q = TLOE_MQ_MSG_SIZE"
  shows "tloe_ns_flush_ports s = Inr s"
proof -
  have "flush_message_queue (world s) d = Inr (0, world s)" if "d \<in> {mq_tx a, mq_rx a, mq_tx b, mq_rx b}" for d
  proof -
    obtain name q where "mqds (world s) d = Some name" "queues (world s) name = Some q" "mq_msgsize q = 1600"
      using assms(4) \<open>d \<in> _\<close> by blast
    then show ?thesis using flush_small_buffer [of "world s" d name q] by simp
  qed
  then show ?thesis using assms(1-3) by (simp add: tloe_ns_flush_ports_def flush_port_def)
qed

theorem flush_keeps_everything_witness:
  "tloe_ns_flush_ports sample_ns = Inr sample_ns \<and> pending (world sample_ns) 4 = [[1], [2], [3]]"
  using flush_keeps_everything [of sample_ns] by (simp add: sample_ns_def pending_def)

end
