(* ===== verification/System.thy ===== *)
theory System
  imports Session Fabric_Ops Network_Sim
begin

text \<open>
  The programs together: two endpoints and the network simulator on one set of message queues, from the
  command lines to the transport of a packet.
\<close>

section \<open>Opening message queues\<close>

definition new_queue :: posix_mq where
  "new_queue = \<lparr>mq_maxmsg = 10, mq_msgsize = 1600, mq_msgs = []\<rparr>"

text \<open>A process that opens both directions of a port, creating them or finding them.\<close>

definition port_opened :: "mq_world \<Rightarrow> string \<Rightarrow> string \<Rightarrow> (string \<Rightarrow> posix_mq option) \<Rightarrow> mq_world" where
  "port_opened w tx rx qs = w\<lparr>queues := qs, mqds := (mqds w)(next_mqd w \<mapsto> tx, next_mqd w + 1 \<mapsto> rx), next_mqd := next_mqd w + 2\<rparr>"

lemma tloe_mq_open_creates:
  assumes "queues w (q @ fst (mq_suffixes role)) = None" "queues w (q @ snd (mq_suffixes role)) = None"
    and "length q < 254" "0 \<le> next_mqd w"
  shows "tloe_mq_open w q role 1 = Inr (\<lparr>mq_tx = next_mqd w, mq_rx = next_mqd w + 1\<rparr>,
    port_opened w (q @ fst (mq_suffixes role)) (q @ snd (mq_suffixes role))
      ((queues w)(q @ fst (mq_suffixes role) \<mapsto> new_queue, q @ snd (mq_suffixes role) \<mapsto> new_queue)))"
  using assms
  by (auto simp: tloe_mq_open_def create_message_queue_def mq_open_def mq_suffixes_def Let_def
      tloe_mq_alloc_and_init_def port_opened_def new_queue_def)

lemma tloe_mq_open_finds:
  assumes "queues w (q @ fst (mq_suffixes role)) \<noteq> None" "queues w (q @ snd (mq_suffixes role)) \<noteq> None"
    and "length q < 254" "0 \<le> next_mqd w"
  shows "tloe_mq_open w q role 0 = Inr (\<lparr>mq_tx = next_mqd w, mq_rx = next_mqd w + 1\<rparr>,
    port_opened w (q @ fst (mq_suffixes role)) (q @ snd (mq_suffixes role)) (queues w))"
  using assms
  by (cases "role = ''-master''") (auto simp: tloe_mq_open_def create_message_queue_def mq_open_def mq_suffixes_def Let_def
      tloe_mq_alloc_and_init_def port_opened_def)

lemma tloe_mq_open_missing:
  "queues w (q @ fst (mq_suffixes role)) = None \<Longrightarrow> length q < 254 \<Longrightarrow> tloe_mq_open w q role 0 = Inl Exit_Failure"
  by (cases "role = ''-master''") (simp_all add: tloe_mq_open_def create_message_queue_def mq_open_def mq_suffixes_def Let_def)

section \<open>The command lines\<close>

abbreviation endpoint_args :: "string \<Rightarrow> char \<Rightarrow> (char \<times> string) list" where
  "endpoint_args port role \<equiv> [(CHR ''p'', port), (role, [])]"

lemma parse_endpoint_args:
  assumes "length port \<le> 63"
  shows "parse_arguments (endpoint_args port CHR ''m'') =
      Some \<lparr>p_fabric = 1, p_master = 1, optarg_a = port, optarg_b = ''-master''\<rparr>"
    "parse_arguments (endpoint_args port CHR ''s'') =
      Some \<lparr>p_fabric = 1, p_master = 0, optarg_a = port, optarg_b = ''-slave''\<rparr>"
  using assms by (simp_all add: parse_arguments_def parse_option_def Let_def)

lemma main_setup_mq:
  assumes "parse_arguments os = Some p" "p_fabric p = 1" "tloe_mq_open w (optarg_a p) (optarg_b p) 0 = Inr (mq, w')"
  obtains e where "main_setup (table_open sys junk) True os w = Inr (Some (\<lambda>_. 0), w', e)" "ep_inv e"
    "handle (fabric_ops e) = Some (MQ mq)"
proof -
  have "table_open sys junk (fabric_of p) (optarg_a p) (optarg_b p) 0 w = Inr (Some (MQ mq), w')"
    using assms(2,3) by (simp add: table_open_def fabric_of_def mq_open_wrapper_def)
  from main_setup_ok [where backend_open = "table_open sys junk", OF assms(1) this] show thesis using that by auto
qed

lemma main_setup_mq_missing:
  assumes "parse_arguments os = Some p" "p_fabric p = 1" "tloe_mq_open w (optarg_a p) (optarg_b p) 0 = Inl Exit_Failure"
  shows "main_setup (table_open sys junk) al os w = Inl Exit_Failure"
  using assms
  by (simp add: main_setup_def init_zero_endpoint tloe_fabric_init_def mq_ops_def tloe_fabric_open_def table_open_def
      mq_open_wrapper_def Let_def)

section \<open>Starting the simulator and the endpoints\<close>

text \<open>The queues of the simulator's two ports: it receives from \<^verbatim>\<open>-a-a\<close> and \<^verbatim>\<open>-b-b\<close>.\<close>

definition ns_queues :: "string \<Rightarrow> string \<Rightarrow> posix_mq option" where
  "ns_queues name = [name @ ''-a-b'' \<mapsto> new_queue, name @ ''-a-a'' \<mapsto> new_queue,
     name @ ''-b-a'' \<mapsto> new_queue, name @ ''-b-b'' \<mapsto> new_queue]"

lemma simulator_starts:
  assumes "queues w = Map.empty" "0 \<le> next_mqd w" "length name \<le> 61"
  defines "d \<equiv> next_mqd w"
  shows "\<exists>s. tloe_ns_thread_start True name (ns_start w) = Inr s \<and> ns_is_done s = 0 \<and>
    drop_count_a_to_b s = 0 \<and> drop_count_b_to_a s = 0 \<and>
    ep_port_a s = Some \<lparr>mq_tx = d, mq_rx = d + 1\<rparr> \<and> ep_port_b s = Some \<lparr>mq_tx = d + 2, mq_rx = d + 3\<rparr> \<and>
    queues (world s) = ns_queues name \<and> next_mqd (world s) = d + 4 \<and>
    mqds (world s) = (mqds w)(d \<mapsto> name @ ''-a-b'', d + 1 \<mapsto> name @ ''-a-a'', d + 2 \<mapsto> name @ ''-b-a'', d + 3 \<mapsto> name @ ''-b-b'')"
proof -
  let ?w1 = "port_opened w (name @ ''-a-b'') (name @ ''-a-a'') [name @ ''-a-b'' \<mapsto> new_queue, name @ ''-a-a'' \<mapsto> new_queue]"
  have a: "tloe_mq_open w (name @ ''-a'') ''-slave'' 1 = Inr (\<lparr>mq_tx = d, mq_rx = d + 1\<rparr>, ?w1)"
    using tloe_mq_open_creates [of w "name @ ''-a''" "''-slave''"] assms by (simp add: mq_suffixes_def)
  have "tloe_mq_open ?w1 (name @ ''-b'') ''-master'' 1 = Inr (\<lparr>mq_tx = d + 2, mq_rx = d + 3\<rparr>,
      port_opened ?w1 (name @ ''-b-a'') (name @ ''-b-b'') (ns_queues name))"
    using tloe_mq_open_creates [of ?w1 "name @ ''-b''" "''-master''"] assms
    by (simp add: mq_suffixes_def ns_queues_def port_opened_def)
  with a show ?thesis
    using assms(3) by (simp add: tloe_ns_thread_start_def thread_init_def ns_start_def d_def port_opened_def add.commute)
qed

lemma ns_queues_simps [simp]:
  "ns_queues name (name @ ''-a-a'') = Some new_queue" "ns_queues name (name @ ''-a-b'') = Some new_queue"
  "ns_queues name (name @ ''-b-a'') = Some new_queue" "ns_queues name (name @ ''-b-b'') = Some new_queue"
  by (simp_all add: ns_queues_def)



end
