(* ===== verification/Console.thy ===== *)
theory Console
  imports Endpoint Scan
begin

text \<open>
  The main thread of \<^verbatim>\<open>tloe_endpoint\<close> (\<^verbatim>\<open>main\<close> in \<^verbatim>\<open>tloe_endpoint.c\<close>): start-up, the loop that reads and executes the
  user's commands while the endpoint thread runs, and shut-down.
\<close>

section \<open>Reading a command\<close>

text \<open>
  \<^verbatim>\<open>args1\<close>, \<^verbatim>\<open>args2\<close> and \<^verbatim>\<open>args3\<close> are 0 before each \<^verbatim>\<open>sscanf\<close>; those that are not assigned stay so. \<open>None\<close>: nothing was
  assigned, the input is invalid.
\<close>

fun scanned_arg :: "nat \<Rightarrow> scanned list \<Rightarrow> int" where
  "scanned_arg i vs = (if i < length vs then (case vs ! i of Scan_Hex v \<Rightarrow> v | Scan_Char _ \<Rightarrow> 0) else 0)"

definition read_command :: "string \<Rightarrow> (char \<times> u64 \<times> int \<times> int) option run" where
  "read_command input_count =
     bind_run (sscanf input_count '' %c %lx %x %x'') (\<lambda>vs.
     Inr (case vs of
            [] \<Rightarrow> None
          | Scan_Hex _ # _ \<Rightarrow> None
          | Scan_Char input # _ \<Rightarrow>
              Some (input, word_of_int (scanned_arg 1 vs), sint (word_of_int (scanned_arg 2 vs) :: u32),
                    sint (word_of_int (scanned_arg 3 vs) :: u32))))"

section \<open>The main thread\<close>

text \<open>
  Before each command the endpoint thread makes the steps \<open>ce_thread\<close>. At the end of the input \<^verbatim>\<open>fgets\<close> leaves the
  buffer \<open>input_count\<close> as it is, and its result is not tested. A loop that uses up its events has not returned.
\<close>

record console_event =
  ce_thread :: "iter_env list"
  ce_user :: user_env

fun main_loop :: "console_event list \<Rightarrow> string \<Rightarrow> string \<Rightarrow> int \<Rightarrow> int \<Rightarrow> endpoint_thread \<Rightarrow> endpoint_thread run" where
  "main_loop [] inp input_count ft ms t = Inl Diverge"
| "main_loop (ev # evs) inp input_count ft ms t =
     bind_run (fold_run tloe_endpoint_step (ce_thread ev) t) (\<lambda>t.
     if is_done (ep t) \<noteq> 0 then Inr t
     else
       let (line, inp) = fgets 32 inp;
           input_count = (case line of None \<Rightarrow> input_count | Some l \<Rightarrow> l)
       in bind_run (read_command input_count) (\<lambda>cmd.
          case cmd of
            None \<Rightarrow> main_loop evs inp input_count ft ms t
          | Some (input, args1, args2, args3) \<Rightarrow>
              bind_run (handle_user_input (ce_user ev) input args1 args2 args3 ft ms (mem t, ep t)) (\<lambda>(r, mem', e).
              let t = t\<lparr>mem := mem', ep := e\<rparr> in
              if r \<noteq> 0 then Inr t else main_loop evs inp input_count ft ms t)))"

text \<open>\<^verbatim>\<open>pthread_join\<close> returns when the endpoint thread has.\<close>

fun join_thread :: "iter_env list \<Rightarrow> endpoint_thread \<Rightarrow> endpoint_thread run" where
  "join_thread [] t = (if pc t = Exited then Inr t else Inl Diverge)"
| "join_thread (env # envs) t =
     (if pc t = Exited then Inr t else bind_run (tloe_endpoint_step env t) (join_thread envs))"

text \<open>
  The program: \<open>created\<close> is the outcome of \<^verbatim>\<open>pthread_create\<close>, \<open>junk\<close> what the input buffer holds before the first
  line, \<open>envs\<close> the passes of the endpoint thread during the join.
\<close>

definition main_endpoint ::
  "'w backend_open \<Rightarrow> bool \<Rightarrow> bool \<Rightarrow> (char \<times> string) list \<Rightarrow> 'w \<Rightarrow> console_event list \<Rightarrow> iter_env list \<Rightarrow> string \<Rightarrow> string \<Rightarrow>
   (int \<times> mem_storage \<times> tloe_endpoint_t) run" where
  "main_endpoint backend_open mem_alloc created os w evs envs junk inp =
     bind_run (main_setup backend_open mem_alloc os w) (\<lambda>(mem0, _, e).
     if \<not> created then error_exit ''Failed to create tloe endpoint thread''
     else
       let t = \<lparr>pc = Test_Done, ep = e, mem = mem0, sel_counter = 4, request_tlmsg = None\<rparr> in
       bind_run (main_loop evs inp junk (fabric_type e) (master e) t) (\<lambda>t.
       bind_run (join_thread envs t) (\<lambda>t.
       bind_run (tloe_endpoint_close (mem t) (ep t)) (\<lambda>(mem', e). Inr (0, mem', e)))))"

section \<open>Reading commands back\<close>

lemma command_format: "parse_format '' %c %lx %x %x'' =
    [White, Conv_Char, White, Conv_Hex 64, White, Conv_Hex 32, White, Conv_Hex 32]"
  by (simp add: parse_format.simps isspace_def)

text \<open>A number after a blank, followed by \<open>rest\<close>.\<close>

definition ends_number :: "string \<Rightarrow> bool" where
  "ends_number rest \<longleftrightarrow> rest = [] \<or> isspace (hd rest)"

lemma isspace_not_hex: "isspace c \<Longrightarrow> \<not> is_hex c \<and> c \<noteq> CHR ''x'' \<and> c \<noteq> CHR ''X''"
  by (auto simp: isspace_def is_hex_def hex_digit_def)

lemma hex_of_head: "\<exists>c cs. hex_of n = c # cs \<and> \<not> isspace c"
proof -
  obtain c cs where "hex_of n = c # cs" by (cases "hex_of n") auto
  then show ?thesis using hex_of_hex [of c n] is_hex_chars(1) by auto
qed

lemma scan_number:
  assumes "n < 2 ^ w" "ends_number rest"
  shows "scan (White # Conv_Hex w # fmt) (CHR '' '' # hex_of n @ rest) =
    bind_run (scan fmt rest) (\<lambda>vs. Inr (Scan_Hex (int n) # vs))"
proof -
  obtain c cs where c: "hex_of n = c # cs" "\<not> isspace c" using hex_of_head by blast
  have "dropWhile isspace (CHR '' '' # hex_of n @ rest) = hex_of n @ rest" using c by (simp add: isspace_def)
  moreover have "scan (Conv_Hex w # fmt) (hex_of n @ rest) = bind_run (scan fmt rest) (\<lambda>vs. Inr (Scan_Hex (int n) # vs))"
    using scan_conv_hex [of "hex_of n" rest w fmt] hex_of_hex [of _ n] assms isspace_not_hex [of "hd rest"]
    by (auto simp: ends_number_def simp del: scan.simps(5))
  ultimately show ?thesis by (simp only: scan.simps(2))
qed

lemma scan_nothing:
  assumes "isspace c"
  shows "scan (White # Conv_Hex w # fmt) [c] = Inr []"
  using assms by (simp add: scan_hex_def hex_prefix_def)

lemma scan_command_char:
  assumes "\<not> isspace c"
  shows "scan (White # Conv_Char # fmt) (c # s) = bind_run (scan fmt s) (\<lambda>vs. Inr (Scan_Char c # vs))"
  using assms by simp

lemma isspace_simps [simp]: "isspace newline" "isspace CHR '' ''"
  by (simp_all add: isspace_def newline_def)

lemma ends_number_simps [simp]: "ends_number (newline # r)" "ends_number (CHR '' '' # r)" "ends_number []"
  by (simp_all add: ends_number_def)

lemma command_read:
  assumes "\<not> isspace c" "a < 2 ^ 64" "b < 2 ^ 32" "d < 2 ^ 32"
  shows "read_command (c # [newline]) = Inr (Some (c, 0, 0, 0)) \<and>
    read_command (c # CHR '' '' # hex_of a @ [newline]) = Inr (Some (c, of_nat a, 0, 0)) \<and>
    read_command (c # CHR '' '' # hex_of a @ CHR '' '' # hex_of b @ [newline]) =
      Inr (Some (c, of_nat a, sint (of_nat b :: u32), 0)) \<and>
    read_command (c # CHR '' '' # hex_of a @ CHR '' '' # hex_of b @ CHR '' '' # hex_of d @ [newline]) =
      Inr (Some (c, of_nat a, sint (of_nat b :: u32), sint (of_nat d :: u32)))"
  using assms
  by (simp add: read_command_def sscanf_def command_format scan_command_char scan_number scan_nothing del: scan.simps(2-5))

text \<open>
  What the user types is what the program executes: a command letter alone or followed by one, two or three hexadecimal numbers
  that fit their variables is read back exactly, and the missing numbers are 0.
\<close>

theorem command_round_trip:
  assumes "\<not> isspace c" "a < 2 ^ 64" "b < 2 ^ 32" "d < 2 ^ 32"
  shows "read_command (c # [newline]) = Inr (Some (c, 0, 0, 0)) \<and>
    read_command (c # CHR '' '' # hex_of a @ [newline]) = Inr (Some (c, of_nat a, 0, 0)) \<and>
    read_command (c # CHR '' '' # hex_of a @ CHR '' '' # hex_of b @ [newline]) =
      Inr (Some (c, of_nat a, sint (of_nat b :: u32), 0)) \<and>
    read_command (c # CHR '' '' # hex_of a @ CHR '' '' # hex_of b @ CHR '' '' # hex_of d @ [newline]) =
      Inr (Some (c, of_nat a, sint (of_nat b :: u32), sint (of_nat d :: u32)))"
  using assms by (rule command_read)

theorem command_round_trip_witness:
  "read_command (CHR ''w'' # CHR '' '' # hex_of 4096 @ CHR '' '' # hex_of 255 @ [newline]) = Inr (Some (CHR ''w'', 4096, 255, 0))"
proof -
  have "sint (of_nat 255 :: u32) = 255" by simp
  then show ?thesis
    using command_round_trip [of "CHR ''w''" 4096 255 0] by (simp add: isspace_def)
qed

section \<open>From the keyboard to the request\<close>

lemma main_loop_line:
  assumes "newline \<notin> set l" "length l < 31" "ce_thread ev = []" "is_done (ep t) = 0"
    and "read_command (l @ [newline]) = Inr (Some (c, a1, a2, a3))"
    and "handle_user_input (ce_user ev) c a1 a2 a3 ft ms (mem t, ep t) = Inr (0, mem', e')"
  shows "main_loop (ev # evs) (l @ newline # inp) buf ft ms t =
    main_loop evs inp (l @ [newline]) ft ms (t\<lparr>mem := mem', ep := e'\<rparr>)"
  using assms fgets_line [of l 32 inp] by simp

lemma sint_small_nat: "b < 2 ^ 31 \<Longrightarrow> sint (of_nat b :: u32) = int b"
  by (simp add: signed_of_nat signed_take_bit_int_eq_self)

lemma hex_of_no_newline: "newline \<notin> set (hex_of n)"
  using hex_of_hex [of newline n] is_hex_chars(1) [of newline] by auto


section \<open>The end of the input\<close>

text \<open>
  C39: the end of the input is not noticed: \<open>main\<close> does not test the result of \<^verbatim>\<open>fgets\<close>, so that after the last line that line is executed
  again and again as if it were typed again; a status command as the last line of an unconnected endpoint's input keeps the program
  running for ever.
\<close>

theorem eof_repeats_last_command:
  assumes "newline \<notin> set l" "length l < 31"
  shows "main_loop (ev # evs) [] (l @ [newline]) ft ms t = main_loop (ev # evs) (l @ [newline]) buf ft ms t \<and>
    (pc t = Test_Connection \<and> connection (ep t) = 0 \<and> is_done (ep t) = 0 \<longrightarrow>
      main_loop events [] (''s'' @ [newline]) ft ms t = Inl Diverge)"
proof
  show "main_loop (ev # evs) [] (l @ [newline]) ft ms t = main_loop (ev # evs) (l @ [newline]) buf ft ms t"
    using fgets_line [of l 32 "[]"] assms by (simp cong: if_cong)
  show "pc t = Test_Connection \<and> connection (ep t) = 0 \<and> is_done (ep t) = 0 \<longrightarrow>
      main_loop events [] (''s'' @ [newline]) ft ms t = Inl Diverge"
  proof
    assume t: "pc t = Test_Connection \<and> connection (ep t) = 0 \<and> is_done (ep t) = 0"
    have idle: "fold_run tloe_endpoint_step envs t = Inr t" for envs using t by (intro waiting_step) simp_all
    have rc: "read_command (''s'' @ [newline]) = Inr (Some (CHR ''s'', 0, 0, 0))"
      using command_read [of "CHR ''s''" 0 0 0] by (simp add: isspace_def)
    show "main_loop events [] (''s'' @ [newline]) ft ms t = Inl Diverge"
    proof (induction events)
      case (Cons ev evs)
      then show ?case using idle rc t by (simp add: fgets_def handle_user_input_def)
    qed simp
  qed
qed

theorem eof_repeats_last_command_witness:
  "\<forall>events. main_loop events [] (''s'' @ [newline]) 1 1 waiting_thread = Inl Diverge"
  using eof_repeats_last_command [of "''s''" _ _ 1 1 waiting_thread] by (simp add: newline_def waiting_thread_def fresh_endpoint_def zero_endpoint_def)


definition connected_thread :: endpoint_thread where
  "connected_thread = waiting_thread\<lparr>ep := (fresh_endpoint mq_fabric)\<lparr>connection := 1\<rparr>\<rparr>"

definition sample_event :: console_event where
  "sample_event = \<lparr>ce_thread = [], ce_user = \<lparr>u_allocs = [], u_events = [], u_start = \<lparr>tv_sec = 0, tv_nsec = 0\<rparr>,
     u_wde = False, u_mem_alloc = True\<rparr>\<rparr>"



section \<open>Quitting\<close>

lemma delete_queue_ptr: "q_inv q \<Longrightarrow> \<exists>xs. delete_queue (queue_ptr q) = Inr xs"
  using delete_queue_frees [of q] by (simp add: queue_ptr_def delete_queue_def)

lemma close_endpoint:
  assumes "ep_inv e"
  shows "\<exists>e'. tloe_endpoint_close m0 e = Inr (None, e') \<and> handle (fabric_ops e') = None"
proof -
  let ?e = "tloe_fabric_close e"
  have c: "tl_handler_close m0 = None" by (simp add: tl_handler_close_def)
  have q: "q_inv (message_buffer ?e)" "q_inv (retransmit_buffer ?e)" "q_inv (ack_buffer ?e)" "q_inv (tl_msg_buffer ?e)"
    "q_inv (response_buffer ?e)" and h: "handle (fabric_ops ?e) = None"
    using assms by (auto simp: ep_inv_def tloe_fabric_close_def fabric_up_def)
  obtain x1 x2 x3 x4 x5 where "delete_queue (queue_ptr (message_buffer ?e)) = Inr x1" "delete_queue (queue_ptr (retransmit_buffer ?e)) = Inr x2"
    "delete_queue (queue_ptr (ack_buffer ?e)) = Inr x3" "delete_queue (queue_ptr (tl_msg_buffer ?e)) = Inr x4"
    "delete_queue (queue_ptr (response_buffer ?e)) = Inr x5"
    using q [THEN delete_queue_ptr] by blast
  then show ?thesis using c h by (simp add: tloe_endpoint_close_def Let_def)
qed

lemma join_exits: "pc t = Test_Done \<Longrightarrow> is_done (ep t) \<noteq> 0 \<Longrightarrow> join_thread (env # envs) t = Inr (t\<lparr>pc := Exited\<rparr>)"
  by (cases envs) (simp_all add: tloe_endpoint_step_def)

lemma join_waits:
  assumes "pc t = Test_Connection" "connection (ep t) = 0"
  shows "join_thread envs t = Inl Diverge"
  using assms by (induction envs) (simp_all add: tloe_endpoint_step_def)



end
