(* ===== verification/Lifecycle.thy ===== *)
theory Lifecycle
  imports Session Console
begin

text \<open>
  The whole life of the endpoint program as a step relation: passes of the endpoint thread and commands of the user, in any
  order, from start-up on. Every state it reaches is well formed.
\<close>

section \<open>What a pass keeps\<close>

text \<open>Only the main thread changes the role of an endpoint, whether it is connected and whether it is to end.\<close>

definition role :: "tloe_endpoint_t \<Rightarrow> int \<times> int \<times> int" where
  "role e = (master e, connection e, is_done e)"

lemma role_updates [simp]:
  "role (e\<lparr>retransmit_buffer := rb\<rparr>) = role e" "role (e\<lparr>message_buffer := mb\<rparr>) = role e" "role (e\<lparr>ack_buffer := ab\<rparr>) = role e"
  "role (e\<lparr>tl_msg_buffer := tb\<rparr>) = role e" "role (e\<lparr>response_buffer := sb\<rparr>) = role e" "role (e\<lparr>iteration_ts := ts\<rparr>) = role e"
  "role (e\<lparr>fc := F\<rparr>) = role e" "role (e\<lparr>next_tx_seq := n\<rparr>) = role e" "role (e\<lparr>next_rx_seq := n\<rparr>) = role e"
  "role (e\<lparr>acked_seq := n\<rparr>) = role e" "role (e\<lparr>should_send_ackonly_frame := b\<rparr>) = role e" "role (e\<lparr>ackonly_frame_sent := b\<rparr>) = role e"
  "role (e\<lparr>ack_cnt := c\<rparr>) = role e" "role (e\<lparr>dup_cnt := c\<rparr>) = role e" "role (e\<lparr>oos_cnt := c\<rparr>) = role e"
  "role (e\<lparr>ackonly_cnt := c\<rparr>) = role e" "role (e\<lparr>accessack_cnt := c\<rparr>) = role e" "role (e\<lparr>accessackdata_cnt := c\<rparr>) = role e"
  "role (e\<lparr>drop_response_cnt := c\<rparr>) = role e" "role (e\<lparr>fabric_sent := ps\<rparr>) = role e" "role (tloe_fabric_send e p) = role e"
  by (simp_all add: role_def tloe_fabric_send_def)

lemma queue_loop_gives:
  assumes "\<And>i s. P s \<Longrightarrow> run_gives P (body i s)" "P s"
  shows "run_gives P (queue_loop q body s)"
proof -
  have "P s \<Longrightarrow> run_gives P (queue_for fuel sz i hi body s)" for fuel sz i hi s
  proof (induction fuel arbitrary: i s)
    case (Suc fuel)
    from run_weaken [OF assms(1) [OF Suc.prems] Suc.IH] Suc.prems show ?case by simp
  qed simp
  then show ?thesis using assms(2) unfolding queue_loop_def by blast
qed

abbreviation same_role :: "tloe_endpoint_t \<Rightarrow> tloe_endpoint_t \<Rightarrow> bool" where
  "same_role e e' \<equiv> role e' = role e"

lemma retransmit_role: "run_gives (same_role e) (retransmit e s)"
  unfolding retransmit_def
  by (rule queue_loop_gives) (auto simp: retransmit_body_def Let_def intro!: run_any split: option.splits)

lemma TX_out_role: "run_gives (\<lambda>(_, e'). same_role e e') (TX_out e r)"
  using retransmit_role [of e] by (auto simp: TX_out_def split: option.splits)

lemma send_ackonly_role: "run_gives (same_role e) (send_ackonly_frame junk e)"
  by (auto simp: send_ackonly_frame_def Let_def intro!: run_any split: prod.splits)

lemma TX_ackonly_role: "run_gives (same_role e) (TX_ackonly env e)"
  by (auto simp: TX_ackonly_def intro!: run_weaken [OF send_ackonly_role] split: option.splits)

lemma TX_transmit_role: "run_gives (\<lambda>(_, e'). same_role e e') (TX_transmit env e ch r ret)"
  by (auto simp: TX_transmit_def enqueue_retransmit_buffer_def send_request_normal_frame_def tloe_seqnum_next_tx_seq_inc_def Let_def
      intro!: run_any run_weaken [OF TX_out_role] split: prod.splits)

lemma TX_role: "run_gives (\<lambda>(_, e'). same_role e e') (TX env e r)"
  unfolding TX_def Let_def run_gives_simps(4)
  by (rule run_weaken [OF TX_ackonly_role])
    (auto intro!: run_any run_weaken [OF TX_out_role] run_weaken [OF TX_transmit_role] split: option.splits prod.splits)

lemma serve_ack_role: "run_gives (same_role e) (serve_ack e f)"
  using retransmit_role by (auto simp: serve_ack_def slide_window_def intro!: run_any run_weaken [OF retransmit_role])

lemma RX_frame_role: "run_gives (same_role e) (RX_frame e f n)"
  unfolding RX_frame_def run_gives_simps(4)
  by (rule run_weaken [OF serve_ack_role])
    (auto simp: serve_normal_request_def serve_zero_tlmsg_request_def serve_duplicate_request_def
      serve_oos_request_def tloe_seqnum_update_acked_seq_def tloe_seqnum_update_next_rx_seq_def Let_def
      intro!: run_any split: prod.splits tloe_rx_req_type_t.splits)

lemma RX_role: "run_gives (same_role e) (RX al rx e)"
  by (auto simp: RX_def Let_def intro!: RX_frame_role run_any split: prod.splits)

lemma put_response_role [simp]: "role (put_response e m) = role e"
  by (simp add: put_response_def split: prod.splits bool.splits)

lemma handlers_role: "\<forall>hs \<in> set tl_handler_table. \<forall>h \<in> set hs. run_gives (\<lambda>(_, e'). same_role e e') (h m (mm, e))"
  by (auto simp: tl_handler_table_def handle_A_PUTFULLDATA_opcode_def handle_A_GET_opcode_def handle_D_ACCESSACK_opcode_def
      handle_D_ACCESSACKDATA_opcode_def handle_debug_opcode_def Let_def intro!: run_any split: option.splits)

lemma tl_handler_role: "run_gives (\<lambda>(_, _, _, e'). same_role e e') (tl_handler m e)"
proof -
  have "run_gives (\<lambda>(_, e'). same_role e e') ((tl_handler_table ! unat c ! unat i) m (mm, e))" if "unat c < 6" for c i :: "3 word" and m mm e
  proof -
    have "unat i < 8" using unsigned_less [of i] by simp
    moreover have "length tl_handler_table = 6" "\<forall>hs \<in> set tl_handler_table. length hs = 8" by (simp_all add: tl_handler_table_def)
    ultimately show ?thesis using that handlers_role by (metis nth_mem)
  qed
  note h = this
  show ?thesis
    by (auto simp: tl_handler_def Let_def intro!: run_weaken [OF h] split: option.splits prod.splits)
qed

lemma body_role: "run_gives (\<lambda>t'. role (ep t') = role (ep t)) (tloe_endpoint_body env t)"
proof -
  obtain req c e where sel: "(if request_tlmsg t = None then select_buffer (sel_counter t) (ep t)
      else (request_tlmsg t, sel_counter t, ep t)) = (req, c, e)" by (metis prod_cases3)
  then have "role e = role (ep t)" by (auto simp: select_buffer_def Let_def split: if_splits prod.splits)
  then show ?thesis
    unfolding tloe_endpoint_body_def sel Let_def prod.case run_gives_simps(4)
    by (intro run_weaken [OF TX_role]) (auto intro!: run_weaken [OF RX_role] run_weaken [OF tl_handler_role] intro: run_any split: option.splits)
qed

section \<open>What the commands keep\<close>

text \<open>An endpoint between two commands: when it is not connected, nothing waits for an acknowledgement.\<close>

definition ep_settled :: "tloe_endpoint_t \<Rightarrow> bool" where
  "ep_settled e \<longleftrightarrow> ep_msgs_ok e \<and> (master e = 0 \<or> master e = 1) \<and>
     (connection e = 0 \<longrightarrow> queue_list (retransmit_buffer e) = [])"

lemma enqueue_message_settled:
  assumes "ep_settled e" "req_ok (Some m)" "connection e = c"
  shows "run_gives (\<lambda>(_, e'). ep_settled e' \<and> connection e' = c) (enqueue_message e m)"
proof (cases "is_queue_full (message_buffer e)")
  case True
  then show ?thesis by (simp add: enqueue_message_def)
next
  case False
  let ?q = "snd (enqueue (message_buffer e) m)"
  have q: "q_inv (message_buffer e)" using assms(1) by (simp add: ep_settled_def ep_msgs_ok_def ep_inv_def)
  then have "q_inv ?q" "queue_list ?q = queue_list (message_buffer e) @ [m]"
    using False by (simp_all add: cq.enq_inv cq.enq_contents)
  then have "ep_settled (e\<lparr>message_buffer := ?q\<rparr>)"
    using assms(1,2) by (auto simp: ep_settled_def ep_msgs_ok_def ep_inv_def tx_window_def fabric_up_def)
  then show ?thesis using enqueue_message_room [OF False] assms(3) by simp
qed

lemma read_settled: "ep_settled e \<and> connection e = c \<Longrightarrow> run_gives (\<lambda>(_, e'). ep_settled e' \<and> connection e' = c) (read_memory e a)"
  using enqueue_message_settled [OF _ user_msgs(3)] by (simp add: read_write_memory_eq)

lemma write_settled: "ep_settled e \<and> connection e = c \<Longrightarrow> run_gives (\<lambda>(_, e'). ep_settled e' \<and> connection e' = c) (write_memory e a v)"
  using enqueue_message_settled [OF _ user_msgs(4)] by (simp add: read_write_memory_eq)

lemma open_settled:
  assumes "ep_settled e" "connection e = 0"
  shows "run_gives ep_settled (user_open env e)"
proof -
  have ok: "ep_settled (e'\<lparr>connection := 1\<rparr>)" "ep_settled e'" if "conn_keeps e e'" for e'
  proof -
    have "ep_inv e'" using assms conn_keeps_ep_inv [OF _ _ that] by (simp add: ep_settled_def ep_msgs_ok_def)
    then show "ep_settled (e'\<lparr>connection := 1\<rparr>)" "ep_settled e'"
      using assms that by (simp_all add: ep_settled_def ep_msgs_ok_def conn_keeps_def conn_rest_def ep_inv_def tx_window_def fabric_up_def)
  qed
  show ?thesis
    using open_conn_keeps(1) [of "u_wde env" "u_events env" "u_start env" e] open_conn_keeps(2) [of "u_wde env" "u_events env" "u_start env" e]
      ok assms by (auto simp: user_open_def run_gives_def bind_run_eq_Inr split: if_splits)
qed

lemma recv_close_keeps:
  "run_gives (\<lambda>(_, e'). conn_keeps e e') (recv_close_conn_master rx e)"
  "run_gives (\<lambda>(_, e'). conn_keeps e e') (recv_close_conn_slave rx e cf)"
  by (auto simp: recv_close_conn_master_def recv_close_conn_slave_def conn_keeps_def conn_rest_def Let_def intro!: run_any split: prod.splits)

lemma serve_close_keeps: "run_gives (conn_keeps e) (serve_close_conn e)"
  using send_frame_keeps by (auto simp: serve_close_conn_def run_gives_def)

lemma close_master_keeps: "run_gives (\<lambda>(c, e'). c \<noteq> 0 \<and> conn_keeps e e') (close_conn_master evs start timer e)"
proof (induction evs arbitrary: start timer e)
  case (Cons ev evs)
  have 1: "run_gives (conn_keeps e) (if timer = 1 then serve_close_conn e else Inr e)" using serve_close_keeps by simp
  have 2: "run_gives (\<lambda>(c, e'). c \<noteq> 0 \<and> conn_keeps e e') (close_conn_master evs st ti e2)" if "conn_keeps e e2" for st ti e2
    using Cons.IH [of e2 st ti] by (rule run_weaken) (auto intro: conn_keeps_trans [OF that])
  show ?case
    unfolding close_conn_master.simps run_gives_simps(4)
    by (rule run_weaken [OF 1])
      (auto simp: Let_def intro!: run_weaken [OF recv_close_keeps(1)] 2 intro: conn_keeps_trans)
qed simp

lemma close_slave_keeps: "run_gives (\<lambda>(c, e'). c \<noteq> 0 \<and> conn_keeps e e') (close_conn_slave evs cf e)"
proof (induction evs arbitrary: cf e)
  case (Cons ev evs)
  have 1: "run_gives (conn_keeps e) (if cf \<noteq> 0 then serve_close_conn e else Inr e)" using serve_close_keeps by simp
  have 2: "run_gives (\<lambda>(c, e'). c \<noteq> 0 \<and> conn_keeps e e') (close_conn_slave evs cf' e2)" if "conn_keeps e e2" for cf' e2
    using Cons.IH [of e2 cf'] by (rule run_weaken) (auto intro: conn_keeps_trans [OF that])
  show ?case
    unfolding close_conn_slave.simps run_gives_simps(4)
    by (rule run_weaken [OF 1])
      (auto simp: Let_def intro!: run_weaken [OF recv_close_keeps(2)] 2 intro: conn_keeps_trans)
qed simp

text \<open>Closing a connection ends in a new endpoint on the old fabric.\<close>

definition reset_endpoint :: "int \<Rightarrow> tloe_endpoint_t \<Rightarrow> bool" where
  "reset_endpoint ms e \<longleftrightarrow> ep_settled e \<and> connection e = 0 \<and> master e = ms \<and> next_tx_seq e = 0 \<and> fc_wf (fc e) \<and>
     credits (fc e) = replicate CHANNEL_NUM 128 \<and> queue_list (message_buffer e) = [] \<and> queue_list (response_buffer e) = [] \<and>
     queue_list (ack_buffer e) = [] \<and> q_cap (ack_buffer e) = 2047 \<and> queue_list (tl_msg_buffer e) = [] \<and> q_cap (tl_msg_buffer e) = 9999"

lemma init_reset:
  assumes "fabric_up e" "fc_wf (fc e)" "ms = 0 \<or> ms = 1"
  shows "run_gives (reset_endpoint ms) (tloe_endpoint_init e ft ms)"
proof -
  have "tx_window e'" if "retransmit_buffer e' = create_queue (WINDOW_SIZE + 1)" "next_tx_seq e' = 0" for e' :: tloe_endpoint_t
    unfolding tx_window_def using that by (intro exI [of _ 0]) (simp add: seq_of_def)
  then show ?thesis
    unfolding tloe_endpoint_init_def Let_def run_gives_simps(4)
    using assms init_flowcontrol_eq [OF assms(2)]
    by (simp add: reset_endpoint_def ep_settled_def ep_msgs_ok_def ep_inv_def fabric_up_def
        create_queue_inv seq_wf_def fc_wf_def initial_fc_def zero_flowcontrol_def Let_def)
qed

lemma close_settled:
  assumes "ep_settled e" "mm \<noteq> None" "ms = 0 \<or> ms = 1"
  shows "run_gives (\<lambda>(mm', e'). reset_endpoint ms e' \<and> mm' = mm) (user_close env ft ms (mm, e))"
proof -
  let ?e = "e\<lparr>connection := 0\<rparr>"
  have r: "run_gives (\<lambda>(c, e'). c \<noteq> 0 \<and> conn_keeps ?e e')
    (if master ?e = TYPE_MASTER then close_conn_master (u_events env) (u_start env) 1 ?e
     else if master ?e = TYPE_SLAVE then close_conn_slave (u_events env) 0 ?e else Inr (0, ?e))"
    using assms(1) close_master_keeps close_slave_keeps by (auto simp: ep_settled_def)
  have "fabric_up e'" "fc_wf (fc e')" if "conn_keeps ?e e'" for e'
    using assms(1) that by (simp_all add: ep_settled_def ep_msgs_ok_def ep_inv_def conn_keeps_def conn_rest_def fabric_up_def)
  then show ?thesis
    unfolding user_close_def prod.case Let_def run_gives_simps(4)
    using assms(2,3)
    by (intro run_weaken [OF r]) (auto simp: tl_handler_init_def intro!: run_weaken [OF init_reset])
qed

section \<open>The program\<close>

text \<open>
  A pass that gets decodable packets, and a command. The commands that break the program are left out: \<^verbatim>\<open>a\<close> always
  (\<open>auto_request_overreads\<close>), \<^verbatim>\<open>c\<close> on an open connection, which runs the handshake on sequence numbers in use, and \<^verbatim>\<open>d\<close> in the
  middle of a pass (\<open>close_during_pass\<close> below).
\<close>

inductive program_step :: "int \<Rightarrow> int \<Rightarrow> endpoint_thread \<Rightarrow> endpoint_thread \<Rightarrow> bool" for ft ms where
  Thread: "tloe_endpoint_step env t = Inr t' \<Longrightarrow> env_ok (it_tx env) \<Longrightarrow> rbe_alloc (it_tx env) \<Longrightarrow> rx_fine (it_rx env) \<Longrightarrow>
    program_step ft ms t t'"
| Command: "handle_user_input u input args1 args2 args3 ft ms (mem t, ep t) = Inr (r, mem', e') \<Longrightarrow> input \<noteq> CHR ''a'' \<Longrightarrow>
    (input = CHR ''c'' \<Longrightarrow> connection (ep t) = 0) \<Longrightarrow> (input = CHR ''d'' \<Longrightarrow> pc t \<noteq> Body) \<Longrightarrow>
    program_step ft ms t (t\<lparr>mem := mem', ep := e'\<rparr>)"

definition program_ok :: "endpoint_thread \<Rightarrow> bool" where
  "program_ok t \<longleftrightarrow> thread_inv t \<and> ep_settled (ep t) \<and> (connection (ep t) = 0 \<longrightarrow> pc t \<noteq> Body)"

lemma command_keeps:
  assumes "ep_settled e" "mm \<noteq> None" "ms = 0 \<or> ms = 1" "input \<noteq> CHR ''a''" "input = CHR ''c'' \<longrightarrow> connection e = 0"
  shows "run_gives (\<lambda>(_, mm', e'). ep_settled e' \<and> mm' \<noteq> None \<and>
      (connection e' = 0 \<longrightarrow> connection e = 0 \<or> input = CHR ''d''))
    (handle_user_input u input args1 args2 args3 ft ms (mm, e))"
proof -
  let ?S = "\<lambda>s. ep_settled s \<and> connection s = connection e"
  have "run_gives ?S (fold_run (\<lambda>_ s. bind_run (read_memory s a) (\<lambda>(_, s). Inr s)) is e)" for a and "is" :: "nat list"
    using assms(1) by (intro fold_run_gives) (auto simp: case_prod_beta intro!: run_weaken [OF read_settled])
  note r = run_weaken [OF this]
  have "run_gives ?S (fold_run (\<lambda>_ s. bind_run (write_memory s a v) (\<lambda>(_, s). Inr s)) is e)" for a v and "is" :: "nat list"
    using assms(1) by (intro fold_run_gives) (auto simp: case_prod_beta intro!: run_weaken [OF write_settled])
  note w = run_weaken [OF this]
  have "run_gives ?S (fold_run (\<lambda>i s. bind_run (write_memory s (a i) (v i)) (\<lambda>(_, s).
      bind_run (read_memory s (a i)) (\<lambda>(_, s). Inr s))) is e)" for a v and "is" :: "nat list"
    using assms(1) by (intro fold_run_gives)
      (auto simp: case_prod_beta intro!: run_weaken [OF write_settled] run_weaken [OF read_settled])
  note t = run_weaken [OF this]
  have fin: "ep_settled (e\<lparr>is_done := 1\<rparr>)"
    using assms(1) by (simp add: ep_settled_def ep_msgs_ok_def ep_inv_def tx_window_def fabric_up_def)
  have "run_gives (\<lambda>(mm', e'). ep_settled e' \<and> mm' \<noteq> None) (user_close u ft ms (mm, e))"
    using close_settled [OF assms(1-3)] by (rule run_weaken) (use assms(2) in \<open>auto simp: reset_endpoint_def\<close>)
  note close = run_weaken [OF this]
  have "run_gives (\<lambda>e'. ep_settled e') (user_open u e)" if "input = CHR ''c''"
    using open_settled [OF assms(1)] assms(5) that by blast
  note opens = run_weaken [OF this]
  consider "input = CHR ''c''" | "input = CHR ''d''" | "input = CHR ''r''" | "input = CHR ''w''" | "input = CHR ''t''"
    | "input \<notin> set ''acdrwt''" using assms(4) by auto
  then show ?thesis
  proof cases
    case 1
    then show ?thesis using assms(2,5) by (auto simp: handle_user_input_def intro: opens)
  next
    case 2
    then show ?thesis by (auto simp: handle_user_input_def intro: close)
  next
    case 3
    then show ?thesis using assms(1,2) by (simp add: handle_user_input_def Let_def) (auto simp: case_prod_beta intro: r run_weaken [OF read_settled])
  next
    case 4
    then show ?thesis using assms(1,2) by (simp add: handle_user_input_def Let_def) (auto simp: case_prod_beta intro: w run_weaken [OF write_settled])
  next
    case 5
    then show ?thesis using assms(1,2) by (simp add: handle_user_input_def Let_def) (intro impI t, auto)
  next
    case 6
    then show ?thesis using assms(1,2) fin by (simp add: handle_user_input_def)
  qed
qed

lemma program_ok_thread:
  assumes ok: "program_ok t" and st: "tloe_endpoint_step env t = Inr t'"
    and env: "env_ok (it_tx env)" "rbe_alloc (it_tx env)" "rx_fine (it_rx env)"
  shows "program_ok t'"
proof (cases "pc t")
  case Body
  have ti: "thread_inv t" and es: "ep_settled (ep t)" and con: "connection (ep t) \<noteq> 0" using ok Body by (auto simp: program_ok_def)
  have b: "tloe_endpoint_body env t = Inr t'" using st Body by (simp add: tloe_endpoint_step_def)
  then have "thread_inv t'" "pc t' = Test_Done" using body_parts [OF ti env] by (auto simp: pass_parts_def)
  moreover have "role (ep t') = role (ep t)" using run_givesD [OF body_role b] .
  ultimately show ?thesis using es con by (simp add: program_ok_def ep_settled_def role_def thread_inv_def)
qed (use ok st in \<open>auto simp: tloe_endpoint_step_def program_ok_def thread_inv_def split: if_splits\<close>)

lemma program_ok_step:
  assumes "program_step ft ms t t'" "ms = 0 \<or> ms = 1" "program_ok t"
  shows "program_ok t'"
  using assms
proof (induction rule: program_step.induct)
  case (Thread env t t')
  then show ?case using program_ok_thread by blast
next
  case (Command u input args1 args2 args3 t r mem' e')
  have es: "ep_settled (ep t)" and m: "mem t \<noteq> None" using Command.prems(2) by (auto simp: program_ok_def thread_inv_def)
  from run_givesD [OF command_keeps [OF es m Command.prems(1) Command.hyps(2)] Command.hyps(1)] Command.hyps(3)
  have "ep_settled e'" "mem' \<noteq> None" "connection e' = 0 \<longrightarrow> connection (ep t) = 0 \<or> input = CHR ''d''" by auto
  then show ?case
    using Command.prems(2) Command.hyps(4) by (auto simp: program_ok_def thread_inv_def ep_settled_def)
qed

lemma program_ok_reachable:
  assumes "(program_step ft ms)\<^sup>*\<^sup>* t t'" "ms = 0 \<or> ms = 1" "program_ok t"
  shows "program_ok t'"
  using reachable_invariant [where I = program_ok, OF assms(1,3)] program_ok_step [OF _ assms(2)] by blast

text \<open>
  The input loop of \<^verbatim>\<open>main\<close> makes such steps when the text it reads does not contain the three letters. (Hexadecimal numbers can be typed in
  capitals.)
\<close>

definition harmless :: "string \<Rightarrow> bool" where
  "harmless s \<longleftrightarrow> set s \<inter> set ''acd'' = {}"

lemma scanned_char_from_input:
  "run_gives (\<lambda>vs. \<forall>c vs'. vs = Scan_Char c # vs' \<longrightarrow> c \<in> set s) (scan (White # Conv_Char # fmt) s)"
proof (cases "dropWhile isspace s")
  case (Cons c cs)
  then have "c \<in> set s" by (metis list.set_intros(1) set_dropWhileD)
  then show ?thesis using Cons by (auto intro: run_any)
qed (simp del: dropWhile_eq_Nil_conv)

lemma read_command_letter:
  assumes "read_command s = Inr (Some (c, args))"
  shows "c \<in> set s"
proof -
  obtain vs where vs: "sscanf s '' %c %lx %x %x'' = Inr vs"
    using assms by (auto simp: read_command_def bind_run_eq_Inr simp del: scanned_arg.simps)
  obtain vs' where "vs = Scan_Char c # vs'"
  proof (cases vs)
    case Nil
    then show ?thesis using vs assms by (simp add: read_command_def)
  next
    case (Cons v vs')
    then show ?thesis using vs assms that by (cases v) (simp_all add: read_command_def del: scanned_arg.simps)
  qed
  then show ?thesis
    using run_givesD [OF scanned_char_from_input, of _ s vs] vs by (auto simp: sscanf_def command_format)
qed

lemma thread_steps_reach:
  assumes "fold_run tloe_endpoint_step envs t = Inr t'"
    and "\<forall>env \<in> set envs. env_ok (it_tx env) \<and> rbe_alloc (it_tx env) \<and> rx_fine (it_rx env)"
  shows "(program_step ft ms)\<^sup>*\<^sup>* t t'"
  using assms
proof (induction envs arbitrary: t)
  case (Cons env envs)
  then obtain t1 where t1: "tloe_endpoint_step env t = Inr t1" "(program_step ft ms)\<^sup>*\<^sup>* t1 t'" by (auto simp: bind_run_eq_Inr)
  have "program_step ft ms t t1" by (rule program_step.Thread [OF t1(1)]) (use Cons.prems(2) in simp_all)
  then show ?case using t1(2) by (meson converse_rtranclp_into_rtranclp)
qed simp

lemma main_loop_reaches:
  assumes "main_loop evs inp buf ft ms t = Inr t'" "harmless inp" "harmless buf"
    and "\<forall>ev \<in> set evs. \<forall>env \<in> set (ce_thread ev). env_ok (it_tx env) \<and> rbe_alloc (it_tx env) \<and> rx_fine (it_rx env)"
  shows "(program_step ft ms)\<^sup>*\<^sup>* t t'"
  using assms
proof (induction evs arbitrary: inp buf t)
  case (Cons ev evs)
  obtain t1 where t1: "fold_run tloe_endpoint_step (ce_thread ev) t = Inr t1" using Cons.prems(1) by (auto simp: bind_run_eq_Inr)
  have 1: "(program_step ft ms)\<^sup>*\<^sup>* t t1" using thread_steps_reach [OF t1] Cons.prems(4) by simp
  show ?case
  proof (cases "is_done (ep t1) = 0")
    case False
    then show ?thesis using 1 t1 Cons.prems(1) by simp
  next
    case True
    obtain line rest where fg: "fgets 32 inp = (line, rest)" by (cases "fgets 32 inp")
    let ?buf = "case line of None \<Rightarrow> buf | Some l \<Rightarrow> l"
    have h: "harmless rest" "harmless ?buf"
      using fg Cons.prems(2,3) by (auto simp: fgets_def harmless_def Let_def split: if_splits dest!: in_set_takeD in_set_dropD set_takeWhileD)
    note rest = Cons.IH [OF _ h]
    obtain cmd where cmd: "read_command ?buf = Inr cmd" using Cons.prems(1) t1 True fg by (auto simp: bind_run_eq_Inr Let_def)
    show ?thesis
    proof (cases cmd)
      case None
      then have "main_loop evs rest ?buf ft ms t1 = Inr t'" using Cons.prems(1) t1 True fg cmd by simp
      then show ?thesis using rest Cons.prems(4) 1 by (meson list.set_intros(2) rtranclp_trans)
    next
      case (Some c4)
      obtain c a1 a2 a3 where c4: "c4 = (c, a1, a2, a3)" by (cases c4)
      have "c \<in> set ?buf" using read_command_letter cmd Some c4 by blast
      then have ok: "c \<noteq> CHR ''a''" "c \<noteq> CHR ''c''" "c \<noteq> CHR ''d''" using h(2) by (auto simp: harmless_def)
      obtain r mem' e' where u: "handle_user_input (ce_user ev) c a1 a2 a3 ft ms (mem t1, ep t1) = Inr (r, mem', e')"
        "(if r \<noteq> 0 then Inr (t1\<lparr>mem := mem', ep := e'\<rparr>) else main_loop evs rest ?buf ft ms (t1\<lparr>mem := mem', ep := e'\<rparr>)) = Inr t'"
        using Cons.prems(1) t1 True fg cmd Some c4 by (auto simp: bind_run_eq_Inr Let_def)
      have 2: "program_step ft ms t1 (t1\<lparr>mem := mem', ep := e'\<rparr>)" using program_step.Command [OF u(1)] ok by blast
      have "(program_step ft ms)\<^sup>*\<^sup>* (t1\<lparr>mem := mem', ep := e'\<rparr>) t'"
        using u(2) rest Cons.prems(4) by (auto split: if_splits)
      then show ?thesis using 1 2 by (meson converse_rtranclp_into_rtranclp rtranclp_trans)
    qed
  qed
qed simp

lemma main_loop_ok:
  assumes "main_loop evs inp buf ft ms t = Inr t'" "harmless inp" "harmless buf" "ms = 0 \<or> ms = 1" "program_ok t"
    and "\<forall>ev \<in> set evs. \<forall>env \<in> set (ce_thread ev). env_ok (it_tx env) \<and> rbe_alloc (it_tx env) \<and> rx_fine (it_rx env)"
  shows "program_ok t'"
  using program_ok_reachable [OF main_loop_reaches [OF assms(1-3,6)] assms(4,5)] .

text \<open>
  The \<^verbatim>\<open>d\<close> command in the middle of a pass: the request that the thread holds belongs to the old connection and survives the reset of
  the endpoint, so that the pass sends it with sequence number 0 although the connection is closed.
\<close>

lemma close_during_pass:
  assumes ti: "thread_inv t" "ep_settled (ep t)" "ms = 0 \<or> ms = 1" and b: "pc t = Body"
    and m: "request_tlmsg t = Some m" "tlmsg_get_chan m \<in> {1..5}" "tlmsg_get_flits_cnt m \<le> 128"
    and d: "handle_user_input u CHR ''d'' args1 args2 args3 ft ms (mem t, ep t) = Inr (r, mem', e')"
    and env: "env_ok (it_tx env)" "rbe_alloc (it_tx env)" "it_rx env = (-1, [])"
  shows "\<exists>t'. tloe_endpoint_step env (t\<lparr>mem := mem', ep := e'\<rparr>) = Inr t' \<and> connection (ep t') = 0 \<and>
    next_tx_seq (ep t') = 1 \<and> q_len (retransmit_buffer (ep t')) = 1 \<and> fabric_sent (ep t') \<noteq> fabric_sent e'"
proof -
  have "mem t \<noteq> None" using ti(1) by (simp add: thread_inv_def)
  from close_settled [OF ti(2) this ti(3)] d have re: "reset_endpoint ms e'" "mem' = mem t"
    by (auto simp: handle_user_input_def run_gives_def bind_run_eq_Inr)
  let ?t = "t\<lparr>mem := mem', ep := e'\<rparr>"
  have inv: "ep_inv e'" and rb: "queue_list (retransmit_buffer e') = []"
    using re(1) by (simp_all add: reset_endpoint_def ep_settled_def ep_msgs_ok_def)
  have ti': "thread_inv ?t" using ti(1) re by (simp add: thread_inv_def reset_endpoint_def ep_settled_def)
  have q: "q_inv (ack_buffer e')" "q_inv (tl_msg_buffer e')" "q_inv (retransmit_buffer e')" "q_cap (retransmit_buffer e') = 4"
    using inv by (simp_all add: ep_inv_def)
  have len: "q_len (ack_buffer e') = 0" "q_len (tl_msg_buffer e') = 0" "q_len (retransmit_buffer e') = 0"
    using re(1) rb by (simp_all add: reset_endpoint_def flip: length_queue_list)
  have room: "\<not> is_queue_full (ack_buffer e')" "q_len (tl_msg_buffer e') + 64 \<le> q_cap (tl_msg_buffer e')"
    "\<not> is_queue_full (retransmit_buffer e')"
    using q len re(1) by (simp_all add: cq.full_iff reset_endpoint_def)
  obtain t' where t': "tloe_endpoint_body env ?t = Inr t'" "pass_parts env ?t t'"
    using body_parts [OF ti' env(1,2)] env(3) room by (auto simp: rx_fine_def)
  then obtain e1 e2 e ret where p: "local_work [] e' e" "TX (it_tx env) e (Some m) = Inr (ret, e1)" "req_ok (Some m)"
    "RX (it_alloc env) (it_rx env) e1 = Inr e2" "local_work (handled e2) e2 (ep t')"
    using m(1) by (auto simp: pass_parts_def serves_def chosen_def)
  have pp: "protocol_part e = protocol_part e'" "ep_inv e" "credits (fc e) = credits (fc e')" using p(1) by (simp_all add: local_work_def)
  have "nat (tlmsg_get_chan m) < 6" using m(2) by auto
  then have "credits (fc e) ! nat (tlmsg_get_chan m) = 128"
    using re(1) pp(3) by (simp add: reset_endpoint_def)
  then have plan: "tx_plan e (Some m) = Some (Some m)"
    using room(3) pp(1) m(2,3) by (simp add: tx_plan_def dec_refused_def protocol_part_def)
  obtain f pk ps0 ps where tx: "next_tx_seq e1 = tloe_seqnum_next (next_tx_seq e)" "ep_inv e1"
    "map rbe_key (queue_list (retransmit_buffer e1)) = map rbe_key (queue_list (retransmit_buffer e)) @ [f]"
    "fabric_sent e1 = fabric_sent e @ ps0 @ pk # ps"
    using TX_sends [OF pp(2) env(1,2) p(3) plan] p(2) by auto
  have "RX (it_alloc env) (it_rx env) e1 = Inr e1"
    using tx(2) env(3) by (simp add: RX_def tloe_fabric_recv_up ep_inv_def)
  then have e2: "protocol_part (ep t') = protocol_part e1" using p(4,5) by (simp add: local_work_def)
  have "length (queue_list (retransmit_buffer e1)) = 1"
    using arg_cong [OF tx(3), of length] pp(1) len(3) by (simp add: protocol_part_def)
  moreover have "tloe_seqnum_next 0 = 1" using seqnum_next_seq_of [of 0] by (simp add: seq_of_def)
  moreover have "role (ep t') = role e'" using run_givesD [OF body_role t'(1)] by simp
  ultimately show ?thesis
    using t'(1) b e2 pp(1) tx(1,4) re(1)
    by (intro exI [of _ t']) (simp add: tloe_endpoint_step_def protocol_part_def reset_endpoint_def role_def)
qed

section \<open>Properties\<close>



end
