(* ===== verification/Outage.thy ===== *)
theory Outage
  imports Lifecycle
begin

text \<open>
  A network that loses everything in one direction: the endpoint whose frames are lost fills its window and can send
  nothing more, not even the acknowledgements it has queued, while its peer, which hears nothing, repeats its frames after each
  time-out. The queue of acknowledgements fills up and the program stops in \<^verbatim>\<open>BUG_ON\<close>.
\<close>

section \<open>One pass\<close>

text \<open>
  The thread of a connected endpoint with a full window; \<open>f\<close>, \<open>n\<close> is a frame it has already received, whose acknowledgement number
  releases nothing.
\<close>

definition stale :: "tloe_frame_t \<Rightarrow> tloe_endpoint_t \<Rightarrow> bool" where
  "stale f e \<longleftrightarrow> ucast (h_seq_num (f_header f)) \<noteq> next_rx_seq e \<and>
     (\<forall>s \<in> set (map (\<lambda>(_, g). ucast (h_seq_num (f_header g))) (map rbe_key (queue_list (retransmit_buffer e)))).
       tloe_seqnum_cmp s (ucast (h_seq_num_ack (f_header f))) > 0)"

definition blocked :: "tloe_frame_t \<Rightarrow> endpoint_thread \<Rightarrow> bool" where
  "blocked f t \<longleftrightarrow> thread_inv t \<and> is_queue_full (retransmit_buffer (ep t)) \<and> stale f (ep t)"

lemma stale_unacked:
  assumes "stale f e"
  shows "unacked (ucast (h_seq_num_ack (f_header f))) (queue_list (retransmit_buffer e)) = queue_list (retransmit_buffer e)"
  using assms by (cases "queue_list (retransmit_buffer e)") (auto simp: stale_def rbe_key_def)

lemma same_window:
  assumes "ep_inv e" "ep_inv e'" "map rbe_key (queue_list (retransmit_buffer e')) = map rbe_key (queue_list (retransmit_buffer e))"
    and "next_rx_seq e' = next_rx_seq e"
  shows "is_queue_full (retransmit_buffer e') = is_queue_full (retransmit_buffer e)" "stale f e' = stale f e"
proof -
  have "q_len (retransmit_buffer e') = q_len (retransmit_buffer e)" using arg_cong [OF assms(3), of length] by simp
  then show "is_queue_full (retransmit_buffer e') = is_queue_full (retransmit_buffer e)"
    using assms(1,2) by (simp add: ep_inv_def cq.full_iff)
  show "stale f e' = stale f e" using assms(3,4) by (simp add: stale_def)
qed

lemma blocked_pass:
  assumes b: "blocked f t" and env: "env_ok (it_tx env)" "it_alloc env" "it_rx env = (n, buf)"
    and f: "0 \<le> n" "packet_to_tloe_frame buf n (zero_frame MAX_SIZE_FLIT) = Inr f" "frame_ok f n" "\<not> is_ackonly_frame f"
  shows "if is_queue_full (ack_buffer (ep t)) then tloe_endpoint_body env t = Inl Bug_On
    else \<exists>t'. tloe_endpoint_body env t = Inr t' \<and> blocked f t' \<and> pc t' = Test_Done \<and>
      q_len (ack_buffer (ep t')) = Suc (q_len (ack_buffer (ep t))) \<and> q_cap (ack_buffer (ep t')) = q_cap (ack_buffer (ep t))"
proof -
  have ti: "thread_inv t" and full: "is_queue_full (retransmit_buffer (ep t))" and st: "stale f (ep t)"
    using b by (simp_all add: blocked_def)
  obtain req c e where sel: "(if request_tlmsg t = None then select_buffer (sel_counter t) (ep t)
      else (request_tlmsg t, sel_counter t, ep t)) = (req, c, e)" by (metis prod_cases3)
  have s: "ep_msgs_ok e" "req_ok req" "1 \<le> c" "c \<le> 4" "protocol_part e = protocol_part (ep t)"
    using sel ti select_buffer_ok [of "ep t" "sel_counter t" req c e] by (auto simp: thread_inv_def split: if_splits)
  let ?e = "e\<lparr>iteration_ts := it_now env\<rparr>"
  have ok: "ep_msgs_ok ?e" "ep_inv ?e" using s(1) by (simp_all add: ep_msgs_ok_def ep_inv_def tx_window_def fabric_up_def)
  have w: "is_queue_full (retransmit_buffer ?e)" "stale f ?e" "ack_buffer ?e = ack_buffer (ep t)"
    using s(5) full st by (simp_all add: protocol_part_def stale_def)
  have "tx_plan ?e req = None" using w(1) by (simp add: tx_plan_def)
  from TX_idle [OF ok(2) env(1) s(2) this] obtain e1 where tx: "TX (it_tx env) ?e req = Inr (req, e1)" "ep_inv e1"
    "untouched e1 = untouched ?e" "ack_buffer e1 = ack_buffer ?e"
    "map rbe_key (queue_list (retransmit_buffer e1)) = map rbe_key (queue_list (retransmit_buffer ?e))" by blast
  have w1: "is_queue_full (retransmit_buffer e1)" "stale f e1"
    using same_window [OF ok(2) tx(2,5)] tx(3) w by (simp_all add: untouched_def)
  have rx: "RX (it_alloc env) (it_rx env) e1 = RX_frame e1 f n" using RX_packet [OF tx(2) f(1,2)] env by simp
  have sq: "ucast (h_seq_num (f_header f)) \<noteq> next_rx_seq e1" using w1(2) by (simp add: stale_def)
  note r = RX_frame_out_of_order [OF tx(2) f(3,4) sq]
  show ?thesis
  proof (cases "is_queue_full (ack_buffer (ep t))")
    case True
    then have "RX (it_alloc env) (it_rx env) e1 = Inl Bug_On" using r rx tx(4) w(3) by simp
    then show ?thesis using True sel tx(1) by (simp add: tloe_endpoint_body_def)
  next
    case False
    then obtain e2 where e2: "RX (it_alloc env) (it_rx env) e1 = Inr e2" "ep_inv e2" "rx_untouched e2 = rx_untouched e1"
      "next_rx_seq e2 = next_rx_seq e1" "tl_msg_buffer e2 = tl_msg_buffer e1"
      "queue_list (ack_buffer e2) = queue_list (ack_buffer e1) @ [reply_frame e1 f n]"
      "q_cap (ack_buffer e2) = q_cap (ack_buffer e1)"
      "map rbe_key (queue_list (retransmit_buffer e2)) = map rbe_key (queue_list (retransmit_buffer e1))"
      using r rx tx(4) w(3) stale_unacked [OF w1(2)] by auto
    have ok2: "ep_msgs_ok e2" using e2(2,3,5) ok(1) tx(3) by (simp add: ep_msgs_ok_def rx_untouched_def untouched_def)
    have w2: "is_queue_full (retransmit_buffer e2)" "stale f e2" using same_window [OF tx(2) e2(2,8,4)] w1 by simp_all
    obtain mm where mm: "mem t = Some mm" using ti by (auto simp: thread_inv_def)
    from body_handler [OF ok2 mm sel s(3,4) tx(1) e2(1) s(2)] obtain t' where t': "tloe_endpoint_body env t = Inr t'"
      "thread_inv t'" "pc t' = Test_Done" "serves t e2 t'" by blast
    then have pp: "protocol_part (ep t') = protocol_part e2" by (simp add: serves_def local_work_def)
    then have "blocked f t'" using t'(2) w2 by (simp add: blocked_def protocol_part_def stale_def)
    moreover have "q_len (ack_buffer e2) = Suc (q_len (ack_buffer e1))" using arg_cong [OF e2(6), of length] by simp
    ultimately show ?thesis
      using False t' pp e2(7) tx(4) w(3) by (auto simp: protocol_part_def)
  qed
qed

section \<open>The outage\<close>

text \<open>Three steps of the thread make a pass: two tests and the body.\<close>

lemma three_steps:
  assumes "pc t = Test_Done" "is_done (ep t) = 0" "connection (ep t) \<noteq> 0"
  shows "fold_run tloe_endpoint_step [env, env, env] t = tloe_endpoint_body env (t\<lparr>pc := Body\<rparr>)"
  using assms by (simp add: tloe_endpoint_step_def) (cases "tloe_endpoint_body env (t\<lparr>pc := Body\<rparr>)", simp_all)

text \<open>
  C17: a one-way outage aborts the program: a connected endpoint with a full window, to which its peer repeats a frame that it has
  already received and that acknowledges nothing new, never sends the acknowledgements it queues; as soon as the repetitions exceed
  the room that is left in its acknowledgement buffer, a pass stops in \<^verbatim>\<open>BUG_ON\<close> (\<^verbatim>\<open>serve_duplicate_request\<close>), although every
  packet was well formed and only packets were lost.
\<close>

theorem one_way_outage_aborts:
  assumes "thread_inv t" "pc t = Test_Done" "is_done (ep t) = 0" "connection (ep t) \<noteq> 0"
    and "is_queue_full (retransmit_buffer (ep t))" "stale f (ep t)"
    and "0 \<le> n" "packet_to_tloe_frame buf n (zero_frame MAX_SIZE_FLIT) = Inr f" "frame_ok f n" "\<not> is_ackonly_frame f"
    and "\<forall>env \<in> set envs. env_ok (it_tx env) \<and> it_alloc env \<and> it_rx env = (n, buf)"
    and "q_cap (ack_buffer (ep t)) - q_len (ack_buffer (ep t)) < length envs"
  shows "fold_run tloe_endpoint_step (concat (map (\<lambda>env. [env, env, env]) envs)) t = Inl Bug_On"
proof -
  have "blocked f t" using assms(1,5,6) by (simp add: blocked_def)
  then show ?thesis using assms(2-4,11,12)
  proof (induction envs arbitrary: t)
    case (Cons env envs)
    have env: "env_ok (it_tx env)" "it_alloc env" "it_rx env = (n, buf)" using Cons.prems(5) by simp_all
    let ?t = "t\<lparr>pc := Body\<rparr>"
    have b: "blocked f ?t" using Cons.prems(1) by (simp add: blocked_def thread_inv_def)
    have q: "q_inv (ack_buffer (ep t))" using Cons.prems(1) by (simp add: blocked_def thread_inv_def ep_msgs_ok_def ep_inv_def)
    note pass = blocked_pass [OF b env assms(7-10)]
    have split: "fold_run tloe_endpoint_step (concat (map (\<lambda>env. [env, env, env]) (env # envs))) t =
        bind_run (tloe_endpoint_body env ?t) (fold_run tloe_endpoint_step (concat (map (\<lambda>env. [env, env, env]) envs)))"
      unfolding list.map concat.simps fold_run_append three_steps [OF Cons.prems(2-4)] ..
    show ?case
    proof (cases "is_queue_full (ack_buffer (ep t))")
      case True
      then show ?thesis using pass split by simp
    next
      case False
      then obtain t' where t': "tloe_endpoint_body env ?t = Inr t'" "blocked f t'" "pc t' = Test_Done"
        "q_len (ack_buffer (ep t')) = Suc (q_len (ack_buffer (ep t)))" "q_cap (ack_buffer (ep t')) = q_cap (ack_buffer (ep t))"
        using pass by auto
      have "role (ep t') = role (ep t)" using run_givesD [OF body_role t'(1)] by simp
      then have r: "is_done (ep t') = 0" "connection (ep t') \<noteq> 0" using Cons.prems(3,4) by (simp_all add: role_def)
      have "q_len (ack_buffer (ep t)) < q_cap (ack_buffer (ep t))" using False q cq.not_full_iff [OF q] by simp
      then have "q_cap (ack_buffer (ep t')) - q_len (ack_buffer (ep t')) < length envs" using Cons.prems(6) t'(4,5) by simp
      from Cons.IH [OF t'(2,3) r _ this] Cons.prems(5) show ?thesis using split t'(1) by simp
    qed
  qed simp
qed

text \<open>An endpoint that has sent four frames, and the frame of the peer that is repeated.\<close>

definition sent_element :: "nat \<Rightarrow> RetransmitBufferElement" where
  "sent_element k = \<lparr>rbe_state = TLOE_SENT, f_size = 56, send_time = 1,
     tloe_frame = \<lparr>f_header = zero_header\<lparr>h_seq_num := of_nat k, h_ack := 1\<rparr>, flits = replicate MAX_SIZE_FLIT 0\<rparr>\<rparr>"

definition full_endpoint :: tloe_endpoint_t where
  "full_endpoint = (fresh_endpoint mq_fabric)\<lparr>retransmit_buffer :=
     fold (\<lambda>k q. snd (enqueue q (sent_element k))) [0, 1, 2, 3] (create_queue (WINDOW_SIZE + 1)), next_tx_seq := 4, connection := 1\<rparr>"

lemma full_window:
  "q_inv (retransmit_buffer full_endpoint)" "q_cap (retransmit_buffer full_endpoint) = 4"
  "queue_list (retransmit_buffer full_endpoint) = map sent_element [0, 1, 2, 3]"
proof -
  let ?q = "\<lambda>ks. fold (\<lambda>k q. snd (enqueue q (sent_element k))) ks (create_queue 5)"
  have "q_inv (?q ks) \<and> q_cap (?q ks) = 4 \<and> queue_list (?q ks) = map sent_element ks" if "length ks \<le> 4" for ks
    using that
  proof (induction ks rule: rev_induct)
    case Nil
    then show ?case by (simp add: create_queue_inv)
  next
    case (snoc k ks)
    then show ?case by (simp add: cq.enq_inv cq.enq_cap cq.enq_contents cq.full_iff flip: length_queue_list)
  qed
  from this [of "[0, 1, 2, 3]"] show "q_inv (retransmit_buffer full_endpoint)" "q_cap (retransmit_buffer full_endpoint) = 4"
    "queue_list (retransmit_buffer full_endpoint) = map sent_element [0, 1, 2, 3]" by (simp_all add: full_endpoint_def)
qed

lemma full_endpoint_inv: "ep_inv full_endpoint"
proof -
  have len: "q_len (retransmit_buffer full_endpoint) = 4" using arg_cong [OF full_window(3), of length] by simp
  have "map rbe_seq (queue_list (retransmit_buffer full_endpoint)) = map seq_of [0..<4]"
    by (simp add: full_window sent_element_def seq_of_def upt_conv_Cons)
  then have "tx_window full_endpoint"
    unfolding tx_window_def len by (intro exI [of _ 4]) (simp add: full_endpoint_def seq_of_def)
  moreover have "\<forall>el \<in> set (queue_list (retransmit_buffer full_endpoint)). rbe_ok el"
    by (simp add: full_window rbe_ok_def sent_element_def)
  ultimately show ?thesis
    using full_window(1,2) ep_inv_fresh_mq by (simp add: ep_inv_def full_endpoint_def fabric_up_def)
qed

definition repeated_header :: tloe_header_t where
  "repeated_header = zero_header\<lparr>h_seq_num := 4194303, h_seq_num_ack := 4194303, h_ack := 1\<rparr>"

theorem one_way_outage_aborts_witness:
  "fold_run tloe_endpoint_step (concat (map (\<lambda>env. [env, env, env]) (replicate 2048
      \<lparr>it_now = \<lparr>tv_sec = 1, tv_nsec = 2\<rparr>, it_tx = sample_env, it_alloc = True, it_rx = (56, conn_packet repeated_header)\<rparr>)))
    (waiting_thread\<lparr>pc := Test_Done, ep := full_endpoint\<rparr>) = Inl Bug_On"
proof -
  obtain f where f: "packet_to_tloe_frame (conn_packet repeated_header) 56 (zero_frame MAX_SIZE_FLIT) = Inr f"
      "f_header f = repeated_header" "length (flits f) = 65"
    using carries_decode(1) [OF conn_packet_carries [of repeated_header]]
      carries_decode(2) [OF conn_packet_carries [of repeated_header], of "[]"] by (simp add: padded_def)
  show ?thesis
  proof (rule one_way_outage_aborts [OF _ _ _ _ _ _ _ f(1)])
    show "thread_inv (waiting_thread\<lparr>pc := Test_Done, ep := full_endpoint\<rparr>)"
      using full_endpoint_inv fresh_rx [of mq_fabric] by (simp add: thread_inv_def waiting_thread_def ep_msgs_ok_def full_endpoint_def req_ok_def) (simp add: fresh_endpoint_def)
    show "is_queue_full (retransmit_buffer (ep (waiting_thread\<lparr>pc := Test_Done, ep := full_endpoint\<rparr>)))"
      using full_window by (simp add: cq.full_iff)
    show "stale f (ep (waiting_thread\<lparr>pc := Test_Done, ep := full_endpoint\<rparr>))"
    proof -
      have "next_rx_seq full_endpoint = 0" by (simp add: full_endpoint_def fresh_rx)
      moreover have "\<forall>s \<in> {0, 1, 2, 3 :: u32}. tloe_seqnum_cmp s 4194303 > 0" by (simp add: tloe_seqnum_cmp_def Let_def)
      ultimately show ?thesis
        using f(2) by (simp add: stale_def full_window rbe_key_def sent_element_def repeated_header_def)
    qed
  qed (use sample_env_ok f(2,3) in \<open>simp_all add: waiting_thread_def full_endpoint_def frame_ok_def repeated_header_def is_ackonly_frame_def fresh_endpoint_def zero_endpoint_def zero_header_def\<close>)
qed

end
