(* ===== verification/Drop_Hooks.thy ===== *)
theory Drop_Hooks
  imports Endpoint_State
begin

text \<open>
  The frame-drop hooks of the test builds (\<^verbatim>\<open>tloe_nsm.c\<close> under \<^verbatim>\<open>TEST_TIMEOUT_DROP\<close> and \<^verbatim>\<open>TEST_NORMAL_FRAME_DROP\<close>), with the
  value of \<^verbatim>\<open>rand()\<close> as an argument. The default build uses the stubs of \<^verbatim>\<open>tloe_nsm.h\<close>, which never drop.
\<close>

section \<open>The hooks\<close>

text \<open>
  \<^verbatim>\<open>handle_ack_packet_drop\<close> works on two counters, \<^verbatim>\<open>drop_apacket_size\<close> and \<^verbatim>\<open>drop_apacket_cnt\<close>, which the struct of
  \<^verbatim>\<open>tloe_endpoint.h\<close> does not declare; here they extend the endpoint record.
\<close>

record test_endpoint_t = tloe_endpoint_t +
  drop_apacket_size :: u32
  drop_apacket_cnt :: u32

definition nsm_ack_packet_drop :: "int \<Rightarrow> test_endpoint_t \<Rightarrow> bool \<times> test_endpoint_t" where
  "nsm_ack_packet_drop rand e =
     (if master e \<noteq> 0 then (False, e)
      else
        let e = (if drop_apacket_size e = 0 \<and> rand mod 1000 = 0 then e\<lparr>drop_apacket_size := 4\<rparr> else e)
        in if sint (drop_apacket_size e) > 0
           then (True, e\<lparr>drop_apacket_cnt := drop_apacket_cnt e + 1, drop_apacket_size := drop_apacket_size e - 1\<rparr>)
           else (False, e))"

definition nsm_normal_frame_drop :: "int \<Rightarrow> tloe_endpoint_t \<Rightarrow> bool \<times> tloe_endpoint_t" where
  "nsm_normal_frame_drop rand e =
     (if master e \<noteq> 0 then (False, e)
      else
        let e = (if drop_npacket_size e = 0 \<and> rand mod 1000 = 0 then e\<lparr>drop_npacket_size := 4\<rparr> else e)
        in if sint (drop_npacket_size e) > 0
           then (True, e\<lparr>drop_npacket_cnt := drop_npacket_cnt e + 1, drop_npacket_size := drop_npacket_size e - 1\<rparr>)
           else (False, e))"

definition nsm_single_normal_frame_drop :: "int \<Rightarrow> tloe_endpoint_t \<Rightarrow> bool \<times> tloe_endpoint_t" where
  "nsm_single_normal_frame_drop rand e =
     (if rand mod 10000 \<noteq> 99 then (False, e) else (True, e\<lparr>drop_cnt := drop_cnt e + 1\<rparr>))"

text \<open>A hook on a sequence of frames, with the numbers drawn.\<close>

fun hook_drops :: "(int \<Rightarrow> 's \<Rightarrow> bool \<times> 's) \<Rightarrow> int list \<Rightarrow> 's \<Rightarrow> bool list \<times> 's" where
  "hook_drops hook [] e = ([], e)"
| "hook_drops hook (r # rs) e =
     (let (d, e1) = hook r e; (ds, e2) = hook_drops hook rs e1 in (d # ds, e2))"

section \<open>Bursts\<close>

text \<open>
  What both burst hooks promise: \<open>left\<close> is the number of frames of the running burst still to be dropped, \<open>dropped\<close> the
  counter. A burst of four starts by chance, and only when none is running.
\<close>

locale burst_hook =
  fixes hook :: "int \<Rightarrow> 's \<Rightarrow> bool \<times> 's" and quiet :: "'s \<Rightarrow> bool" and left :: "'s \<Rightarrow> u32" and dropped :: "'s \<Rightarrow> u32"
  assumes quiet: "quiet e \<Longrightarrow> hook r e = (False, e)"
    and idle: "left e = 0 \<Longrightarrow> r mod 1000 \<noteq> 0 \<Longrightarrow> hook r e = (False, e)"
    and start: "\<not> quiet e \<Longrightarrow> left e = 0 \<Longrightarrow> r mod 1000 = 0 \<Longrightarrow>
      \<exists>e'. hook r e = (True, e') \<and> left e' = 3 \<and> dropped e' = dropped e + 1 \<and> \<not> quiet e'"
    and running: "\<not> quiet e \<Longrightarrow> left e \<noteq> 0 \<Longrightarrow> left e \<le> 3 \<Longrightarrow>
      \<exists>e'. hook r e = (True, e') \<and> left e' = left e - 1 \<and> dropped e' = dropped e + 1 \<and> \<not> quiet e'"
begin

definition burst_ok :: "'s \<Rightarrow> bool" where
  "burst_ok e \<longleftrightarrow> left e \<le> 3"

lemma hook_step:
  assumes "burst_ok e" "hook r e = (d, e')"
  shows "burst_ok e' \<and> (quiet e' \<longleftrightarrow> quiet e) \<and> dropped e' = dropped e + of_bool d"
proof (cases "quiet e \<or> left e = 0 \<and> r mod 1000 \<noteq> 0")
  case True
  then have "hook r e = (False, e)" using quiet idle by blast
  then show ?thesis using assms by simp
next
  case False
  then consider "\<not> quiet e" "left e = 0" "r mod 1000 = 0" | "\<not> quiet e" "left e \<noteq> 0" by blast
  then show ?thesis
  proof cases
    case 1
    then show ?thesis using start [of e r] assms(2) by (auto simp: burst_ok_def)
  next
    case 2
    have "left e - 1 \<le> 3" using 2(2) assms(1) by (simp add: burst_ok_def word_le_nat_alt unat_minus_one)
    then show ?thesis using running [of e r] 2 assms by (auto simp: burst_ok_def)
  qed
qed

lemma drops_counted:
  assumes "burst_ok e" "hook_drops hook rs e = (ds, e')"
  shows "burst_ok e' \<and> (quiet e' \<longleftrightarrow> quiet e) \<and> length ds = length rs \<and> dropped e' = dropped e + of_nat (length (filter id ds))"
  using assms
proof (induction rs arbitrary: e ds e')
  case Nil
  then show ?case by auto
next
  case (Cons r rs)
  obtain d e1 where h: "hook r e = (d, e1)" by (cases "hook r e")
  obtain ds1 e2 where hs: "hook_drops hook rs e1 = (ds1, e2)" by (cases "hook_drops hook rs e1")
  have eq: "ds = d # ds1" "e' = e2" using Cons.prems(2) h hs by simp_all
  note 1 = hook_step [OF Cons.prems(1) h]
  have 2: "burst_ok e2 \<and> (quiet e2 \<longleftrightarrow> quiet e1) \<and> length ds1 = length rs \<and> dropped e2 = dropped e1 + of_nat (length (filter id ds1))"
    using Cons.IH [OF _ hs] 1 by blast
  show ?case using 1 2 by (simp add: eq of_bool_def id_def)
qed

lemma burst_rest:
  assumes "\<not> quiet e" "left e = of_nat n" "n \<le> 3" "length rs = n"
  shows "\<exists>e'. hook_drops hook rs e = (replicate n True, e') \<and> left e' = 0 \<and> dropped e' = dropped e + of_nat n \<and> \<not> quiet e'"
  using assms
proof (induction n arbitrary: e rs)
  case 0
  then show ?case by simp
next
  case (Suc n)
  obtain r rs' where rs: "rs = r # rs'" using Suc.prems(4) by (cases rs) auto
  have "left e \<noteq> 0" "left e \<le> 3"
    using Suc.prems(2,3) by (auto simp: word_le_nat_alt unat_of_nat take_bit_nat_eq_self word_unat_eq_iff simp del: of_nat_Suc)
  from running [OF Suc.prems(1) this, of r] obtain e1 where e1: "hook r e = (True, e1)" "left e1 = left e - 1"
    "dropped e1 = dropped e + 1" "\<not> quiet e1" by blast
  have l1: "left e1 = of_nat n" using e1(2) Suc.prems(2) by simp
  have "n \<le> 3" "length rs' = n" using Suc.prems(3,4) rs by simp_all
  from Suc.IH [OF e1(4) l1 this] e1 show ?case by (auto simp: rs)
qed

lemma burst:
  assumes "\<not> quiet e" "left e = 0" "r mod 1000 = 0" "length rs = 3"
  shows "\<exists>e'. hook_drops hook (r # rs) e = (replicate 4 True, e') \<and> left e' = 0 \<and> dropped e' = dropped e + 4 \<and> \<not> quiet e'"
proof -
  obtain e1 where e1: "hook r e = (True, e1)" "left e1 = 3" "dropped e1 = dropped e + 1" "\<not> quiet e1"
    using start [OF assms(1-3)] by blast
  then have "left e1 = of_nat 3" by simp
  from burst_rest [OF e1(4) this _ assms(4)] e1(1,3) show ?thesis by (auto simp: eval_nat_numeral)
qed

end

lemma small_positive: "w \<noteq> 0 \<Longrightarrow> w \<le> 3 \<Longrightarrow> 0 < sint w" for w :: u32
proof -
  assume w: "w \<noteq> 0" "w \<le> 3"
  then have "unat w = 1 \<or> unat w = 2 \<or> unat w = 3" by (auto simp: word_le_nat_alt word_unat_eq_iff)
  then have "w = 1 \<or> w = 2 \<or> w = 3" by (auto simp: word_unat_eq_iff)
  then show ?thesis by auto
qed

interpretation nburst: burst_hook nsm_normal_frame_drop "\<lambda>e. master e \<noteq> 0" drop_npacket_size drop_npacket_cnt
  by unfold_locales (auto simp: nsm_normal_frame_drop_def Let_def small_positive)

interpretation aburst: burst_hook nsm_ack_packet_drop "\<lambda>e. master e \<noteq> 0" drop_apacket_size drop_apacket_cnt
  by unfold_locales (auto simp: nsm_ack_packet_drop_def Let_def small_positive)

section \<open>Properties\<close>

text \<open>
  Frames and acknowledgements are dropped in bursts of four: at a slave with no burst running, a draw divisible by 1000 drops
  this frame and the next three, whatever is drawn for those, and ends the burst; another draw drops nothing. A
  master never drops.
\<close>

theorem drops_in_bursts:
  assumes "r mod 1000 = 0" "length rs = 3"
  shows "(drop_npacket_size e = 0 \<and> master e = 0 \<longrightarrow> (\<exists>e'. hook_drops nsm_normal_frame_drop (r # rs) e = (replicate 4 True, e') \<and>
      drop_npacket_size e' = 0 \<and> drop_npacket_cnt e' = drop_npacket_cnt e + 4)) \<and>
    (drop_apacket_size a = 0 \<and> master a = 0 \<longrightarrow> (\<exists>a'. hook_drops nsm_ack_packet_drop (r # rs) a = (replicate 4 True, a') \<and>
      drop_apacket_size a' = 0 \<and> drop_apacket_cnt a' = drop_apacket_cnt a + 4)) \<and>
    (master e \<noteq> 0 \<longrightarrow> nsm_normal_frame_drop r' e = (False, e)) \<and> (master a \<noteq> 0 \<longrightarrow> nsm_ack_packet_drop r' a = (False, a))"
  using nburst.burst [OF _ _ assms, of e] aburst.burst [OF _ _ assms, of a] nburst.quiet [of e r'] aburst.quiet [of a r'] by auto

theorem drops_in_bursts_witness:
  "\<exists>e'. hook_drops nsm_normal_frame_drop [5000, 1, 2, 3] zero_endpoint = ([True, True, True, True], e') \<and> drop_npacket_cnt e' = 4"
proof -
  have "drop_npacket_size zero_endpoint = 0" "master zero_endpoint = 0" "drop_npacket_cnt zero_endpoint = 0"
    by (simp_all add: zero_endpoint_def)
  with drops_in_bursts [of 5000 "[1, 2, 3]" zero_endpoint] show ?thesis by (auto simp: eval_nat_numeral)
qed

text \<open>
  The counters of the hooks count: from a state in which at most three frames of a burst are left, after any sequence of frames the counter has
  grown by the number of frames dropped.
\<close>

lemma drops_are_counted:
  assumes "drop_npacket_size e \<le> 3" "hook_drops nsm_normal_frame_drop rs e = (ds, e')"
  shows "drop_npacket_cnt e' = drop_npacket_cnt e + of_nat (length (filter id ds)) \<and> drop_npacket_size e' \<le> 3"
  using nburst.drops_counted [OF _ assms(2)] assms(1) by (simp add: nburst.burst_ok_def)

end
