(* ===== verification/Shared_Queue.thy ===== *)
theory Shared_Queue
  imports Endpoint
begin

text \<open>
  The message buffer is shared: the main thread enqueues the user's requests while the endpoint thread
  dequeues them, and neither takes the mutex of the queue. Here \<^verbatim>\<open>enqueue\<close> and \<^verbatim>\<open>dequeue\<close> of
  \<^verbatim>\<open>util/circular_queue.c\<close> are split into steps that each access one shared location, the two threads
  interleave at these steps, and every interleaving is shown to act like atomic operations on a list.
  Memory is sequentially consistent: the C sources use plain \<^verbatim>\<open>int\<close>s and pointers for the shared
  fields, so the theorem says what the algorithm guarantees when the compiler and the processor keep
  the order of the accesses.
\<close>

section \<open>The steps of one call\<close>

text \<open>
  Where a call of \<open>enqueue\<close> is: in the waiting loop of \<^verbatim>\<open>read_memory\<close>, \<^verbatim>\<open>write_memory\<close> and
  \<^verbatim>\<open>create_and_enqueue_message\<close> that precedes it, before the test of \<^verbatim>\<open>is_queue_full\<close>, before the store
  into \<^verbatim>\<open>data[rear]\<close>, before the update of \<^verbatim>\<open>rear\<close>, or returned. Only the producer writes \<^verbatim>\<open>rear\<close>, so a
  step that reads \<^verbatim>\<open>rear\<close> and \<^verbatim>\<open>front\<close> observes the consumer once.
\<close>

datatype 'a enq_pc = Enq_Wait 'a | Enq_Test 'a | Enq_Store 'a | Enq_Advance 'a | Enq_Return bool

fun enqueue_step :: "'a enq_pc \<Rightarrow> 'a CircularQueue \<Rightarrow> 'a enq_pc \<times> 'a CircularQueue" where
  "enqueue_step (Enq_Wait x) q = (if is_queue_full q then Enq_Wait x else Enq_Test x, q)"
| "enqueue_step (Enq_Test x) q = (if is_queue_full q then Enq_Return False else Enq_Store x, q)"
| "enqueue_step (Enq_Store x) q = (Enq_Advance x, q\<lparr>data := (data q)[rear q := Some x]\<rparr>)"
| "enqueue_step (Enq_Advance x) q = (Enq_Return True, q\<lparr>rear := (rear q + 1) mod qsize q\<rparr>)"
| "enqueue_step (Enq_Return b) q = (Enq_Return b, q)"

datatype 'a deq_pc = Deq_Test | Deq_Load | Deq_Advance "'a option" | Deq_Return "'a option"

fun dequeue_step :: "'a deq_pc \<Rightarrow> 'a CircularQueue \<Rightarrow> 'a deq_pc \<times> 'a CircularQueue" where
  "dequeue_step Deq_Test q = (if is_queue_empty q then Deq_Return None else Deq_Load, q)"
| "dequeue_step Deq_Load q = (Deq_Advance (data q ! front q), q)"
| "dequeue_step (Deq_Advance v) q = (Deq_Return v, q\<lparr>front := (front q + 1) mod qsize q\<rparr>)"
| "dequeue_step (Deq_Return v) q = (Deq_Return v, q)"

text \<open>Without interference three steps are the call, and a wait that ends makes \<open>enqueue_message\<close> succeed.\<close>

lemma enqueue_steps_alone:
  "((\<lambda>(p, q). enqueue_step p q) ^^ 3) (Enq_Test x, q) = (Enq_Return (fst (enqueue q x)), snd (enqueue q x))"
  by (simp add: numeral_eq_Suc enqueue_def)

lemma dequeue_steps_alone:
  "((\<lambda>(p, q). dequeue_step p q) ^^ 3) (Deq_Test, q) = (Deq_Return (fst (dequeue q)), snd (dequeue q))"
  by (simp add: numeral_eq_Suc dequeue_def)

lemma enqueue_message_alone:
  assumes "enqueue_message e m = Inr (r, e')"
  shows "((\<lambda>(p, q). enqueue_step p q) ^^ 4) (Enq_Wait m, message_buffer e) = (Enq_Return (r \<noteq> 0), message_buffer e')"
  using assms by (auto simp: enqueue_message_def enqueue_def numeral_eq_Suc split: if_splits)

section \<open>Two threads on one queue\<close>

text \<open>
  The state of both threads and the queue. \<open>hist\<close> records each finished operation with its result, in the order
  in which the operations took effect: a successful call when it moves its index, a refused one at its test.
\<close>

record 'a shared =
  ring :: "'a CircularQueue"
  producer :: "'a enq_pc"
  consumer :: "'a deq_pc"
  hist :: "('a queue_op \<times> 'a queue_out) list"

fun enq_event :: "'a enq_pc \<Rightarrow> 'a CircularQueue \<Rightarrow> ('a queue_op \<times> 'a queue_out) list" where
  "enq_event (Enq_Test x) q = (if is_queue_full q then [(Enq x, Accepted False)] else [])"
| "enq_event (Enq_Advance x) q = [(Enq x, Accepted True)]"
| "enq_event _ q = []"

fun deq_event :: "'a deq_pc \<Rightarrow> 'a CircularQueue \<Rightarrow> ('a queue_op \<times> 'a queue_out) list" where
  "deq_event Deq_Test q = (if is_queue_empty q then [(Deq, Took None)] else [])"
| "deq_event (Deq_Advance v) q = [(Deq, Took v)]"
| "deq_event _ q = []"

text \<open>
  A thread starts a call when its last one has returned, or takes the next step of its call. \<open>w\<close> says whether the
  producer waits for room before it calls \<open>enqueue\<close>, as the three functions of \<^verbatim>\<open>tloe_endpoint.c\<close> do.
\<close>

inductive shared_step :: "bool \<Rightarrow> 'a shared \<Rightarrow> 'a shared \<Rightarrow> bool" for w where
  call_enqueue: "producer s = Enq_Return b \<Longrightarrow>
    shared_step w s (s\<lparr>producer := if w then Enq_Wait x else Enq_Test x\<rparr>)"
| run_enqueue: "enqueue_step (producer s) (ring s) = (p, q) \<Longrightarrow>
    shared_step w s (s\<lparr>producer := p, ring := q, hist := hist s @ enq_event (producer s) (ring s)\<rparr>)"
| call_dequeue: "consumer s = Deq_Return v \<Longrightarrow> shared_step w s (s\<lparr>consumer := Deq_Test\<rparr>)"
| run_dequeue: "dequeue_step (consumer s) (ring s) = (c, q) \<Longrightarrow>
    shared_step w s (s\<lparr>consumer := c, ring := q, hist := hist s @ deq_event (consumer s) (ring s)\<rparr>)"

definition shared_start :: "nat \<Rightarrow> 'a shared" where
  "shared_start n = \<lparr>ring = create_queue n, producer = Enq_Return True, consumer = Deq_Return None, hist = []\<rparr>"

section \<open>Interference\<close>

text \<open>What each program counter may rely on, whatever the other thread does.\<close>

fun producer_ok :: "bool \<Rightarrow> 'a enq_pc \<Rightarrow> 'a CircularQueue \<Rightarrow> bool" where
  "producer_ok w (Enq_Test x) q \<longleftrightarrow> w \<longrightarrow> \<not> is_queue_full q"
| "producer_ok w (Enq_Store x) q \<longleftrightarrow> \<not> is_queue_full q"
| "producer_ok w (Enq_Advance x) q \<longleftrightarrow> \<not> is_queue_full q \<and> data q ! rear q = Some x"
| "producer_ok w (Enq_Return b) q \<longleftrightarrow> w \<longrightarrow> b"
| "producer_ok w (Enq_Wait x) q \<longleftrightarrow> True"

fun consumer_ok :: "'a deq_pc \<Rightarrow> 'a CircularQueue \<Rightarrow> bool" where
  "consumer_ok Deq_Load q \<longleftrightarrow> \<not> is_queue_empty q"
| "consumer_ok (Deq_Advance v) q \<longleftrightarrow> \<not> is_queue_empty q \<and> v = data q ! front q"
| "consumer_ok _ q \<longleftrightarrow> True"

definition shared_inv :: "bool \<Rightarrow> nat \<Rightarrow> 'a shared \<Rightarrow> bool" where
  "shared_inv w n s \<longleftrightarrow> q_inv (ring s) \<and> q_cap (ring s) = n - 1 \<and>
     producer_ok w (producer s) (ring s) \<and> consumer_ok (consumer s) (ring s) \<and>
     list_run (n - 1) (map fst (hist s)) [] = (map snd (hist s), queue_list (ring s))"

text \<open>The store goes to a slot that is not live, so it changes neither the invariant nor the contents.\<close>

lemma store_keeps:
  assumes "q_inv q" and q'_def: "q' = q\<lparr>data := (data q)[rear q := Some x]\<rparr>"
  shows "q_inv q'" "queue_list q' = queue_list q" "q_cap q' = q_cap q" "is_queue_full q' = is_queue_full q"
    "is_queue_empty q' = is_queue_empty q" "data q' ! rear q' = Some x"
    "\<not> is_queue_empty q \<Longrightarrow> data q' ! front q' = data q ! front q"
proof -
  have len: "q_len q' = q_len q" and sl: "slot q' = slot q"
    by (simp_all add: q'_def q_len_def slot_def fun_eq_iff)
  have live: "data q' ! slot q k = data q ! slot q k" if "k < q_len q" for k
  proof -
    have "slot q k \<noteq> rear q"
      using that slot_inj [OF assms(1), of k "q_len q"] q_len_less [OF assms(1)] slot_q_len [OF assms(1)] by auto
    then show ?thesis by (simp add: q'_def)
  qed
  show "q_inv q'" using assms(1) live len sl by (auto simp: q_inv_def q'_def)
  show "queue_list q' = queue_list q" using live len sl by (simp add: queue_list_def)
  show "q_cap q' = q_cap q" "is_queue_full q' = is_queue_full q" "is_queue_empty q' = is_queue_empty q"
    by (simp_all add: q'_def q_cap_def is_queue_full_def is_queue_empty_def)
  show "data q' ! rear q' = Some x" using q_inv_index [OF assms(1)] by (simp add: q'_def)
  show "data q' ! front q' = data q ! front q" if "\<not> is_queue_empty q"
    using that by (simp add: q'_def is_queue_empty_def)
qed

text \<open>The two index updates are the atomic operations.\<close>

lemma advance_is_operation:
  "\<not> is_queue_full q \<Longrightarrow> data q ! rear q = Some x \<Longrightarrow> q\<lparr>rear := (rear q + 1) mod qsize q\<rparr> = snd (enqueue q x)"
  "\<not> is_queue_empty q \<Longrightarrow> q\<lparr>front := (front q + 1) mod qsize q\<rparr> = snd (dequeue q)"
proof -
  show "\<not> is_queue_empty q \<Longrightarrow> q\<lparr>front := (front q + 1) mod qsize q\<rparr> = snd (dequeue q)"
    by (simp add: dequeue_def)
  assume "\<not> is_queue_full q" "data q ! rear q = Some x"
  then have "(data q)[rear q := Some x] = data q" by (metis list_update_id)
  then show "q\<lparr>rear := (rear q + 1) mod qsize q\<rparr> = snd (enqueue q x)"
    using \<open>\<not> is_queue_full q\<close> by (simp add: enqueue_def)
qed

lemma enqueue_keeps_consumer:
  assumes "q_inv q" "\<not> is_queue_full q" "consumer_ok c q"
  shows "consumer_ok c (snd (enqueue q x))"
proof -
  have ne: "\<not> is_queue_empty (snd (enqueue q x))"
    using assms cq.empty_iff [OF enqueue_q_inv [OF assms(1)]] cq.enq_contents [OF assms(1,2)] by simp
  have "data (snd (enqueue q x)) ! front (snd (enqueue q x)) = data q ! front q" if "\<not> is_queue_empty q"
    using that assms(2) by (simp add: enqueue_def is_queue_empty_def)
  then show ?thesis using assms(3) ne by (cases c) auto
qed

lemma dequeue_keeps_producer:
  assumes "q_inv q" "\<not> is_queue_empty q" "producer_ok w p q"
  shows "producer_ok w p (snd (dequeue q))"
proof -
  have "length (queue_list q) \<noteq> 0" using assms(1,2) cq.empty_iff by fastforce
  then have "length (queue_list (snd (dequeue q))) < q_cap q"
    using cq.bound [OF assms(1)] cq.deq_contents [OF assms(1)] by simp
  then have nf: "\<not> is_queue_full (snd (dequeue q))"
    using cq.full_iff [OF dequeue_q_inv [OF assms(1)]] cq.deq_cap [of q] by simp
  have "data (snd (dequeue q)) = data q" "rear (snd (dequeue q)) = rear q" by (simp_all add: dequeue_def)
  then show ?thesis using assms(3) nf by (cases p) auto
qed

section \<open>Linearizability\<close>

lemma list_run_snoc:
  assumes "list_run n os xs = (outs, ys)" "list_run n [op] ys = ([out], zs)"
  shows "list_run n (os @ [op]) xs = (outs @ [out], zs)"
  using assms
proof (induction n os xs arbitrary: outs rule: list_run.induct)
  case (1 n xs)
  then show ?case by simp
next
  case (2 n x os xs)
  then show ?case by (auto split: if_splits prod.splits)
next
  case (3 n os xs)
  then show ?case by (auto split: list.splits prod.splits)
qed

lemma hist_snoc:
  assumes "list_run n (map fst h) [] = (map snd h, xs)" "list_run n [op] xs = ([out], ys)"
  shows "list_run n (map fst (h @ [(op, out)])) [] = (map snd (h @ [(op, out)]), ys)"
  using list_run_snoc [OF assms] by simp


text \<open>One step of either thread keeps the invariant.\<close>

lemma shared_inv_enqueue:
  assumes "shared_inv w n s" "enqueue_step (producer s) (ring s) = (p, q)"
  shows "shared_inv w n (s\<lparr>producer := p, ring := q, hist := hist s @ enq_event (producer s) (ring s)\<rparr>)"
proof -
  have inv: "q_inv (ring s)" "q_cap (ring s) = n - 1" "producer_ok w (producer s) (ring s)" "consumer_ok (consumer s) (ring s)"
    and h: "list_run (n - 1) (map fst (hist s)) [] = (map snd (hist s), queue_list (ring s))"
    using assms(1) by (auto simp: shared_inv_def)
  show ?thesis
  proof (cases "producer s")
    case (Enq_Test x)
    show ?thesis
    proof (cases "is_queue_full (ring s)")
      case True
      then have "list_run (n - 1) [Enq x] (queue_list (ring s)) = ([Accepted False], queue_list (ring s))"
        using cq.full_iff [OF inv(1)] inv(2) by simp
      from hist_snoc [OF h this] True assms(2) inv Enq_Test show ?thesis by (auto simp: shared_inv_def)
    qed (use assms(2) inv h Enq_Test in \<open>auto simp: shared_inv_def\<close>)
  next
    case (Enq_Store x)
    note st = store_keeps [OF inv(1) refl, of x]
    have "consumer_ok (consumer s) (ring s\<lparr>data := (data (ring s))[rear (ring s) := Some x]\<rparr>)"
      using inv(4) st(5,7) by (cases "consumer s") auto
    with st assms(2) inv h Enq_Store show ?thesis by (auto simp: shared_inv_def)
  next
    case (Enq_Advance x)
    then have nf: "\<not> is_queue_full (ring s)" and q: "q = snd (enqueue (ring s) x)"
      using inv(3) assms(2) advance_is_operation(1) [of "ring s" x] by auto
    have "list_run (n - 1) [Enq x] (queue_list (ring s)) = ([Accepted True], queue_list q)"
      using cq.not_full_iff [OF inv(1)] nf inv(2) q cq.enq_contents [OF inv(1) nf] by simp
    from hist_snoc [OF h this] q nf assms(2) inv Enq_Advance enqueue_keeps_consumer [OF inv(1) nf inv(4)]
    show ?thesis by (auto simp: shared_inv_def cq.enq_cap cq.enq_inv)
  next
    case (Enq_Wait x)
    then have "q = ring s" "p = (if is_queue_full (ring s) then Enq_Wait x else Enq_Test x)" using assms(2) by auto
    then show ?thesis using inv h Enq_Wait by (simp add: shared_inv_def)
  next
    case (Enq_Return b)
    then have "q = ring s" "p = Enq_Return b" using assms(2) by auto
    then show ?thesis using inv h Enq_Return by (simp add: shared_inv_def)
  qed
qed

lemma shared_inv_dequeue:
  assumes "shared_inv w n s" "dequeue_step (consumer s) (ring s) = (c, q)"
  shows "shared_inv w n (s\<lparr>consumer := c, ring := q, hist := hist s @ deq_event (consumer s) (ring s)\<rparr>)"
proof -
  have inv: "q_inv (ring s)" "q_cap (ring s) = n - 1" "producer_ok w (producer s) (ring s)" "consumer_ok (consumer s) (ring s)"
    and h: "list_run (n - 1) (map fst (hist s)) [] = (map snd (hist s), queue_list (ring s))"
    using assms(1) by (auto simp: shared_inv_def)
  show ?thesis
  proof (cases "consumer s")
    case Deq_Test
    show ?thesis
    proof (cases "is_queue_empty (ring s)")
      case True
      then have "list_run (n - 1) [Deq] (queue_list (ring s)) = ([Took None], queue_list (ring s))"
        using cq.empty_iff [OF inv(1)] by simp
      from hist_snoc [OF h this] True assms(2) inv Deq_Test show ?thesis by (auto simp: shared_inv_def)
    qed (use assms(2) inv h Deq_Test in \<open>auto simp: shared_inv_def\<close>)
  next
    case (Deq_Advance v)
    then have ne: "\<not> is_queue_empty (ring s)" and v: "v = data (ring s) ! front (ring s)" and q: "q = snd (dequeue (ring s))"
      using inv(4) assms(2) advance_is_operation(2) [of "ring s"] by auto
    have "v = getfront (ring s)" using v ne by (simp add: getfront_def)
    then have "list_run (n - 1) [Deq] (queue_list (ring s)) = ([Took v], queue_list q)"
      using cq.peek_contents [OF inv(1)] cq.empty_iff [OF inv(1)] ne q cq.deq_contents [OF inv(1)]
      by (cases "queue_list (ring s)") auto
    from hist_snoc [OF h this] q assms(2) inv Deq_Advance dequeue_keeps_producer [OF inv(1) ne inv(3)]
    show ?thesis by (auto simp: shared_inv_def cq.deq_cap cq.deq_inv)
  next
    case Deq_Load
    then show ?thesis using assms(2) inv h by (auto simp: shared_inv_def)
  next
    case (Deq_Return v)
    then have "q = ring s" "c = Deq_Return v" using assms(2) by auto
    then show ?thesis using inv h Deq_Return by (simp add: shared_inv_def)
  qed
qed

lemma shared_inv_step: "shared_step w s s' \<Longrightarrow> shared_inv w n s \<Longrightarrow> shared_inv w n s'"
proof (induction rule: shared_step.induct)
  case (call_enqueue s b x)
  then show ?case by (cases w) (simp_all add: shared_inv_def)
next
  case (call_dequeue s v)
  then show ?case by (simp add: shared_inv_def)
qed (blast intro: shared_inv_enqueue shared_inv_dequeue)+

lemma shared_inv_reachable:
  assumes "(shared_step w)\<^sup>*\<^sup>* (shared_start n) s" "0 < n"
  shows "shared_inv w n s"
  by (rule reachable_invariant [OF assms(1) _ shared_inv_step])
    (use create_queue_inv [OF assms(2)] in \<open>simp_all add: shared_inv_def shared_start_def\<close>)

lemma list_run_fifo:
  assumes "list_run n os xs = (outs, ys)"
  shows "length xs \<le> n \<Longrightarrow> length ys \<le> n"
    "xs @ [x. (Enq x, Accepted True) \<leftarrow> zip os outs] = [x. Took (Some x) \<leftarrow> outs] @ ys"
  using assms
proof (induction n os xs arbitrary: outs rule: list_run.induct)
  case (3 n os xs)
  { case 1 with 3 show ?case by (auto split: list.splits prod.splits) next
    case 2 with 3 show ?case by (auto split: list.splits prod.splits) }
qed (auto split: if_splits prod.splits)

text \<open>The relation run by a schedule, for evaluation: a call by a thread that is still in one is ignored.\<close>

datatype 'a shared_move = Call_Enqueue 'a | Run_Enqueue | Call_Dequeue | Run_Dequeue

fun shared_exec :: "bool \<Rightarrow> 'a shared_move \<Rightarrow> 'a shared \<Rightarrow> 'a shared" where
  "shared_exec w (Call_Enqueue x) s =
     (case producer s of Enq_Return _ \<Rightarrow> s\<lparr>producer := if w then Enq_Wait x else Enq_Test x\<rparr> | _ \<Rightarrow> s)"
| "shared_exec w Run_Enqueue s =
     (let (p, q) = enqueue_step (producer s) (ring s)
      in s\<lparr>producer := p, ring := q, hist := hist s @ enq_event (producer s) (ring s)\<rparr>)"
| "shared_exec w Call_Dequeue s = (case consumer s of Deq_Return _ \<Rightarrow> s\<lparr>consumer := Deq_Test\<rparr> | _ \<Rightarrow> s)"
| "shared_exec w Run_Dequeue s =
     (let (c, q) = dequeue_step (consumer s) (ring s)
      in s\<lparr>consumer := c, ring := q, hist := hist s @ deq_event (consumer s) (ring s)\<rparr>)"

lemma shared_exec_step: "(shared_step w)\<^sup>*\<^sup>* s (shared_exec w m s)"
proof (cases m)
  case (Call_Enqueue x)
  then show ?thesis using call_enqueue [of s _ w x] by (auto split: enq_pc.splits)
next
  case Run_Enqueue
  then show ?thesis using run_enqueue [of s _ _ w] by (auto split: prod.splits)
next
  case Call_Dequeue
  then show ?thesis using call_dequeue [of s _ w] by (auto split: deq_pc.splits)
next
  case Run_Dequeue
  then show ?thesis using run_dequeue [of s _ _ w] by (auto split: prod.splits)
qed

lemma shared_exec_reaches: "(shared_step w)\<^sup>*\<^sup>* s (fold (shared_exec w) ms s)"
  by (induction ms arbitrary: s) (simp, metis fold_simps(2) shared_exec_step rtranclp_trans)

section \<open>Properties\<close>

text \<open>
  C10: the message buffer is linearizable although no thread takes its lock: in every interleaving of the steps of one
  thread that enqueues and one that dequeues, the finished calls, in the order in which they took effect, return exactly
  what they return on a list of at most \<open>n - 1\<close> elements, and the ring holds that list. Nothing is lost,
  duplicated, reordered or read before it is written: the elements accepted are the elements taken followed by the
  contents. And when the producer waits for room first, as the program does, its calls are never refused:
  room it has seen stays until it uses it, so no request of the user is dropped.
\<close>

theorem shared_queue_linearizable:
  assumes "(shared_step w)\<^sup>*\<^sup>* (shared_start n) s" "0 < n"
  shows "list_run (n - 1) (map fst (hist s)) [] = (map snd (hist s), queue_list (ring s)) \<and> q_inv (ring s) \<and>
    [x. (Enq x, Accepted True) \<leftarrow> hist s] = [x. (_, Took (Some x)) \<leftarrow> hist s] @ queue_list (ring s) \<and>
    (w \<longrightarrow> producer s \<noteq> Enq_Return False)"
proof -
  have r: "list_run (n - 1) (map fst (hist s)) [] = (map snd (hist s), queue_list (ring s))" "q_inv (ring s)"
    "producer_ok w (producer s) (ring s)"
    using shared_inv_reachable [OF assms] by (auto simp: shared_inv_def)
  have "[x. Took (Some x) \<leftarrow> map snd h] = [x. (_, Took (Some x)) \<leftarrow> h]" for h :: "('a queue_op \<times> 'a queue_out) list"
    by (induction h) (auto split: queue_out.splits option.splits)
  then show ?thesis using r list_run_fifo(2) [OF r(1)] by (auto simp: zip_map_fst_snd)
qed

text \<open>
  The witness interleaves a dequeue that starts on the empty queue with two requests on a queue that holds one: the
  second waits until the first has been taken.
\<close>

theorem shared_queue_linearizable_witness:
  "\<exists>s. (shared_step True)\<^sup>*\<^sup>* (shared_start 2) s \<and>
     hist s = [(Deq, Took None), (Enq (7::nat), Accepted True), (Deq, Took (Some 7)), (Enq 8, Accepted True)] \<and>
     queue_list (ring s) = [8] \<and> q_inv (ring s) \<and> producer s \<noteq> Enq_Return False"
proof -
  let ?ms = "[Call_Enqueue (7::nat), Run_Enqueue, Call_Dequeue, Run_Enqueue, Run_Enqueue, Run_Dequeue, Run_Enqueue,
    Call_Dequeue, Call_Enqueue 8, Run_Enqueue, Run_Dequeue, Run_Enqueue, Run_Dequeue, Run_Enqueue, Run_Dequeue,
    Run_Enqueue, Run_Enqueue, Run_Enqueue, Run_Enqueue]"
  define s where "s = fold (shared_exec True) ?ms (shared_start 2)"
  have h: "hist s = [(Deq, Took None), (Enq 7, Accepted True), (Deq, Took (Some 7)), (Enq 8, Accepted True)]"
    by (simp add: s_def shared_start_def create_queue_def init_queue_def is_queue_full_def is_queue_empty_def)
  have reach: "(shared_step True)\<^sup>*\<^sup>* (shared_start 2) s" unfolding s_def by (rule shared_exec_reaches)
  have "(0::nat) < 2" by simp
  from shared_queue_linearizable [OF reach this] h reach show ?thesis by (intro exI [of _ s]) simp
qed

end
