(* ===== verification/Remote_Memory.thy ===== *)
theory Remote_Memory
  imports Session
begin

text \<open>
  The whole system: two endpoint programs, each with its thread, its memory and a user who adds requests, and a
  network that loses packets. The state has no ghost part but histories of what the users asked for, what the
  handlers served and how many frames were sent. The theorem is the promise of the program to its
  users: the memory at the other end is what their requests, executed once each and in order, make it, and the answers that come
  back are the answers to these requests, in order.
\<close>

section \<open>Messages on the wire\<close>

definition is_request :: "tl_msg_t \<Rightarrow> bool" where
  "is_request m \<longleftrightarrow> nat (tlmsg_get_chan m) = 1"

definition is_reply :: "tl_msg_t \<Rightarrow> bool" where
  "is_reply m \<longleftrightarrow> nat (tlmsg_get_chan m) = 4"

text \<open>
  Requests that fit: within the memory, at most 40 bytes, and for a read an answer of 16 to 40 bytes. The requests of the
  \<^verbatim>\<open>r\<close> and \<^verbatim>\<open>w\<close> commands are of this kind for every address whose eight bytes are within the memory.
\<close>

definition askable :: "tl_msg_t \<Rightarrow> bool" where
  "askable m \<longleftrightarrow> is_request m \<and> req_ok (Some m) \<and> polite m \<and> tlmsg_get_total_size m \<le> 40 \<and>
     (is_get m \<longrightarrow> unat (tl_size (tl_header m)) \<in> {3..5})"

definition answer :: "tl_msg_t \<Rightarrow> bool" where
  "answer m \<longleftrightarrow> (\<exists>src. m = ack_msg src) \<or>
     (\<exists>src sz bs. m = ackdata_msg src sz bs \<and> unat sz \<in> {3..5} \<and> length bs = 2 ^ unat sz)"

lemma answer_intros:
  "answer (ack_msg src)" "unat sz \<in> {3..5} \<Longrightarrow> answer (ackdata_msg src sz (mem_read mm a (2 ^ unat sz)))"
  unfolding answer_def by (blast, intro disjI2 exI conjI) (rule refl, simp_all)

abbreviation wire_msg :: "tl_msg_t \<Rightarrow> bool" where
  "wire_msg m \<equiv> askable m \<or> answer m"

lemma answer_header:
  assumes "answer m"
  shows "unat (tl_chan (tl_header m)) = 4" "tlmsg_get_total_size m \<le> 40" "req_ok (Some m)" "polite m" "is_reply m"
    "\<not> is_put m" "\<not> is_get m"
proof -
  have "unat (tl_chan (tl_header m)) = 4 \<and> tlmsg_get_total_size m \<le> 40 \<and> req_ok (Some m) \<and> 8 \<le> length m \<and> (is_ackdata m \<longrightarrow> 16 \<le> length m)"
    using assms
  proof (unfold answer_def, elim disjE exE conjE)
    fix src assume m: "m = ack_msg src"
    show ?thesis
      using response_ok(1) [of src] unfolding m
      by (simp add: ack_msg_def tlmsg_get_total_size_def tlmsg_get_header_size_def tlmsg_get_data_size_def tlmsg_get_chan_def
          tlmsg_get_opcode_def header_log_def data_log_def int_of_shl_log zero_tl_header_def is_ackdata_def)
  next
    fix src sz bs assume m: "m = ackdata_msg src sz bs" "unat sz \<in> {3..5}" "length bs = 2 ^ unat sz"
    then have sz: "unat sz = 3 \<or> unat sz = 4 \<or> unat sz = 5" by auto
    then have u: "uint sz = 3 \<or> uint sz = 4 \<or> uint sz = 5" by (metis of_nat_numeral uint_nat)
    have "8 \<le> length bs" using m(3) sz by auto
    then show ?thesis
      using response_ok(2) [of sz bs src] m(2,3) u unfolding m(1)
      by (auto simp: ackdata_msg_def tlmsg_get_total_size_def tlmsg_get_header_size_def tlmsg_get_data_size_def tlmsg_get_chan_def
          tlmsg_get_opcode_def tlmsg_get_size_def header_log_def data_log_def int_of_shl_log zero_tl_header_def is_ackdata_def)
  qed
  then show "unat (tl_chan (tl_header m)) = 4" "tlmsg_get_total_size m \<le> 40" "req_ok (Some m)" "polite m" "is_reply m"
    "\<not> is_put m" "\<not> is_get m"
    by (auto simp: polite_def servable_def is_put_def is_get_def is_reply_def tlmsg_get_chan_def)
qed

lemma wire_msg_ok:
  assumes "wire_msg m"
  shows "req_ok (Some m)" "polite m" "tlmsg_get_total_size m \<le> 40" "is_reply m \<longleftrightarrow> \<not> is_request m"
  using assms answer_header [of m] by (auto simp: askable_def is_request_def is_reply_def)

text \<open>What the server makes of them.\<close>

lemma serve_wire:
  assumes "wire_msg m"
  shows "\<forall>r \<in> set (snd (tl_serve m mm)). answer r" "\<not> is_request m \<Longrightarrow> tl_serve m mm = (mm, [])"
proof -
  show "\<forall>r \<in> set (snd (tl_serve m mm)). answer r"
    using assms answer_header(6,7) [of m] answer_intros by (auto simp: tl_serve_def askable_def)
  show "\<not> is_request m \<Longrightarrow> tl_serve m mm = (mm, [])"
    using assms answer_header(6,7) [of m] by (auto simp: tl_serve_def askable_def)
qed

lemma serve_all_wire:
  assumes "\<forall>m \<in> set ms. wire_msg m"
  shows "\<forall>r \<in> set (snd (serve_all ms mm)). answer r" "serve_all ms mm = serve_all (filter is_request ms) mm"
proof -
  show "\<forall>r \<in> set (snd (serve_all ms mm)). answer r"
    using assms
  proof (induction ms arbitrary: mm)
    case (Cons m ms)
    have "snd (serve_all (m # ms) mm) = snd (tl_serve m mm) @ snd (serve_all ms (fst (tl_serve m mm)))"
      by (simp split: prod.splits)
    then show ?case using serve_wire(1) [of m mm] Cons.IH [of "fst (tl_serve m mm)"] Cons.prems by auto
  qed simp
  show "serve_all ms mm = serve_all (filter is_request ms) mm"
    using assms
  proof (induction ms arbitrary: mm)
    case (Cons m ms)
    have IH: "serve_all ms x = serve_all (filter is_request ms) x" for x using Cons by simp
    have "wire_msg m" using Cons.prems by simp
    show ?case
    proof (cases "is_request m")
      case True
      then show ?thesis by (simp add: IH)
    next
      case False
      then show ?thesis using serve_wire(2) [OF \<open>wire_msg m\<close>, of mm] IH [of mm] by simp
    qed
  qed simp
qed

text \<open>A packet from a peer that sends only such messages is one the endpoint can take.\<close>

lemma chan_rx_fine:
  assumes ch: "chan (frame_of n0 sent) A (p # ps) fl" and w: "\<forall>m \<in> set (msgs sent). wire_msg m"
  shows "rx_fine (int (length p), p @ rest)"
proof -
  obtain f where f: "carries p f" "is_ackonly_frame f \<or> (\<exists>i. frame_of n0 sent i f)" using ch by auto
  have dec: "packet_to_tloe_frame (p @ rest) (int (length p)) (zero_frame MAX_SIZE_FLIT) = Inr (padded f)"
    by (rule carries_decode(2) [OF f(1)])
  from f(2) show ?thesis
  proof
    assume "is_ackonly_frame f"
    then have "is_ackonly_frame (padded f)" by (simp add: is_ackonly_frame_def padded_def)
    then show ?thesis using dec by (auto simp: rx_fine_def)
  next
    assume "\<exists>i. frame_of n0 sent i f"
    then obtain i where d: "frame_of n0 sent i f" by blast
    have len: "6 \<le> length (flits f)" "length (flits f) \<le> MAX_SIZE_FLIT" "int (length p) = 8 + 8 * int (length (flits f))"
      using f(1) carries_decode(1) [OF f(1)] by (simp_all add: carries_def)
    note pad = frame_of_padded [OF d len(1,2)]
    let ?msk = "if fr_msg (sent ! i) = None then 0 else 1 :: u64"
    have "\<exists>m. tloe_get_tlmsg (padded f) j = Inr m \<and> polite m" if "j \<in> set (mask_bits ?msk)" for j
    proof (cases "fr_msg (sent ! i)")
      case None
      then show ?thesis using that by simp
    next
      case (Some m)
      have "sent ! i \<in> set sent" using d by (simp add: frame_of_def)
      then have "m \<in> set (msgs sent)" using Some by (auto simp: msgs_def intro!: bexI [of _ "sent ! i"])
      then have "polite m" using w wire_msg_ok(2) by blast
      moreover have "j = 0" using that Some by simp
      ultimately show ?thesis using pad(4) [OF Some] by blast
    qed
    then show ?thesis using dec pad(1,3) len(3) by (auto simp: rx_fine_def)
  qed
qed

text \<open>The users' requests are of this kind.\<close>

lemma askable_user:
  assumes "unat addr mod MEM_SIZE + 8 \<le> MEM_SIZE"
  shows "askable (read_msg addr)" "askable (write_msg addr val)"
proof -
  have s: "servable (read_msg addr)" "servable (write_msg addr val)"
    unfolding read_msg_def write_msg_def using assms
    by (rule_tac get_msg_serve(2), simp) (rule put_msg_serve(4), simp_all add: assms)
  have h: "nat (tlmsg_get_chan (read_msg addr)) = 1" "unat (tl_size (tl_header (read_msg addr))) = 3"
    "nat (tlmsg_get_chan (write_msg addr val)) = 1" "\<not> is_get (write_msg addr val)"
    by (simp_all add: read_msg_def write_msg_def get_msg_def put_msg_def tlmsg_get_chan_def zero_tl_header_def is_get_def)
  show "askable (read_msg addr)" "askable (write_msg addr val)"
    using s h user_msgs(1,3) [of addr] user_msgs(2,4) [of addr val]
    by (simp_all add: askable_def is_request_def polite_def)
qed

section \<open>The system\<close>

record net =
  lthread :: endpoint_thread
  rthread :: endpoint_thread
  net_l2r :: "byte list list"
  net_r2l :: "byte list list"
  lasked :: "tl_msg_t list"
  rasked :: "tl_msg_t list"
  lserved :: "tl_msg_t list"
  rserved :: "tl_msg_t list"
  lframes :: nat
  rframes :: nat

definition net_swap :: "net \<Rightarrow> net" where
  "net_swap N = \<lparr>lthread = rthread N, rthread = lthread N, net_l2r = net_r2l N, net_r2l = net_l2r N, lasked = rasked N,
     rasked = lasked N, lserved = rserved N, rserved = lserved N, lframes = rframes N, rframes = lframes N\<rparr>"

lemma net_swap_simps [simp]:
  "lthread (net_swap N) = rthread N" "rthread (net_swap N) = lthread N" "net_l2r (net_swap N) = net_r2l N"
  "net_r2l (net_swap N) = net_l2r N" "lasked (net_swap N) = rasked N" "rasked (net_swap N) = lasked N"
  "lserved (net_swap N) = rserved N" "rserved (net_swap N) = lserved N" "lframes (net_swap N) = rframes N"
  "rframes (net_swap N) = lframes N" "net_swap (net_swap N) = N"
  by (simp_all add: net_swap_def)

text \<open>
  The steps of the left program, of its user and of the network it sends into; those of the right one are the same,
  seen from the other side. A pass of the thread finds the oldest packet of the channel, or nothing; the steps in which
  the thread tests its flags receive nothing.
\<close>

inductive net_step :: "net \<Rightarrow> net \<Rightarrow> bool" where
  Test: "\<lbrakk> pc (lthread N) \<noteq> Body; tloe_endpoint_step env (lthread N) = Inr t' \<rbrakk> \<Longrightarrow> net_step N (N\<lparr>lthread := t'\<rparr>)"
| Pass: "\<lbrakk> pc (lthread N) = Body; tloe_endpoint_step env (lthread N) = Inr t'; env_ok (it_tx env); rbe_alloc (it_tx env);
      it_alloc env; rx_from (net_r2l N) (it_rx env) \<rbrakk> \<Longrightarrow>
    net_step N (N\<lparr>lthread := t', net_l2r := net_l2r N @ new_packets (ep (lthread N)) (ep t'), net_r2l := tl (net_r2l N),
      lserved := lserved N @ served_by env (lthread N),
      lframes := lframes N + (if next_tx_seq (ep t') = next_tx_seq (ep (lthread N)) then 0 else 1)\<rparr>)"
| Ask: "\<lbrakk> enqueue_message (ep (lthread N)) m = Inr (r, e'); askable m \<rbrakk> \<Longrightarrow>
    net_step N (N\<lparr>lthread := (lthread N)\<lparr>ep := e'\<rparr>, lasked := lasked N @ [m]\<rparr>)"
| Drop: "net_l2r N = ps @ p # qs \<Longrightarrow> net_step N (N\<lparr>net_l2r := ps @ qs\<rparr>)"
| Peer: "net_step (net_swap N) N' \<Longrightarrow> net_step N (net_swap N')"

section \<open>The invariant\<close>

text \<open>How the system and the link of the endpoints correspond.\<close>

definition net_link :: "net \<Rightarrow> link \<Rightarrow> bool" where
  "net_link N s \<longleftrightarrow> side_ep (left_side s) = ep (lthread N) \<and> side_ep (right_side s) = ep (rthread N) \<and>
     l2r s = net_l2r N \<and> r2l s = net_r2l N \<and> side_served (left_side s) = lserved N \<and> side_served (right_side s) = rserved N \<and>
     length (side_sent (left_side s)) = lframes N \<and> length (side_sent (right_side s)) = rframes N"

text \<open>
  A program between its user and the link: every request of the user is sent, in hand or queued, in order; so is every
  answer to a message served; and the memory is what the messages served made of the initial one.
\<close>

definition node_ok :: "(nat \<Rightarrow> byte) \<Rightarrow> tl_msg_t list \<Rightarrow> endpoint_thread \<Rightarrow> side \<Rightarrow> bool" where
  "node_ok mm asked t X \<longleftrightarrow> thread_inv t \<and> mem t = Some (fst (serve_all (side_served X) mm)) \<and>
     (\<forall>m \<in> set asked. askable m) \<and> (\<forall>m \<in> set (msgs (side_sent X) @ opt_list (request_tlmsg t)). wire_msg m) \<and>
     (\<forall>m \<in> set (queue_list (response_buffer (ep t))). answer m) \<and>
     filter is_request (msgs (side_sent X) @ opt_list (request_tlmsg t)) @ queue_list (message_buffer (ep t)) = asked \<and>
     filter is_reply (msgs (side_sent X) @ opt_list (request_tlmsg t)) @ queue_list (response_buffer (ep t)) =
       snd (serve_all (side_served X) mm)"

definition net_inv :: "(nat \<Rightarrow> byte) \<Rightarrow> (nat \<Rightarrow> byte) \<Rightarrow> (nat \<Rightarrow> nat) \<Rightarrow> (nat \<Rightarrow> nat) \<Rightarrow> nat \<Rightarrow> nat \<Rightarrow> net \<Rightarrow> link \<Rightarrow> bool" where
  "net_inv ml mr c0 d0 n0 m0 N s \<longleftrightarrow> (\<exists>g h. link_flow 9999 c0 d0 n0 m0 s g h) \<and> net_link N s \<and>
     node_ok ml (lasked N) (lthread N) (left_side s) \<and> node_ok mr (rasked N) (rthread N) (right_side s)"

lemma net_inv_swap: "net_inv ml mr c0 d0 n0 m0 N s \<longleftrightarrow> net_inv mr ml d0 c0 m0 n0 (net_swap N) (swap s)"
  using link_flow_swap by (fastforce simp: net_inv_def net_link_def)

definition net_few :: "net \<Rightarrow> bool" where
  "net_few N \<longleftrightarrow> lframes N < 2 ^ 20 - 1 \<and> rframes N < 2 ^ 20 - 1"

lemma net_few_swap [simp]: "net_few (net_swap N) = net_few N"
  by (auto simp: net_few_def)

section \<open>The steps\<close>

text \<open>\<open>TX\<close> only appends to what the fabric was given.\<close>

lemma TX_extends:
  assumes "ep_inv e" "env_ok env" "rbe_alloc env" "req_ok req" "TX env e req = Inr (ret, e')"
  shows "\<exists>ps. fabric_sent e' = fabric_sent e @ ps" "ret = None \<or> ret = req"
    "next_tx_seq e' = next_tx_seq e \<longrightarrow> ret = req"
proof -
  have "(\<exists>ps. fabric_sent e' = fabric_sent e @ ps) \<and> (ret = None \<or> ret = req) \<and> (next_tx_seq e' = next_tx_seq e \<longrightarrow> ret = req)"
  proof (cases "tx_plan e req")
    case None
    from TX_idle [OF assms(1,2,4) None] assms(5) show ?thesis by auto
  next
    case (Some mo)
    obtain n where "next_tx_seq e = seq_of n" using assms(1) by (auto simp: ep_inv_def tx_window_def)
    then have "tloe_seqnum_next (next_tx_seq e) \<noteq> next_tx_seq e" using next_tx_seq_moves by simp
    with TX_sends [OF assms(1-4) Some] assms(5) show ?thesis by auto
  qed
  then show "\<exists>ps. fabric_sent e' = fabric_sent e @ ps" "ret = None \<or> ret = req"
    "next_tx_seq e' = next_tx_seq e \<longrightarrow> ret = req" by blast+
qed

lemma msgs_new_frame:
  assumes "ret = None \<or> ret = req" "next_tx_seq e' = next_tx_seq e \<longrightarrow> ret = req"
  shows "msgs (new_frame req ret e e') @ opt_list ret = opt_list req"
  using assms by (cases req) (auto simp: new_frame_def)

lemma chosen_keeps_order:
  assumes n: "node_ok mm asked t X" and ch: "chosen (request_tlmsg t) (ep t) req e"
  shows "\<forall>m \<in> set (msgs (side_sent X) @ opt_list req). wire_msg m" "\<forall>m \<in> set (queue_list (response_buffer e)). answer m"
    "filter is_request (msgs (side_sent X) @ opt_list req) @ queue_list (message_buffer e) = asked"
    "filter is_reply (msgs (side_sent X) @ opt_list req) @ queue_list (response_buffer e) = snd (serve_all (side_served X) mm)"
proof -
  let ?t = "ep t"
  have w: "\<forall>m \<in> set asked. askable m" "\<forall>m \<in> set (queue_list (response_buffer ?t)). answer m"
    and eq: "filter is_request (msgs (side_sent X) @ opt_list (request_tlmsg t)) @ queue_list (message_buffer ?t) = asked"
      "filter is_reply (msgs (side_sent X) @ opt_list (request_tlmsg t)) @ queue_list (response_buffer ?t) = snd (serve_all (side_served X) mm)"
    and s: "\<forall>m \<in> set (msgs (side_sent X) @ opt_list (request_tlmsg t)). wire_msg m"
    using n by (simp_all add: node_ok_def)
  have "(\<forall>m \<in> set (msgs (side_sent X) @ opt_list req). wire_msg m) \<and> (\<forall>m \<in> set (queue_list (response_buffer e)). answer m) \<and>
    filter is_request (msgs (side_sent X) @ opt_list req) @ queue_list (message_buffer e) = asked \<and>
    filter is_reply (msgs (side_sent X) @ opt_list req) @ queue_list (response_buffer e) = snd (serve_all (side_served X) mm)"
  proof (cases "request_tlmsg t")
    case (Some m)
    then show ?thesis using ch w eq s by (simp add: chosen_def)
  next
    case None
    then consider (user) "queue_list (message_buffer ?t) = opt_list req @ queue_list (message_buffer e)" "response_buffer e = response_buffer ?t"
      | (server) "queue_list (response_buffer ?t) = opt_list req @ queue_list (response_buffer e)" "message_buffer e = message_buffer ?t"
      using ch by (auto simp: chosen_def)
    then show ?thesis
    proof cases
      case user
      have "\<forall>m \<in> set (opt_list req). askable m" using w(1) eq(1) user(1) by auto
      then have "filter is_request (opt_list req) = opt_list req" "filter is_reply (opt_list req) = []"
        by (cases req; simp add: askable_def is_request_def is_reply_def)+
      with \<open>\<forall>m \<in> set (opt_list req). askable m\<close> show ?thesis using None user w(2) eq s by auto
    next
      case server
      have a: "\<forall>m \<in> set (opt_list req). answer m" using w(2) server(1) by auto
      then have "filter is_reply (opt_list req) = opt_list req" "filter is_request (opt_list req) = []"
        using wire_msg_ok(4) answer_header(5) by (cases req; auto)+
      with a show ?thesis using None server w(2) eq s by auto
    qed
  qed
  then show "\<forall>m \<in> set (msgs (side_sent X) @ opt_list req). wire_msg m" "\<forall>m \<in> set (queue_list (response_buffer e)). answer m"
    "filter is_request (msgs (side_sent X) @ opt_list req) @ queue_list (message_buffer e) = asked"
    "filter is_reply (msgs (side_sent X) @ opt_list req) @ queue_list (response_buffer e) = snd (serve_all (side_served X) mm)"
    by blast+
qed

lemma node_pass:
  assumes n: "node_ok mm asked t X" and ch: "chosen (request_tlmsg t) (ep t) req e"
    and ret: "ret = None \<or> ret = req" "next_tx_seq e1 = next_tx_seq e \<longrightarrow> ret = req" "request_tlmsg t' = ret"
    and e2: "message_buffer e2 = message_buffer e" "response_buffer e2 = response_buffer e" "serves t e2 t'"
    and t': "thread_inv t'" and w: "\<forall>m \<in> set (handled e2). wire_msg m"
    and X': "side_sent X' = side_sent X @ new_frame req ret e e1" "side_served X' = side_served X @ handled e2"
  shows "node_ok mm asked t' X'"
proof -
  note k = chosen_keeps_order [OF n ch]
  have m: "mem t = Some (fst (serve_all (side_served X) mm))" using n by (simp add: node_ok_def)
  have all: "msgs (side_sent X') @ opt_list (request_tlmsg t') = msgs (side_sent X) @ opt_list req"
    using msgs_new_frame [OF ret(1,2)] X'(1) ret(3) by simp
  have r: "queue_list (response_buffer (ep t')) = queue_list (response_buffer e) @ snd (serve_all (handled e2) (fst (serve_all (side_served X) mm)))"
    and mb: "message_buffer (ep t') = message_buffer e"
    and m': "mem t' = Some (fst (serve_all (handled e2) (fst (serve_all (side_served X) mm))))"
    using e2 m by (simp_all add: serves_def)
  have "\<forall>x \<in> set (queue_list (response_buffer (ep t'))). answer x" using k(2) serve_all_wire(1) [OF w] r by auto
  moreover have "\<forall>m \<in> set asked. askable m" using n by (simp add: node_ok_def)
  ultimately show ?thesis
    unfolding node_ok_def all X'(2) serve_all_append using t' k(1,3) k(4) [symmetric] r mb m' by simp
qed

text \<open>A pass of the left thread in the link, with what it adds to the histories.\<close>

lemma flow_rx:
  assumes f: "link_flow b c0 d0 n0 m0 s g h" and pos: "0 < n0" "0 < m0" and few: "length (side_sent (left_side s)) < 2 ^ 20 - 1"
    and rx: "rx_from (r2l s) rx" "RX True rx (side_ep (left_side s)) = Inr e'"
  shows "\<exists>s' g' h'. link_flow b c0 d0 n0 m0 s' g' h' \<and> side_ep (left_side s') = e' \<and> side_sent (left_side s') = side_sent (left_side s) \<and>
    side_served (left_side s') = side_served (left_side s) \<and> right_side s' = right_side s \<and> l2r s' = l2r s \<and> r2l s' = tl (r2l s) \<and>
    fabric_sent e' = fabric_sent (side_ep (left_side s))"
proof (cases "r2l s")
  case Nil
  have "fabric_up (side_ep (left_side s))" using link_flow_facts(5) [OF f] by (simp add: ep_inv_def)
  then have "e' = side_ep (left_side s)"
    using rx Nil by (cases rx) (simp add: rx_from_def RX_def tloe_fabric_recv_up)
  then show ?thesis using f Nil by (intro exI [of _ s] exI [of _ g] exI [of _ h]) simp
next
  case (Cons p ps)
  then obtain rest where r: "RX True (int (length p), p @ rest) (side_ep (left_side s)) = Inr e'"
    using rx by (auto simp: rx_from_def)
  let ?e = "side_ep (left_side s)"
  let ?s = "s\<lparr>left_side := (left_side s)\<lparr>side_ep := e', side_got := side_got (left_side s) @ new_msgs ?e e'\<rparr>,
    l2r := l2r s @ new_packets ?e e', r2l := ps\<rparr>"
  from flow_receive [OF f pos few Cons r] obtain g' h' where "link_flow b c0 d0 n0 m0 ?s g' h'" "fabric_sent e' = fabric_sent ?e" by blast
  then show ?thesis using Cons by (intro exI [of _ ?s] exI [of _ g'] exI [of _ h']) (simp add: new_packets_def)
qed

lemma link_pass:
  assumes f: "link_flow b c0 d0 n0 m0 s g h" and pos: "0 < n0" "0 < m0"
    and few: "length (side_sent (left_side s) @ new_frame req ret e e1) < 2 ^ 20 - 1"
    and l1: "local_work [] (side_ep (left_side s)) e"
    and tx: "TX env e req = Inr (ret, e1)" "env_ok env" "rbe_alloc env" "req_ok req" "\<forall>m. req = Some m \<longrightarrow> tlmsg_get_total_size m \<le> 40"
    and rx: "rx_from (r2l s) rx" "RX True rx e1 = Inr e2" and l2: "local_work ms e2 e'"
  shows "\<exists>s' g' h'. link_flow b c0 d0 n0 m0 s' g' h' \<and> side_ep (left_side s') = e' \<and>
    side_sent (left_side s') = side_sent (left_side s) @ new_frame req ret e e1 \<and>
    side_served (left_side s') = side_served (left_side s) @ ms \<and> right_side s' = right_side s \<and>
    l2r s' = l2r s @ new_packets (side_ep (left_side s)) e' \<and> r2l s' = tl (r2l s) \<and>
    set ms \<subseteq> set (msgs (side_sent (right_side s))) \<and>
    (next_tx_seq e' = next_tx_seq (side_ep (left_side s)) \<longleftrightarrow> new_frame req ret e e1 = [])"
proof -
  let ?L = "left_side s"
  let ?s1 = "s\<lparr>left_side := ?L\<lparr>side_ep := e, side_served := side_served ?L @ []\<rparr>\<rparr>"
  have f1: "link_flow b c0 d0 n0 m0 ?s1 g h" by (rule flow_local [OF f l1])
  have inv: "ep_inv e" using l1 by (simp add: local_work_def)
  have tx1: "TX env (side_ep (left_side ?s1)) req = Inr (ret, e1)" using tx(1) by simp
  let ?s2 = "?s1\<lparr>left_side := (left_side ?s1)\<lparr>side_ep := e1, side_sent := side_sent (left_side ?s1) @ new_frame req ret (side_ep (left_side ?s1)) e1\<rparr>,
    l2r := l2r ?s1 @ new_packets (side_ep (left_side ?s1)) e1\<rparr>"
  obtain g2 where f2: "link_flow b c0 d0 n0 m0 ?s2 g2 h" using flow_transmit [OF f1 pos tx1 tx(2-5)] by blast
  have few2: "length (side_sent (left_side ?s2)) < 2 ^ 20 - 1" using few by simp
  have rx2: "rx_from (r2l ?s2) rx" "RX True rx (side_ep (left_side ?s2)) = Inr e2" using rx by simp_all
  from flow_rx [OF f2 pos few2 rx2] obtain s3 g3 h3 where f3: "link_flow b c0 d0 n0 m0 s3 g3 h3"
    and s3: "side_ep (left_side s3) = e2" "side_sent (left_side s3) = side_sent (left_side ?s2)"
      "side_served (left_side s3) = side_served (left_side ?s2)" "right_side s3 = right_side s"
      "l2r s3 = l2r ?s2" "r2l s3 = tl (r2l s)" "fabric_sent e2 = fabric_sent e1" by auto
  have l2': "local_work ms (side_ep (left_side s3)) e'" using l2 s3(1) by simp
  let ?s4 = "s3\<lparr>left_side := (left_side s3)\<lparr>side_ep := e', side_served := side_served (left_side s3) @ ms\<rparr>\<rparr>"
  have f4: "link_flow b c0 d0 n0 m0 ?s4 g3 h3" by (rule flow_local [OF f3 l2'])
  obtain ps where ps: "fabric_sent e1 = fabric_sent e @ ps" using TX_extends(1) [OF inv tx(2-4,1)] by blast
  have fs: "fabric_sent e = fabric_sent (side_ep ?L)" "fabric_sent e' = fabric_sent e2"
    and nt: "next_tx_seq e = next_tx_seq (side_ep ?L)" "next_tx_seq e' = next_tx_seq e2"
    using l1 l2 by (simp_all add: local_work_def protocol_part_def)
  have "l2r ?s4 = l2r s @ new_packets (side_ep ?L) e'" using ps fs s3(5,7) by (simp add: new_packets_def)
  moreover have "next_tx_seq e2 = next_tx_seq e1" using link_flow_facts(4) [OF f2] link_flow_facts(4) [OF f3] s3(1,2) by simp
  then have "next_tx_seq e' = next_tx_seq (side_ep ?L) \<longleftrightarrow> new_frame req ret e e1 = []" using nt by (simp add: new_frame_def)
  moreover have "side_got (left_side s3) = side_served (left_side s3) @ ms @ queue_list (tl_msg_buffer e')"
    using f3 l2 s3(1) by (simp add: link_flow_def ledger_def local_work_def)
  then have "set ms \<subseteq> set (msgs (side_sent (right_side s)))"
    using set_mono_prefix [OF link_flow_facts(2) [OF f3]] s3(4) by auto
  ultimately show ?thesis using f4 s3 by (intro exI [of _ ?s4] exI [of _ g3] exI [of _ h3]) simp
qed

abbreviation granted :: "(nat \<Rightarrow> nat) \<Rightarrow> bool" where
  "granted c0 \<equiv> \<forall>k \<in> channels. c0 k \<le> 1024"

lemma net_rx_fine:
  assumes inv: "net_inv ml mr c0 d0 n0 m0 N s" and rx: "rx_from (net_r2l N) rx"
  shows "rx_fine rx"
proof (cases "net_r2l N")
  case Nil
  then show ?thesis using rx by (simp add: rx_from_def rx_fine_def)
next
  case (Cons p ps)
  then obtain rest where r: "rx = (int (length p), p @ rest)" using rx by (auto simp: rx_from_def)
  obtain g h where "link_sim n0 m0 s g h" "r2l s = p # ps" using inv Cons by (auto simp: net_inv_def link_flow_def net_link_def)
  then have "chan (frame_of m0 (side_sent (right_side s))) (acks n0 (g_rcvd g)) (p # ps) (g_flight h)"
    by (auto simp: link_rel_def half_def)
  moreover have "\<forall>m \<in> set (msgs (side_sent (right_side s))). wire_msg m" using inv by (simp add: net_inv_def node_ok_def)
  ultimately show ?thesis unfolding r by (rule chan_rx_fine)
qed

text \<open>Flow control keeps room in the TileLink buffer, so that a pass can only stop at a full acknowledgement buffer.\<close>

lemma net_pass_returns:
  assumes inv: "net_inv ml mr c0 d0 n0 m0 N s" and gr: "granted d0" and pc: "pc (lthread N) = Body"
    and env: "env_ok (it_tx env)" "rbe_alloc (it_tx env)" and rx: "rx_from (net_r2l N) (it_rx env)"
    and room: "\<not> is_queue_full (ack_buffer (ep (lthread N)))"
  shows "\<exists>t'. tloe_endpoint_step env (lthread N) = Inr t'"
proof -
  obtain g h where f: "link_flow 9999 c0 d0 n0 m0 s g h" using inv by (auto simp: net_inv_def)
  have ti: "thread_inv (lthread N)" and e: "side_ep (left_side s) = ep (lthread N)"
    using inv by (simp_all add: net_inv_def net_link_def node_ok_def)
  have "link_flow 9999 d0 c0 m0 n0 (swap s) h g" using f link_flow_swap by blast
  from flow_bounds(2,3) [OF this gr] have "q_len (tl_msg_buffer (ep (lthread N))) + 64 \<le> q_cap (tl_msg_buffer (ep (lthread N)))"
    using e by simp
  then show ?thesis using body_parts [OF ti env net_rx_fine [OF inv rx]] room pc by (simp add: tloe_endpoint_step_def)
qed

lemma net_pass:
  assumes inv: "net_inv ml mr c0 d0 n0 m0 N s" and pos: "0 < n0" "0 < m0"
    and st: "pc (lthread N) = Body" "tloe_endpoint_step env (lthread N) = Inr t'"
    and env: "env_ok (it_tx env)" "rbe_alloc (it_tx env)" "it_alloc env" and rx: "rx_from (net_r2l N) (it_rx env)"
    and few: "lframes N + (if next_tx_seq (ep t') = next_tx_seq (ep (lthread N)) then 0 else 1) < 2 ^ 20 - 1"
  shows "\<exists>s'. net_inv ml mr c0 d0 n0 m0
    (N\<lparr>lthread := t', net_l2r := net_l2r N @ new_packets (ep (lthread N)) (ep t'), net_r2l := tl (net_r2l N),
      lserved := lserved N @ served_by env (lthread N),
      lframes := lframes N + (if next_tx_seq (ep t') = next_tx_seq (ep (lthread N)) then 0 else 1)\<rparr>) s'"
proof -
  let ?t = "lthread N" and ?L = "left_side s"
  obtain g h where f: "link_flow 9999 c0 d0 n0 m0 s g h" using inv by (auto simp: net_inv_def)
  have nl: "net_link N s" and nd: "node_ok ml (lasked N) ?t ?L" "node_ok mr (rasked N) (rthread N) (right_side s)"
    using inv by (simp_all add: net_inv_def)
  have eL: "side_ep ?L = ep ?t" using nl by (simp add: net_link_def)
  have body: "tloe_endpoint_body env ?t = Inr t'" using st by (simp add: tloe_endpoint_step_def)
  have ti: "thread_inv ?t" using nd(1) by (simp add: node_ok_def)
  have "pass_parts env ?t t'" using body_parts [OF ti env(1,2) net_rx_fine [OF inv rx]] body by blast
  then obtain req ret e e1 e2 where p: "thread_inv t'" "local_work [] (ep ?t) e" "chosen (request_tlmsg ?t) (ep ?t) req e" "req_ok req"
    "TX (it_tx env) e req = Inr (ret, e1)" "request_tlmsg t' = ret" "message_buffer e2 = message_buffer e"
    "response_buffer e2 = response_buffer e" "RX True (it_rx env) e1 = Inr e2" "served_by env ?t = handled e2" "serves ?t e2 t'"
    "next_tx_seq e2 = next_tx_seq e1" using env(3) by (auto simp: pass_parts_def)
  have inve: "ep_inv e" using p(2) by (simp add: local_work_def)
  note ext = TX_extends(2,3) [OF inve env(1,2) p(4,5)]
  have small: "\<forall>m. req = Some m \<longrightarrow> tlmsg_get_total_size m \<le> 40"
    using chosen_keeps_order(1) [OF nd(1) p(3)] wire_msg_ok(3) by auto
  have l: "local_work [] (side_ep ?L) e" "local_work (handled e2) e2 (ep t')" and rx': "rx_from (r2l s) (it_rx env)"
    using p(2,11) eL rx nl by (simp_all add: serves_def net_link_def)
  have fewf: "length (side_sent ?L @ new_frame req ret e e1) < 2 ^ 20 - 1"
  proof -
    have "next_tx_seq e2 = next_tx_seq (ep t')" "next_tx_seq e = next_tx_seq (ep ?t)"
      using l p(2) by (simp_all add: local_work_def protocol_part_def)
    then have "length (new_frame req ret e e1) = (if next_tx_seq (ep t') = next_tx_seq (ep ?t) then 0 else 1)"
      using p(12) by (simp add: new_frame_def)
    then show ?thesis using few nl by (simp add: net_link_def)
  qed
  from link_pass [OF f pos fewf l(1) p(5) env(1,2) p(4) small rx' p(9) l(2)] obtain s' g' h' where
    s': "link_flow 9999 c0 d0 n0 m0 s' g' h'" "side_ep (left_side s') = ep t'"
      "side_sent (left_side s') = side_sent ?L @ new_frame req ret e e1" "side_served (left_side s') = side_served ?L @ handled e2"
      "right_side s' = right_side s" "l2r s' = l2r s @ new_packets (side_ep ?L) (ep t')" "r2l s' = tl (r2l s)"
      "set (handled e2) \<subseteq> set (msgs (side_sent (right_side s)))"
      "next_tx_seq (ep t') = next_tx_seq (side_ep ?L) \<longleftrightarrow> new_frame req ret e e1 = []" by blast
  have w: "\<forall>m \<in> set (handled e2). wire_msg m" using s'(8) nd(2) by (auto simp: node_ok_def)
  have "node_ok ml (lasked N) t' (left_side s')"
    by (rule node_pass [OF nd(1) p(3) ext p(6-8,11,1) w s'(3,4)])
  moreover have "length (new_frame req ret e e1) = (if next_tx_seq (ep t') = next_tx_seq (ep ?t) then 0 else 1)"
    using s'(9) eL by (auto simp: new_frame_def)
  ultimately show ?thesis
    using s' nl nd(2) p(10) eL by (intro exI [of _ s']) (auto simp: net_inv_def net_link_def)
qed

lemma net_ask:
  assumes inv: "net_inv ml mr c0 d0 n0 m0 N s" and ask: "enqueue_message (ep (lthread N)) m = Inr (r, e')" "askable m"
  shows "\<exists>s'. net_inv ml mr c0 d0 n0 m0 (N\<lparr>lthread := (lthread N)\<lparr>ep := e'\<rparr>, lasked := lasked N @ [m]\<rparr>) s'"
proof -
  let ?e = "ep (lthread N)" and ?L = "left_side s"
  obtain g h where f: "link_flow 9999 c0 d0 n0 m0 s g h" using inv by (auto simp: net_inv_def)
  have nl: "net_link N s" and nd: "node_ok ml (lasked N) (lthread N) ?L" "node_ok mr (rasked N) (rthread N) (right_side s)"
    using inv by (simp_all add: net_inv_def)
  have nf: "\<not> is_queue_full (message_buffer ?e)" and e': "e' = ?e\<lparr>message_buffer := snd (enqueue (message_buffer ?e) m)\<rparr>"
    using ask(1) enqueue_message_room [of ?e m] by (auto simp: enqueue_message_def split: if_splits)
  have ok: "ep_msgs_ok ?e" "q_inv (message_buffer ?e)" using nd(1) by (simp_all add: node_ok_def thread_inv_def ep_msgs_ok_def ep_inv_def)
  have q: "queue_list (message_buffer e') = queue_list (message_buffer ?e) @ [m]" "q_inv (message_buffer e')"
    using cq.enq_contents [OF ok(2) nf] cq.enq_inv [OF ok(2)] e' by simp_all
  have inv': "ep_inv e'" using ok(1) q(2) unfolding e' by (simp add: ep_msgs_ok_def ep_inv_def tx_window_def fabric_up_def)
  have ok': "ep_msgs_ok e'" using ok(1) inv' q(1) ask(2) e' by (simp add: ep_msgs_ok_def askable_def)
  have "local_work [] (side_ep ?L) e'"
    using inv' nl e' by (intro local_work_idle) (simp_all add: net_link_def protocol_part_def)
  from flow_local [OF f this] have
    "link_flow 9999 c0 d0 n0 m0 (s\<lparr>left_side := ?L\<lparr>side_ep := e', side_served := side_served ?L @ []\<rparr>\<rparr>) g h" (is "link_flow _ _ _ _ _ ?s _ _") .
  moreover have "node_ok ml (lasked N @ [m]) ((lthread N)\<lparr>ep := e'\<rparr>) (left_side ?s)"
    using nd(1) ok' q(1) ask(2) e' by (auto simp: node_ok_def thread_inv_def)
  moreover have "net_link (N\<lparr>lthread := (lthread N)\<lparr>ep := e'\<rparr>, lasked := lasked N @ [m]\<rparr>) ?s" using nl by (simp add: net_link_def)
  ultimately show ?thesis using nd(2) by (intro exI [of _ ?s]) (auto simp: net_inv_def)
qed

lemma net_test:
  assumes inv: "net_inv ml mr c0 d0 n0 m0 N s" and st: "pc (lthread N) \<noteq> Body" "tloe_endpoint_step env (lthread N) = Inr t'"
  shows "net_inv ml mr c0 d0 n0 m0 (N\<lparr>lthread := t'\<rparr>) s"
proof -
  obtain c where "t' = (lthread N)\<lparr>pc := c\<rparr>"
  proof (cases "pc (lthread N)")
    case Test_Connection
    then have "t' = lthread N \<or> t' = (lthread N)\<lparr>pc := Body\<rparr>" using st(2) by (auto simp: tloe_endpoint_step_def split: if_splits)
    moreover have "lthread N = (lthread N)\<lparr>pc := pc (lthread N)\<rparr>" by simp
    ultimately show thesis using that by blast
  next
    case Exited
    then have "t' = (lthread N)\<lparr>pc := pc (lthread N)\<rparr>" using st(2) by (simp add: tloe_endpoint_step_def)
    then show thesis by (rule that)
  qed (use st that in \<open>auto simp: tloe_endpoint_step_def\<close>)
  then show ?thesis using inv by (simp add: net_inv_def net_link_def node_ok_def thread_inv_def)
qed

lemma net_drop:
  assumes inv: "net_inv ml mr c0 d0 n0 m0 N s" and d: "net_l2r N = ps @ p # qs"
  shows "\<exists>s'. net_inv ml mr c0 d0 n0 m0 (N\<lparr>net_l2r := ps @ qs\<rparr>) s'"
proof -
  obtain g h where f: "link_flow 9999 c0 d0 n0 m0 s g h" using inv by (auto simp: net_inv_def)
  have "l2r s = ps @ p # qs" using inv d by (simp add: net_inv_def net_link_def)
  moreover have "link_sim n0 m0 s g h" using f by (simp add: link_flow_def)
  ultimately obtain g' where "g_rcvd g' = g_rcvd g" "link_sim n0 m0 (s\<lparr>l2r := ps @ qs\<rparr>) g' h"
    using lose_link [OF gbn_safe_inv] by blast
  then have "link_flow 9999 c0 d0 n0 m0 (s\<lparr>l2r := ps @ qs\<rparr>) g' h" using f by (simp add: link_flow_def)
  then show ?thesis using inv by (intro exI [of _ "s\<lparr>l2r := ps @ qs\<rparr>"]) (auto simp: net_inv_def net_link_def)
qed

lemma net_inv_step:
  assumes "net_step N N'" "net_inv ml mr c0 d0 n0 m0 N s" "0 < n0" "0 < m0" "net_few N'"
  shows "\<exists>s'. net_inv ml mr c0 d0 n0 m0 N' s'"
  using assms
proof (induction arbitrary: ml mr c0 d0 n0 m0 s rule: net_step.induct)
  case (Test N env t')
  from net_test [OF Test.prems(1) Test.hyps] show ?case by blast
next
  case (Pass N env t')
  have "lframes N + (if next_tx_seq (ep t') = next_tx_seq (ep (lthread N)) then 0 else 1) < 2 ^ 20 - 1"
    using Pass.prems(4) by (simp add: net_few_def)
  from net_pass [OF Pass.prems(1-3) Pass.hyps this] show ?case .
next
  case (Ask N m r e')
  from net_ask [OF Ask.prems(1) Ask.hyps] show ?case .
next
  case (Drop N ps p qs)
  from net_drop [OF Drop.prems(1) Drop.hyps] show ?case .
next
  case (Peer N N')
  have "net_inv mr ml d0 c0 m0 n0 (net_swap N) (swap s)" using Peer.prems(1) net_inv_swap by blast
  from Peer.IH [OF this Peer.prems(3,2)] Peer.prems(4) obtain s' where "net_inv mr ml d0 c0 m0 n0 N' s'" by auto
  then show ?case using net_inv_swap by blast
qed

lemma net_frames_grow: "net_step N N' \<Longrightarrow> lframes N \<le> lframes N' \<and> rframes N \<le> rframes N'"
  by (induction rule: net_step.induct) auto

lemma net_inv_reachable:
  assumes "net_step\<^sup>*\<^sup>* N N'" "net_inv ml mr c0 d0 n0 m0 N s" "0 < n0" "0 < m0" "net_few N'"
  shows "\<exists>s'. net_inv ml mr c0 d0 n0 m0 N' s'"
proof (rule reachable_bounded [where P = net_few, OF assms(1) _ assms(5)])
  show "net_few x" if "net_step x y" "net_few y" for x y using net_frames_grow [OF that(1)] that(2) by (simp add: net_few_def)
qed (use assms(2-4) net_inv_step in blast)+

section \<open>The start\<close>

text \<open>Two connected programs with nothing asked, queued or in hand.\<close>

definition node_start :: "(nat \<Rightarrow> byte) \<Rightarrow> endpoint_thread \<Rightarrow> bool" where
  "node_start mm t \<longleftrightarrow> thread_inv t \<and> mem t = Some mm \<and> request_tlmsg t = None \<and> queue_list (message_buffer (ep t)) = [] \<and>
     queue_list (response_buffer (ep t)) = [] \<and> q_cap (tl_msg_buffer (ep t)) = 9999 \<and>
     (\<forall>k \<in> channels. unat (credits (fc (ep t)) ! k) \<le> 1024)"

definition net_start :: "(nat \<Rightarrow> byte) \<Rightarrow> (nat \<Rightarrow> byte) \<Rightarrow> net \<Rightarrow> bool" where
  "net_start ml mr N \<longleftrightarrow> flow_start (link_between [] (ep (lthread N)) (ep (rthread N))) \<and>
     node_start ml (lthread N) \<and> node_start mr (rthread N) \<and> net_l2r N = [] \<and> net_r2l N = [] \<and> lasked N = [] \<and> rasked N = [] \<and>
     lserved N = [] \<and> rserved N = [] \<and> lframes N = 0 \<and> rframes N = 0"

lemma net_start_inv:
  assumes "net_start ml mr N"
  obtains c0 d0 n0 m0 where "0 < n0" "0 < m0" "granted c0" "granted d0"
    "net_inv ml mr c0 d0 n0 m0 N (link_between [] (ep (lthread N)) (ep (rthread N)))"
proof -
  let ?s = "link_between [] (ep (lthread N)) (ep (rthread N))"
  have "flow_start ?s" "\<forall>X \<in> {left_side ?s, right_side ?s}. q_cap (tl_msg_buffer (side_ep X)) = 9999"
    using assms by (simp_all add: net_start_def node_start_def link_between_def)
  from flow_start_ledger [OF this] obtain n0 m0 where n: "0 < n0" "0 < m0"
    "link_flow 9999 (credit_of (left_side ?s)) (credit_of (right_side ?s)) n0 m0 ?s gbn_start gbn_start" .
  show thesis
  proof (rule that [OF n(1,2)])
    show "granted (credit_of (left_side ?s))" "granted (credit_of (right_side ?s))"
      using assms by (simp_all add: net_start_def node_start_def link_between_def)
    show "net_inv ml mr (credit_of (left_side ?s)) (credit_of (right_side ?s)) n0 m0 N ?s"
      unfolding net_inv_def using n(3) assms by (auto simp: net_start_def node_start_def net_link_def node_ok_def link_between_def)
  qed
qed

section \<open>Properties\<close>

lemma prefix_filter: "prefix xs ys \<Longrightarrow> filter P (ys @ zs) @ ws = as \<Longrightarrow> prefix (filter P xs) as"
  by (auto simp: prefix_def)


text \<open>A run: the user at the left asks for a write, and the thread makes a pass.\<close>

definition sample_net :: net where
  "sample_net = (let t = waiting_thread\<lparr>pc := Body\<rparr> in \<lparr>lthread = t, rthread = t, net_l2r = [], net_r2l = [], lasked = [], rasked = [],
     lserved = [], rserved = [], lframes = 0, rframes = 0\<rparr>)"

lemma net_start_sample: "net_start (\<lambda>_. 0) (\<lambda>_. 0) sample_net"
proof -
  have ep: "ep (waiting_thread\<lparr>pc := Body\<rparr>) = fresh_endpoint mq_fabric" by (simp add: waiting_thread_def)
  have "link_between [] (fresh_endpoint mq_fabric) (fresh_endpoint mq_fabric) = sample_link"
    by (simp add: link_between_def sample_link_def Let_def)
  then have "flow_start (link_between [] (fresh_endpoint mq_fabric) (fresh_endpoint mq_fabric))" using flow_start_sample(1) by simp
  moreover have "node_start (\<lambda>_. 0) (waiting_thread\<lparr>pc := Body\<rparr>)"
    using ep_inv_fresh_mq fresh_rx(4) [of mq_fabric] flow_start_sample(2,3)
    by (simp add: node_start_def thread_inv_def ep_msgs_ok_def req_ok_def waiting_thread_def sample_link_def Let_def)
      (simp add: fresh_endpoint_def)
  ultimately show ?thesis using ep by (simp add: net_start_def sample_net_def Let_def)
qed

lemma sample_net_run:
  obtains N where "net_step\<^sup>*\<^sup>* sample_net N" "lasked N = [write_msg 4096 7]" "net_few N" "lframes N \<le> 1"
proof -
  let ?t = "waiting_thread\<lparr>pc := Body\<rparr>" and ?m = "write_msg 4096 7"
    and ?env = "\<lparr>it_now = \<lparr>tv_sec = 1, tv_nsec = 2\<rparr>, it_tx = sample_env, it_alloc = True, it_rx = (-1, [])\<rparr>"
  have ep: "ep ?t = fresh_endpoint mq_fabric" by (simp add: waiting_thread_def)
  have ask: "askable ?m" by (rule askable_user) simp
  have "\<not> is_queue_full (message_buffer (fresh_endpoint mq_fabric))" by (simp add: fresh_endpoint_def is_queue_full_create)
  then obtain e' where e': "enqueue_message (ep (lthread sample_net)) ?m = Inr (1, e')" "e' = (fresh_endpoint mq_fabric)\<lparr>message_buffer := message_buffer e'\<rparr>"
    using enqueue_message_room [of "fresh_endpoint mq_fabric" ?m] ep by (simp add: sample_net_def Let_def)
  let ?N = "sample_net\<lparr>lthread := (lthread sample_net)\<lparr>ep := e'\<rparr>, lasked := lasked sample_net @ [?m]\<rparr>"
  have st: "net_step sample_net ?N" using e'(1) ask by (rule net_step.Ask)
  obtain c0 d0 n0 m0 s where inv: "net_inv (\<lambda>_. 0) (\<lambda>_. 0) c0 d0 n0 m0 ?N s"
    using net_start_inv [OF net_start_sample] net_ask [OF _ e'(1) ask] by metis
  then have ti: "thread_inv (lthread ?N)" by (simp add: net_inv_def node_ok_def)
  have b: "ack_buffer e' = ack_buffer (fresh_endpoint mq_fabric)" "tl_msg_buffer e' = tl_msg_buffer (fresh_endpoint mq_fabric)"
    by (subst e'(2), simp)+
  have "ep (lthread ?N) = e'" by (simp add: sample_net_def)
  then have "\<exists>t'. tloe_endpoint_body ?env (lthread ?N) = Inr t'"
    using body_parts [OF ti, of ?env] sample_env_ok fresh_rx [of mq_fabric] b by (simp add: rx_fine_def)
  then obtain t' where t': "tloe_endpoint_step ?env (lthread ?N) = Inr t'"
    by (auto simp: tloe_endpoint_step_def sample_net_def Let_def)
  have "pc (lthread ?N) = Body" "rx_from (net_r2l ?N) (it_rx ?env)" by (simp_all add: sample_net_def Let_def rx_from_def)
  from net_step.Pass [OF this(1) t' _ _ _ this(2)] sample_env_ok have
    "net_step ?N (?N\<lparr>lthread := t', net_l2r := net_l2r ?N @ new_packets (ep (lthread ?N)) (ep t'), net_r2l := tl (net_r2l ?N),
      lserved := lserved ?N @ served_by ?env (lthread ?N),
      lframes := lframes ?N + (if next_tx_seq (ep t') = next_tx_seq (ep (lthread ?N)) then 0 else 1)\<rparr>)" (is "net_step _ ?N'")
    by simp
  with st have "net_step\<^sup>*\<^sup>* sample_net ?N'" by (meson converse_rtranclp_into_rtranclp r_into_rtranclp)
  then show thesis by (rule that) (simp_all add: net_few_def sample_net_def Let_def)
qed


section \<open>After the handshake\<close>

text \<open>The thread of a program when its connection has just been opened.\<close>

definition program :: "(nat \<Rightarrow> byte) \<Rightarrow> tloe_endpoint_t \<Rightarrow> endpoint_thread" where
  "program mm e = \<lparr>pc = Test_Connection, ep = e\<lparr>connection := 1\<rparr>, mem = Some mm, sel_counter = 4, request_tlmsg = None\<rparr>"

definition net_between :: "endpoint_thread \<Rightarrow> endpoint_thread \<Rightarrow> net" where
  "net_between t u = \<lparr>lthread = t, rthread = u, net_l2r = [], net_r2l = [], lasked = [], rasked = [], lserved = [], rserved = [],
     lframes = 0, rframes = 0\<rparr>"

definition idle_user :: "tloe_endpoint_t \<Rightarrow> bool" where
  "idle_user e \<longleftrightarrow> queue_list (message_buffer e) = [] \<and> queue_list (response_buffer e) = [] \<and> q_cap (tl_msg_buffer e) = 9999"

lemma node_start_program:
  assumes "ep_inv e" "idle_user e" "queue_list (tl_msg_buffer e) = []" "\<forall>k \<in> channels. credits (fc e) ! k = 1024"
  shows "node_start mm (program mm e)"
  using assms by (simp add: node_start_def program_def thread_inv_def ep_msgs_ok_def idle_user_def req_ok_def ep_inv_def
      tx_window_def fabric_up_def)

text \<open>
  The handshake leads to the start of the system: two programs that have opened their connection and received the last packets
  of each other form a network from which \<open>remote_memory_linearizable\<close> holds.
\<close>

lemma handshake_starts_net:
  assumes "conn_ready em" "conn_ready es" "handshake_runs evm evs start'" "idle_user em" "idle_user es"
  shows "\<exists>em' es' em'' es''. open_conn_master False evm start em = Inr (1, em') \<and>
    open_conn_slave False evs start' es = Inr (1, es') \<and>
    receive_all [last (fabric_sent em')] es' = Inr es'' \<and> receive_all [last (fabric_sent es')] em' = Inr em'' \<and>
    net_start ml mr (net_between (program ml em'') (program mr es''))"
proof -
  obtain em' es' em'' es'' where h: "open_conn_master False evm start em = Inr (1, em')"
    "open_conn_slave False evs start' es = Inr (1, es')"
    "receive_all [last (fabric_sent em')] es' = Inr es''" "receive_all [last (fabric_sent es')] em' = Inr em''"
    "flow_start (link_between [] em'' es'')" "\<forall>k \<in> channels. credits (fc em'') ! k = 1024 \<and> credits (fc es'') ! k = 1024"
    "user_side em'' = user_side em" "user_side es'' = user_side es" using handshake_link [OF assms(1-3), of start] by blast
  have u: "idle_user em''" "idle_user es''" using assms(4,5) h(7,8) by (simp_all add: idle_user_def user_side_def)
  have e: "ep_inv em''" "ep_inv es''" "queue_list (tl_msg_buffer em'') = []" "queue_list (tl_msg_buffer es'') = []"
    using h(5) by (simp_all add: flow_start_def link_start_def link_between_def)
  have inv: "ep_inv (x\<lparr>connection := 1\<rparr>) = ep_inv x" for x by (simp add: ep_inv_def tx_window_def fabric_up_def)
  have "flow_start (link_between [] (em''\<lparr>connection := 1\<rparr>) (es''\<lparr>connection := 1\<rparr>))"
    using h(5) by (simp add: flow_start_def link_start_def link_between_def inv)
  moreover have "node_start ml (program ml em'')" "node_start mr (program mr es'')"
    using node_start_program e u h(6) by simp_all
  ultimately have "net_start ml mr (net_between (program ml em'') (program mr es''))"
    by (simp add: net_start_def net_between_def) (simp add: program_def)
  then show ?thesis using h(1-4) by blast
qed

end
