(* ===== verification/Printing.thy ===== *)
theory Printing
  imports Endpoint Scan
begin

text \<open>
  What the endpoint program prints: the status report of the \<^verbatim>\<open>s\<close> command (\<^verbatim>\<open>print_endpoint_status\<close>), the credit line
  (\<^verbatim>\<open>print_credit_status\<close>) and the hex dump of \<^verbatim>\<open>tloe_endpoint.h\<close> (\<^verbatim>\<open>print_payload\<close>), as the strings that reach
  standard output.
\<close>

section \<open>Conversions\<close>

text \<open>\<^verbatim>\<open>%d\<close>, \<^verbatim>\<open>%x\<close> and \<^verbatim>\<open>%02X\<close>. \<^verbatim>\<open>%d\<close> reads every 32-bit argument as an \<^verbatim>\<open>int\<close>.\<close>

definition print_d :: "u32 \<Rightarrow> string" where
  "print_d w = (if sint w < 0 then CHR ''-'' # dec_of (nat (- sint w)) else dec_of (nat (sint w)))"

definition print_x :: "u32 \<Rightarrow> string" where
  "print_x w = hex_of (unat w)"

definition upper_hex_char :: "nat \<Rightarrow> char" where
  "upper_hex_char d = (if d < 10 then char_of (48 + d) else char_of (55 + d))"

definition print_02X :: "byte \<Rightarrow> string" where
  "print_02X b = [upper_hex_char (unat b div 16), upper_hex_char (unat b mod 16)]"

section \<open>Status\<close>

definition lines_of :: "string list \<Rightarrow> string" where
  "lines_of ls = concat (map (\<lambda>l. l @ [newline]) ls)"

definition print_endpoint_status :: "tloe_endpoint_t \<Rightarrow> string" where
  "print_endpoint_status e =
     (let rule = replicate 53 CHR ''-'';
          cr = (\<lambda>c. print_d (credits (fc e) ! c));
          flow = (\<lambda>c. ''['' @ print_d (inc_cnt (fc e) ! c) @ ''][''  @ print_d (dec_cnt (fc e) ! c) @ ''][''  @
                      print_d (inc_value (fc e) ! c) @ '']'')
      in lines_of
        [rule, ''Sequence Numbers:'',
         '' TX: '' @ print_d (next_tx_seq e) @ ''(0x'' @ print_x (next_tx_seq e) @ ''), RX: '' @ print_d (next_rx_seq e) @
           ''(0x'' @ print_x (next_rx_seq e) @ '')'',
         [], ''Packet Statistics:'',
         '' ACK: '' @ print_d (ack_cnt e) @ '', Duplicate: '' @ print_d (dup_cnt e) @ '', Out-of-Sequence: '' @ print_d (oos_cnt e),
         '' Dropped: '' @ print_d (drop_cnt e) @ '' (Normal: '' @ print_d (drop_npacket_cnt e) @ '')'',
         '' ACKONLY: '' @ print_d (ackonly_cnt e),
         ''Channel Credits [0|A|B|C|D|E]: '' @ cr 0 @ ''|'' @ cr 1 @ ''|'' @ cr 2 @ ''|'' @ cr 3 @ ''|'' @ cr 4 @ ''|'' @ cr 5,
         '' Flow Control'',
         '' [A]'' @ flow 1 @ ''    [D]'' @ flow 4,
         [], ''Buffer Drops:'',
         '' TL Messages: '' @ print_d (drop_tlmsg_cnt e) @ '', Responses: '' @ print_d (drop_response_cnt e),
         [], ''Response count:'',
         '' ACCESSACK: '' @ print_d (accessack_cnt e) @ '', ACCESSACK_DATA: '' @ print_d (accessackdata_cnt e),
         rule])"

definition print_credit_status :: "tloe_endpoint_t \<Rightarrow> string" where
  "print_credit_status e =
     (let cr = (\<lambda>c. print_d (word_of_int (get_credit (fc e) c)))
      in lines_of [''Open connection is done. Credit '' @ cr 1 @ '' | '' @ cr 2 @ '' | '' @ cr 3 @ '' | '' @ cr 4 @ '' | '' @ cr 5])"

section \<open>The hex dump\<close>

definition tab :: char where
  "tab = CHR 0x09"

text \<open>\<^verbatim>\<open>char\<close> is signed, so the test for printable characters fails from 128 on.\<close>

definition printable :: "byte \<Rightarrow> char" where
  "printable b = (if sint b \<ge> 32 \<and> sint b < 128 then char_of (unat b) else CHR ''.'')"

text \<open>One pass of the loop over \<open>i\<close>.\<close>

definition payload_cell :: "byte list \<Rightarrow> nat \<Rightarrow> string" where
  "payload_cell bs i =
     (if i \<noteq> 0 \<and> i mod 16 = 0 then tab # map (\<lambda>j. printable (bs ! j)) [i - 16..<i] @ [newline] else []) @
     (if i mod 8 = 0 \<and> i mod 16 \<noteq> 0 then '' '' else []) @
     '' '' @ print_02X (bs ! i) @
     (if i = length bs - 1
      then concat (map (\<lambda>_. ''   '') [0..<15 - i mod 16]) @ tab #
           map (\<lambda>j. printable (bs ! j)) [i - i mod 16..<i + 1] @ [newline]
      else [])"

definition print_payload :: "byte list \<Rightarrow> string" where
  "print_payload bs = newline # concat (map (payload_cell bs) [0..<length bs]) @ [newline]"

text \<open>The reference: rows of sixteen bytes, each with its two columns.\<close>

function rows :: "'a list \<Rightarrow> 'a list list" where
  "rows xs = (if xs = [] then [] else take 16 xs # rows (drop 16 xs))"
  by pat_completeness auto
termination by (relation "measure length") auto

declare rows.simps [simp del]

definition hex_cell :: "byte list \<Rightarrow> nat \<Rightarrow> string" where
  "hex_cell r k = (if k = 8 then '' '' else []) @ '' '' @ print_02X (r ! k)"

definition text_column :: "byte list \<Rightarrow> string" where
  "text_column r = tab # map printable r @ [newline]"

definition dump_row :: "byte list \<Rightarrow> string" where
  "dump_row r = concat (map (hex_cell r) [0..<length r]) @ concat (replicate (16 - length r) ''   '') @ text_column r"

lemma concat_ends:
  assumes "0 < n"
  shows "concat (map (\<lambda>j. (if j = 0 then A else []) @ g j @ (if j = n - 1 then B else [])) [0..<n]) =
    A @ concat (map g [0..<n]) @ B"
proof -
  obtain m where n: "n = Suc m" using assms by (cases n) auto
  have "concat (map (\<lambda>j. (if j = 0 then A else []) @ g j) [0..<Suc k]) = A @ concat (map g [0..<Suc k])" for k
    by (induction k) simp_all
  moreover have "concat (map (\<lambda>j. (if j = 0 then A else []) @ g j @ (if j = m then B else [])) [0..<m]) =
      concat (map (\<lambda>j. (if j = 0 then A else []) @ g j) [0..<m])"
    by (intro arg_cong [of _ _ concat] map_cong) auto
  ultimately show ?thesis using n by (cases m) simp_all
qed

lemma text_of_slice:
  assumes "a + n \<le> length bs"
  shows "map (\<lambda>j. printable (bs ! j)) [a..<a + n] = map printable (take n (drop a bs))"
  using assms by (intro nth_equalityI) simp_all

lemma if_nested: "(P \<longleftrightarrow> A \<and> B) \<Longrightarrow> (P \<Longrightarrow> x = y) \<Longrightarrow> (if P then x else z) = (if A then (if B then y else z) else z)"
  by simp

lemma payload_cell_row:
  assumes "j < length r" and r: "r = take 16 (drop (16 * k) bs)"
  shows "payload_cell bs (16 * k + j) =
    (if j = 0 then (if k = 0 then [] else text_column (take 16 (drop (16 * (k - 1)) bs))) else []) @ hex_cell r j @
    (if j = length r - 1 then (if length bs \<le> 16 * k + 16 then concat (replicate (16 - length r) ''   '') @ text_column r else [])
     else [])"
proof -
  have j: "j < 16" "16 * k + j < length bs" using assms by auto
  then have m: "(16 * k + j) mod 16 = j" "(16 * k + j) mod 8 = j mod 8" by (simp_all add: mod_mult_self4 mod_add_left_eq [symmetric])
  have 8: "j mod 8 = 0 \<and> j \<noteq> 0 \<longleftrightarrow> j = 8" using j(1) by (auto simp: mod_eq_0_iff_dvd elim!: dvdE)
  have sep: "map (\<lambda>i. printable (bs ! i)) [16 * k - 16..<16 * k] = map printable (take 16 (drop (16 * (k - 1)) bs))" if "k \<noteq> 0"
    using text_of_slice [of "16 * k - 16" 16 bs] that j(2) by (cases k) (simp_all add: add.commute)
  have last: "16 * k + j = length bs - 1 \<longleftrightarrow> j = length r - 1 \<and> length bs \<le> 16 * k + 16" using j assms by auto
  let ?i = "16 * k + j"
  have a: "(if ?i \<noteq> 0 \<and> ?i mod 16 = 0 then tab # map (\<lambda>j. printable (bs ! j)) [?i - 16..<?i] @ [newline] else []) =
      (if j = 0 then (if k = 0 then [] else text_column (take 16 (drop (16 * (k - 1)) bs))) else [])"
    using m(1) sep by (simp add: text_column_def)
  have b: "(if ?i mod 8 = 0 \<and> ?i mod 16 \<noteq> 0 then '' '' else []) @ '' '' @ print_02X (bs ! ?i) = hex_cell r j"
    using m 8 j r by (simp add: hex_cell_def)
  have e: "concat (map (\<lambda>_. ''   '') [0..<15 - ?i mod 16]) @ tab # map (\<lambda>j. printable (bs ! j)) [?i - ?i mod 16..<?i + 1] @ [newline] =
      concat (replicate (16 - length r) ''   '') @ text_column r" if "?i = length bs - 1"
  proof -
    have "length r = j + 1" using that j r by auto
    moreover have "map (\<lambda>i. printable (bs ! i)) [16 * k..<16 * k + j + 1] = map printable r"
      using text_of_slice [of "16 * k" "j + 1" bs] that j r by (simp add: take_all_iff min_def)
    ultimately show ?thesis using m(1) by (simp add: map_replicate_const text_column_def)
  qed
  have c: "(if ?i = length bs - 1 then concat (map (\<lambda>_. ''   '') [0..<15 - ?i mod 16]) @ tab #
        map (\<lambda>j. printable (bs ! j)) [?i - ?i mod 16..<?i + 1] @ [newline] else []) =
      (if j = length r - 1 then (if length bs \<le> 16 * k + 16 then concat (replicate (16 - length r) ''   '') @ text_column r else [])
       else [])"
    by (rule if_nested [OF last e])
  show ?thesis unfolding payload_cell_def a c using b by simp
qed

lemma payload_rows:
  assumes "16 * k < length bs"
  shows "concat (map (payload_cell bs) [16 * k..<length bs]) =
    (if k = 0 then [] else text_column (take 16 (drop (16 * (k - 1)) bs))) @ concat (map dump_row (rows (drop (16 * k) bs)))"
  using assms
proof (induction "length bs - 16 * k" arbitrary: k rule: less_induct)
  case less
  define r where "r = take 16 (drop (16 * k) bs)"
  define n where "n = length r"
  let ?sep = "if k = 0 then [] else text_column (take 16 (drop (16 * (k - 1)) bs))"
  let ?last = "if length bs \<le> 16 * k + 16 then concat (replicate (16 - n) ''   '') @ text_column r else []"
  have n: "n = min 16 (length bs - 16 * k)" "0 < n" using less.prems by (auto simp: n_def r_def min_def)
  have "map (payload_cell bs) [16 * k..<16 * k + n] = map (\<lambda>j. payload_cell bs (16 * k + j)) [0..<n]"
    by (intro nth_equalityI) simp_all
  also have "\<dots> = map (\<lambda>j. (if j = 0 then ?sep else []) @ hex_cell r j @ (if j = n - 1 then ?last else [])) [0..<n]"
    using payload_cell_row [OF _ r_def] unfolding n_def by (intro map_cong) auto
  finally have row: "concat (map (payload_cell bs) [16 * k..<16 * k + n]) = ?sep @ concat (map (hex_cell r) [0..<n]) @ ?last"
    by (simp only: concat_ends [OF n(2)])
  have rs: "rows (drop (16 * k) bs) = r # rows (drop (16 * Suc k) bs)"
    using less.prems by (subst rows.simps) (simp add: r_def add.commute)
  show ?case
  proof (cases "length bs \<le> 16 * k + 16")
    case True
    then have "16 * k + n = length bs" "rows (drop (16 * Suc k) bs) = []" using n less.prems by (auto simp: rows.simps)
    then show ?thesis using row rs True by (simp add: dump_row_def n_def)
  next
    case False
    then have n16: "n = 16" and more: "16 * Suc k < length bs" using n(1) by simp_all
    have "[16 * k..<length bs] = [16 * k..<16 * k + n] @ [16 * Suc k..<length bs]"
      using more n16 upt_add_eq_append [of "16 * k" "16 * k + 16" "length bs - 16 * Suc k"] by (simp add: add.commute)
    moreover have "dump_row r = concat (map (hex_cell r) [0..<n]) @ text_column r" using n16 by (simp add: dump_row_def n_def)
    moreover note less.hyps [OF _ more]
    ultimately show ?thesis using row rs False more by (simp add: r_def)
  qed
qed

text \<open>
  The hex dump prints its argument row by row: sixteen bytes in hexadecimal, with a gap in the middle and padding in the last row, then
  the same bytes as text.
\<close>

lemma print_payload_rows: "print_payload bs = newline # concat (map dump_row (rows bs)) @ [newline]"
proof (cases "bs = []")
  case True
  then show ?thesis by (simp add: print_payload_def rows.simps)
next
  case False
  then show ?thesis using payload_rows [of 0 bs] by (simp add: print_payload_def)
qed

end
