(* ===== verification/Spec2Isabelle.thy ===== *)
theory Spec2Isabelle
  imports System Outage Drop_Hooks Shared_Queue Remote_Memory Printing
begin

text \<open>
  Omnixtend-C carries TileLink memory messages over Ethernet or POSIX message queues (TLoE). A program
  \<^verbatim>\<open>tloe_endpoint\<close> is one end of a connection: its main thread reads the user's commands, its endpoint thread runs the
  protocol, a go-back-N link with a window of four frames, piggybacked acknowledgements, 22-bit sequence
  numbers and credit-based flow control per TileLink channel; a memory behind it serves reads and writes. A second program
  \<^verbatim>\<open>tloe_ns\<close> relays packets between two endpoints and drops some for testing. This development models both programs and proves
  what makes them correct, and in a few places that they are not.

  \<^bold>\<open>The parts and their theories.\<close>

  \<^item> \<open>Prelude\<close>: machine types; the type \<open>run\<close> of a C function that returns or stops (\<^verbatim>\<open>BUG_ON\<close>, \<^verbatim>\<open>exit\<close>, undefined behaviour,
    a loop that does not end); generic lemmas. \<open>Scan\<close>: the text functions of the C library (\<^verbatim>\<open>fgets\<close>, \<^verbatim>\<open>atoi\<close>, \<^verbatim>\<open>sscanf\<close>).
  \<^item> \<open>Circular_Queue\<close> (\<^verbatim>\<open>util/circular_queue.c\<close>): the ring buffer refines a bounded list; the interface \<open>bounded_fifo\<close> is
    interpreted on it as \<open>cq\<close>, and every other component uses only its laws.
  \<^item> \<open>Tilelink_Msg\<close>, \<open>Tloe_Frame\<close> (\<^verbatim>\<open>tilelink_msg.[ch]\<close>, \<^verbatim>\<open>tloe_frame.[ch]\<close>): headers as records of words, messages as heap objects,
    sizes, masks, and the conversion between frames and packets, with their round trips.
  \<^item> \<open>Flow_Control\<close>, \<open>Timeout\<close>, \<open>Seq_Mgr\<close> (\<^verbatim>\<open>flowcontrol.[ch]\<close>, \<^verbatim>\<open>timeout.c\<close>, \<^verbatim>\<open>tloe_seq_mgr.c\<close>): the credit ledger, time-outs, and the
    wrap-around comparison of sequence numbers against unwrapped counts.
  \<^item> \<open>Endpoint_State\<close> (\<^verbatim>\<open>tloe_endpoint.h\<close>, \<^verbatim>\<open>tloe_fabric.[ch]\<close>): the endpoint record. \<open>Retransmission\<close>, \<open>Transmitter\<close>, \<open>Receiver\<close>
    (\<^verbatim>\<open>retransmission.c\<close>, \<^verbatim>\<open>tloe_transmitter.c\<close>, \<^verbatim>\<open>tloe_receiver.c\<close>): \<open>TX\<close> and \<open>RX\<close> in full, with the invariant \<open>ep_inv\<close> that both
    preserve and their effect on every branch.
  \<^item> \<open>Tilelink_Handler\<close> (\<^verbatim>\<open>tilelink_handler.c\<close>): the dispatch table and the memory, refining an abstract memory server.
  \<^item> \<open>Connection\<close> (\<^verbatim>\<open>tloe_connection.c\<close>): the open and close handshakes. \<open>Drop_Hooks\<close> (\<^verbatim>\<open>tloe_nsm.c\<close>): the hooks of the test builds.
  \<^item> \<open>Endpoint\<close>, \<open>Console\<close> (\<^verbatim>\<open>tloe_endpoint.c\<close>): initialisation, the endpoint thread as a step function, the commands; start-up, input
    loop and shut-down of \<^verbatim>\<open>main\<close>.
  \<^item> \<open>Fabric_Backends\<close>, \<open>Fabric_Ops\<close> (\<^verbatim>\<open>tloe_mq.c\<close>, \<^verbatim>\<open>tloe_ether.c\<close>, \<^verbatim>\<open>tloe_fabric.c\<close>): the backends and the tables; the interface
    \<open>packet_fabric\<close>, first-in first-out transport with bounded room, is interpreted on message queues (\<open>mqf\<close>) and on Ethernet (\<open>ethf\<close>).
  \<^item> \<open>Network_Sim\<close> (\<^verbatim>\<open>tloe_ns.c\<close>, \<^verbatim>\<open>tloe_ns_thread.c\<close>): the relay, its drop counters and its command loop.
  \<^item> \<open>Shared_Queue\<close>: the message buffer that both threads use without a lock, at the grain of single accesses. \<open>Printing\<close>: the status
    report and the hex dump.
  \<^item> \<open>Go_Back_N\<close>: the abstract protocol with unbounded frame counts, its invariant, and the interface \<open>seq_window\<close> to
    numbers on the wire, interpreted on the 22-bit numbers (\<open>wire\<close>). \<open>Link\<close>: two endpoints and two lossy channels as a step relation.
    \<open>Delivery\<close>: the link simulates the protocol in both directions. \<open>Credit_Link\<close>: the ledger of credits over a link.
    \<open>Session\<close>: from the handshake to the link. \<open>Remote_Memory\<close>: two endpoint threads, their users and the network, and the memory they
    implement. \<open>Lifecycle\<close>: all passes and commands of one program from start-up on; \<open>Outage\<close>: a network that loses one direction.
    \<open>System\<close>: both programs together.
  \<^item> This theory: one message from \<open>TX\<close> to the peer's \<open>RX\<close>.

  \<^bold>\<open>What is shown.\<close> The central results are two. \<open>Delivery\<close>: whatever two endpoints do, in any order and with any loss, each direction
  is a run of go-back-N, so that the messages delivered are a prefix of the messages sent, at most a window behind; a time-out repairs any
  loss; a pass of the endpoint thread is a run of that link; and the handshake ends in a state from which all this
  holds. \<open>Remote_Memory\<close>: on top of that the two programs are a linearizable memory, every request is served once and in order, and the
  answers are those of an abstract server; \<open>Credit_Link\<close> supplies what makes their passes return, the conservation of credit and the bound it
  puts on the TileLink buffer. \<open>Lifecycle\<close> has the type safety of one program: preservation of its invariant by every pass and command, and
  progress; the input loop of \<^verbatim>\<open>main\<close> makes such passes and commands. Below these stand the functional descriptions of \<open>TX\<close>, \<open>RX\<close>, retransmission, window, credits, handler, queue (also under
  interleaving) and codecs, and above them the composition with the backends, the simulator and the console. The remaining theorems are about errors: the
  loss of the last handshake frame blocks the connection, a one-way outage aborts the program, credit that is never announced, negative
  acknowledgements that are never sent, large messages that are clobbered or overflow, a flush that does not flush, a quit that hangs and an end
  of input that repeats the last command.

  \<^bold>\<open>Conventions and bounds.\<close> State is passed explicitly; a C struct is a record, a pointer to it the record itself, as nothing is aliased
  between components. Words keep their C widths. Loops that wait for the outside run on a list of events, one for each pass, and have the value
  \<open>Inl Diverge\<close> when the list ends first; theorems that such a loop returns name the events that suffice. Ring loops have fuel for one
  round, which \<open>queue_loop_live\<close> shows is enough, \<open>flush_loop\<close> has one unit more than there are messages. The link theorems hold for fewer than
  \<open>2 ^ 20 - 1\<close> frames in each direction (\<open>link_few\<close>): the comparison of the code looks at an acknowledgement that is older than half the number
  space as if it were new, and a channel may delay one that long; the starting numbers are arbitrary, so wrap-around is included. Messages
  are at most 40 bytes there (\<open>large_message_clobbered\<close> says why).

  \<^bold>\<open>Parameters.\<close> The clock, the outcome of \<^verbatim>\<open>malloc\<close>, \<^verbatim>\<open>pthread_create\<close> and \<^verbatim>\<open>rand\<close>, the contents of uninitialised stack buffers, what a
  receive delivers, the results of the socket calls, what \<^verbatim>\<open>getopt\<close> returns, and the build switch \<^verbatim>\<open>WDE\<close> are arguments. POSIX message queues are
  modelled as documented (\<open>posix_mq\<close>); file descriptors are never reused.

  \<^bold>\<open>Ghost state.\<close> An endpoint records the packets it has handed to the fabric (\<open>fabric_sent\<close>); the sides of a link record the frames sent as
  message, channel and credit (\<open>frame_info\<close>) and the messages the handler has served (\<open>side_served\<close>); \<open>Remote_Memory\<close> records what the users asked for.

  \<^bold>\<open>Not modelled.\<close> Usage, help and debug messages, which change no state (the debug functions are empty in the default build); unused
  message structs of \<^verbatim>\<open>tilelink_msg.h\<close>. The two threads of an endpoint interleave at single accesses in \<open>Shared_Queue\<close>, under sequential
  consistency; elsewhere a user command happens between two steps of the endpoint thread, and a simulator command between two passes of the
  relay. What the C memory model leaves undefined about unsynchronised plain variables has no meaning here. The mutex of the ring buffer is never
  used by the code. \<^verbatim>\<open>handle_ack_packet_drop\<close> of the test build needs two fields that the source does not declare; \<open>Drop_Hooks\<close> adds
  them.
\<close>

section \<open>From one endpoint to the other\<close>

lemma unat_channel: "k < 6 \<Longrightarrow> unat (of_nat k :: 3 word) = k"
  by (simp add: unat_of_nat take_bit_nat_eq_self)

text \<open>
  C9: a message that \<open>TX\<close> sends reaches the peer: when the sender's window has room and its channel credit, and the peer
  expects the sender's next sequence number and has room for a message, then the packet \<open>TX\<close> hands to the fabric makes the
  peer's \<open>RX\<close> append exactly this message to its TileLink buffer, whatever the rest of the receive buffer
  holds, and the sequence numbers of both sides agree again.
\<close>

theorem message_delivered:
  assumes s: "ep_inv s" "env_ok env" "rbe_alloc env" "req_ok (Some m)" "\<not> is_queue_full (retransmit_buffer s)"
      "\<not> dec_refused (fc s) m" "tlmsg_get_total_size m \<le> 40"
    and r: "ep_inv r" "next_rx_seq r = next_tx_seq s" "q_len (tl_msg_buffer r) < q_cap (tl_msg_buffer r)"
  shows "\<exists>s' p ps0 ps. TX env s (Some m) = Inr (None, s') \<and> ep_inv s' \<and> fabric_sent s' = fabric_sent s @ ps0 @ p # ps \<and>
    (\<forall>rest. \<exists>r'. RX True (int (length p), p @ rest) r = Inr r' \<and> ep_inv r' \<and>
      queue_list (tl_msg_buffer r') = queue_list (tl_msg_buffer r) @ [m] \<and> next_rx_seq r' = next_tx_seq s')"
proof -
  have plan: "tx_plan s (Some m) = Some (Some m)" using s(5,6) by (simp add: tx_plan_def)
  have sz: "tloe_get_fsize (Some m) = 56" using s(7) by (simp add: tloe_get_fsize_def)
  obtain f p s' credit ps0 ps where tx: "TX env s (Some m) = Inr (None, s')" "ep_inv s'"
    "next_tx_seq s' = tloe_seqnum_next (next_tx_seq s)" "fabric_sent s' = fabric_sent s @ ps0 @ p # ps"
    "f_header f = (normal_header s)\<lparr>h_seq_num_ack := tx_ack_num s,
      h_chan := of_nat (select_max_credit_channel (fc s)), h_credit := of_nat credit\<rparr>"
    "8 + 8 * int (length (flits f)) = 56" "tloe_frame_to_packet f 56 = Inr p" "tloe_get_mask f 56 = Inr 1"
    "tloe_get_tlmsg f 0 = Inr m"
    using TX_sends [OF s(1-4) plan] s(7) by (elim exE conjE) (simp add: that sz)
  have len: "length (flits f) = 6" using tx(6) by simp
  let ?f = "f\<lparr>flits := flits f @ replicate 59 0\<rparr>"
  obtain p' where p': "tloe_frame_to_packet f (8 + 8 * int 6) = Inr p'" "length p' = 8 + 8 * 6"
    "\<And>rest. packet_to_tloe_frame (p' @ rest) (8 + 8 * int 6) (zero_frame MAX_SIZE_FLIT) =
      Inr (f\<lparr>flits := flits f @ replicate (MAX_SIZE_FLIT - 6) 0\<rparr>)"
    using packet_decode [OF len] by auto
  have p: "length p = 56" "\<And>rest. packet_to_tloe_frame (p @ rest) 56 (zero_frame 65) = Inr ?f"
    using p' tx(7) by simp_all
  have seq: "seq_wf (next_tx_seq s)" using r(1,2) by (metis ep_inv_def)
  have "select_max_credit_channel (fc s) < 6" by (rule select_max_credit_channel_spec)
  then have ok: "frame_ok ?f 56" "\<not> is_ackonly_frame ?f" "ucast (h_seq_num (f_header ?f)) = next_rx_seq r"
    using len tx(5) r(2) seq
    by (simp_all add: frame_ok_def unat_channel is_ackonly_frame_def normal_header_def zero_header_def)
  note get = tloe_get_mask_append [OF tx(8), of "replicate 59 0"] tloe_get_tlmsg_append [OF tx(9), of "replicate 59 0"]
  have msgs: "frame_msgs ?f 1 = [m]" using get(2) by (rule frame_msgs_1)
  have dec: "\<forall>i \<in> set (mask_bits 1). \<exists>m. tloe_get_tlmsg ?f i = Inr m" using get(2) by simp
  have room: "q_len (tl_msg_buffer r) + length (frame_msgs ?f 1) \<le> q_cap (tl_msg_buffer r)" using r(3) msgs by simp
  from RX_frame_in_order [OF r(1) ok get(1) dec room]
  have "\<exists>r'. RX_frame r ?f 56 = Inr r' \<and> ep_inv r' \<and>
      queue_list (tl_msg_buffer r') = queue_list (tl_msg_buffer r) @ [m] \<and> next_rx_seq r' = next_tx_seq s'"
    unfolding msgs using tx(3) r(2) by auto
  moreover have "RX True (56, p @ rest) r = RX_frame r ?f 56" for rest
    using RX_packet [OF r(1) _ p(2)] by simp
  ultimately show ?thesis
    using tx(1,2,4) p(1) by (intro exI [of _ s'] exI [of _ p] exI [of _ ps0] exI [of _ ps]) simp
qed

theorem message_delivered_witness:
  "\<exists>s' p ps0 ps. TX sample_env (fresh_endpoint mq_fabric) (Some (sample_get 8)) = Inr (None, s') \<and> ep_inv s' \<and>
    fabric_sent s' = fabric_sent (fresh_endpoint mq_fabric) @ ps0 @ p # ps \<and>
    (\<forall>rest. \<exists>r'. RX True (int (length p), p @ rest) (fresh_endpoint mq_fabric) = Inr r' \<and> ep_inv r' \<and>
      queue_list (tl_msg_buffer r') = [sample_get 8] \<and> next_rx_seq r' = next_tx_seq s')"
proof -
  have "next_rx_seq (fresh_endpoint mq_fabric) = next_tx_seq (fresh_endpoint mq_fabric)"
    by (simp add: fresh_endpoint_def zero_endpoint_def)
  then show ?thesis
    using message_delivered [OF ep_inv_fresh_mq sample_env_ok sample_req_ok fresh_sends(1,2) _ ep_inv_fresh_mq, of 8]
      fresh_rx(2-4) [of mq_fabric] by simp
qed

end
